(* ===== verification/Suva_Prelude.thy ===== *)
theory Suva_Prelude
  imports Main "HOL-Library.Word"
begin

text \<open>
  What the components share: machine types, the faults of the C program as values, the
  sequencing of fallible steps, the little-endian layout of words in memory and on the wire,
  and generic lemmas on lists.
\<close>

unbundle bit_operations_syntax

section \<open>Machine types and faults\<close>

type_synonym byte = "8 word"
type_synonym c_int = "32 word"
type_synonym c_uint = "32 word"
type_synonym addr = "64 word"  \<comment> \<open>a pointer; 0 is NULL\<close>

text \<open>
  A step of the C program that has no defined meaning is a value of type \<open>fault\<close>, so a
  theorem that a function returns \<open>Inr\<close> says that it does none of these.
\<close>

datatype fault =
    Null_Deref        \<comment> \<open>a null pointer is followed\<close>
  | Dangling          \<comment> \<open>memory that was freed is used\<close>
  | Out_Of_Bounds     \<comment> \<open>an access outside its object\<close>
  | Div_By_Zero
  | Aborted           \<comment> \<open>an ASSERT failed, or the program called exit\<close>
  | No_Return         \<comment> \<open>a loop did not end within the number of rounds its model allows\<close>

type_synonym 'a res = "fault + 'a"

fun bind_res :: "'a res \<Rightarrow> ('a \<Rightarrow> 'b res) \<Rightarrow> 'b res" where
  "bind_res (Inl e) f = Inl e"
| "bind_res (Inr x) f = f x"

named_theorems res_iff \<open>when a sequence of fallible steps returns\<close>

lemma bind_res_Inr_iff [res_iff]: "bind_res m f = Inr y \<longleftrightarrow> (\<exists>x. m = Inr x \<and> f x = Inr y)"
  by (cases m) auto

lemma bind_res_assoc: "bind_res (bind_res m f) g = bind_res m (\<lambda>x. bind_res (f x) g)"
  by (cases m) auto

lemma bind_res_cong [fundef_cong]:
  "m = m' \<Longrightarrow> (\<And>x. m' = Inr x \<Longrightarrow> f x = f' x) \<Longrightarrow> bind_res m f = bind_res m' f'"
  by (cases m') auto

section \<open>Little-endian layout\<close>

text \<open>
  The bytes of a word, least significant first: the layout of an \<open>int\<close> in memory and on the
  wire of a build without \<open>SCO_BIG_ENDIAN\<close>.
\<close>

definition le4 :: "32 word \<Rightarrow> byte list" where
  "le4 w = map (\<lambda>i. ucast (drop_bit (8 * i) w)) [0, 1, 2, 3]"

definition un_le4 :: "byte list \<Rightarrow> 32 word" where
  "un_le4 bs = ucast (bs ! 0) OR push_bit 8 (ucast (bs ! 1)) OR push_bit 16 (ucast (bs ! 2))
     OR push_bit 24 (ucast (bs ! 3))"

definition le8 :: "64 word \<Rightarrow> byte list" where
  "le8 w = map (\<lambda>i. ucast (drop_bit (8 * i) w)) [0, 1, 2, 3, 4, 5, 6, 7]"

lemma length_le4 [simp]: "length (le4 w) = 4"
  by (simp add: le4_def)

lemma length_le8 [simp]: "length (le8 w) = 8"
  by (simp add: le8_def)

lemma un_le4_le4 [simp]: "un_le4 (le4 w) = w"
proof (rule bit_word_eqI)
  fix n assume n: "n < LENGTH(32)"
  then consider "n < 8" | "8 \<le> n" "n < 16" | "16 \<le> n" "n < 24" | "24 \<le> n" "n < 32"
    by force
  then show "bit (un_le4 (le4 w)) n = bit w n"
    by cases (auto simp: un_le4_def le4_def bit_simps)
qed

lemma le4_inject [simp]: "le4 v = le4 w \<longleftrightarrow> v = w"
  by (metis un_le4_le4)

text \<open>Only the first four bytes matter to a read of an \<open>int\<close>.\<close>

lemma un_le4_append: "length xs = 4 \<Longrightarrow> un_le4 (xs @ ys) = un_le4 xs"
  by (simp add: un_le4_def nth_append)

lemma un_le4_le4_append [simp]: "un_le4 (le4 w @ ys) = w"
  by (simp add: un_le4_append)

lemma sint_small:
  fixes w :: "32 word"
  assumes "unat w < 2 ^ 31"
  shows "sint w = int (unat w)"
proof -
  have "int (unat w) < int (2 ^ 31)" using assms by (simp only: of_nat_less_iff)
  then have "int (unat w) < 2 ^ 31" by simp
  then have "signed_take_bit 31 (int (unat w)) = int (unat w)"
    by (intro signed_take_bit_int_eq_self) (simp_all add: order_trans [OF _ uint_ge_0])
  then show ?thesis unfolding sint_uint uint_nat by simp
qed

section \<open>Text\<close>

text \<open>A string literal of the source, without its terminating zero.\<close>

definition str :: "string \<Rightarrow> byte list" where
  "str s = map of_char s"

text \<open>A C string in memory: what stands before the first zero. Without a zero it has no end.\<close>

definition c_str :: "byte list \<Rightarrow> byte list res" where
  "c_str bs = (if 0 \<in> set bs then Inr (takeWhile (\<lambda>b. b \<noteq> 0) bs) else Inl Out_Of_Bounds)"

lemma c_str_append0 [simp]: "0 \<notin> set s \<Longrightarrow> c_str (s @ 0 # rest) = Inr s"
  by (auto simp: c_str_def takeWhile_append)

text \<open>Reading and writing one byte of a block.\<close>

definition get_byte :: "byte list \<Rightarrow> nat \<Rightarrow> byte res" where
  "get_byte bs i = (if i < length bs then Inr (bs ! i) else Inl Out_Of_Bounds)"

definition put_byte :: "byte list \<Rightarrow> nat \<Rightarrow> byte \<Rightarrow> byte list res" where
  "put_byte bs i b = (if i < length bs then Inr (bs[i := b]) else Inl Out_Of_Bounds)"

section \<open>Lists\<close>

lemma length_4_conv: "length xs = 4 \<Longrightarrow> \<exists>a b c d. xs = [a, b, c, d]"
  by (auto simp: numeral_eq_Suc length_Suc_conv)

end
