(* ===== verification/Crc.thy ===== *)
theory Crc
  imports Suva_Prelude
begin

text \<open>
  The checksum of crc.c: the lookup table \<open>crctab\<close> and the routine \<open>scl_crc\<close>, which folds
  the bytes of a block and then the bytes of its length into a 32-bit register. Two facts carry
  the component: the table is eight steps of the polynomial division for its index, and one
  step of the register is injective in the register and in the byte, so that a corrupted byte
  always changes the checksum.
\<close>

section \<open>The code\<close>

definition crctab :: "32 word list" where
  "crctab =
   [0x00000000, 0x77073096, 0xee0e612c, 0x990951ba,
    0x076dc419, 0x706af48f, 0xe963a535, 0x9e6495a3,
    0x0edb8832, 0x79dcb8a4, 0xe0d5e91e, 0x97d2d988,
    0x09b64c2b, 0x7eb17cbd, 0xe7b82d07, 0x90bf1d91,
    0x1db71064, 0x6ab020f2, 0xf3b97148, 0x84be41de,
    0x1adad47d, 0x6ddde4eb, 0xf4d4b551, 0x83d385c7,
    0x136c9856, 0x646ba8c0, 0xfd62f97a, 0x8a65c9ec,
    0x14015c4f, 0x63066cd9, 0xfa0f3d63, 0x8d080df5,
    0x3b6e20c8, 0x4c69105e, 0xd56041e4, 0xa2677172,
    0x3c03e4d1, 0x4b04d447, 0xd20d85fd, 0xa50ab56b,
    0x35b5a8fa, 0x42b2986c, 0xdbbbc9d6, 0xacbcf940,
    0x32d86ce3, 0x45df5c75, 0xdcd60dcf, 0xabd13d59,
    0x26d930ac, 0x51de003a, 0xc8d75180, 0xbfd06116,
    0x21b4f4b5, 0x56b3c423, 0xcfba9599, 0xb8bda50f,
    0x2802b89e, 0x5f058808, 0xc60cd9b2, 0xb10be924,
    0x2f6f7c87, 0x58684c11, 0xc1611dab, 0xb6662d3d,
    0x76dc4190, 0x01db7106, 0x98d220bc, 0xefd5102a,
    0x71b18589, 0x06b6b51f, 0x9fbfe4a5, 0xe8b8d433,
    0x7807c9a2, 0x0f00f934, 0x9609a88e, 0xe10e9818,
    0x7f6a0dbb, 0x086d3d2d, 0x91646c97, 0xe6635c01,
    0x6b6b51f4, 0x1c6c6162, 0x856530d8, 0xf262004e,
    0x6c0695ed, 0x1b01a57b, 0x8208f4c1, 0xf50fc457,
    0x65b0d9c6, 0x12b7e950, 0x8bbeb8ea, 0xfcb9887c,
    0x62dd1ddf, 0x15da2d49, 0x8cd37cf3, 0xfbd44c65,
    0x4db26158, 0x3ab551ce, 0xa3bc0074, 0xd4bb30e2,
    0x4adfa541, 0x3dd895d7, 0xa4d1c46d, 0xd3d6f4fb,
    0x4369e96a, 0x346ed9fc, 0xad678846, 0xda60b8d0,
    0x44042d73, 0x33031de5, 0xaa0a4c5f, 0xdd0d7cc9,
    0x5005713c, 0x270241aa, 0xbe0b1010, 0xc90c2086,
    0x5768b525, 0x206f85b3, 0xb966d409, 0xce61e49f,
    0x5edef90e, 0x29d9c998, 0xb0d09822, 0xc7d7a8b4,
    0x59b33d17, 0x2eb40d81, 0xb7bd5c3b, 0xc0ba6cad,
    0xedb88320, 0x9abfb3b6, 0x03b6e20c, 0x74b1d29a,
    0xead54739, 0x9dd277af, 0x04db2615, 0x73dc1683,
    0xe3630b12, 0x94643b84, 0x0d6d6a3e, 0x7a6a5aa8,
    0xe40ecf0b, 0x9309ff9d, 0x0a00ae27, 0x7d079eb1,
    0xf00f9344, 0x8708a3d2, 0x1e01f268, 0x6906c2fe,
    0xf762575d, 0x806567cb, 0x196c3671, 0x6e6b06e7,
    0xfed41b76, 0x89d32be0, 0x10da7a5a, 0x67dd4acc,
    0xf9b9df6f, 0x8ebeeff9, 0x17b7be43, 0x60b08ed5,
    0xd6d6a3e8, 0xa1d1937e, 0x38d8c2c4, 0x4fdff252,
    0xd1bb67f1, 0xa6bc5767, 0x3fb506dd, 0x48b2364b,
    0xd80d2bda, 0xaf0a1b4c, 0x36034af6, 0x41047a60,
    0xdf60efc3, 0xa867df55, 0x316e8eef, 0x4669be79,
    0xcb61b38c, 0xbc66831a, 0x256fd2a0, 0x5268e236,
    0xcc0c7795, 0xbb0b4703, 0x220216b9, 0x5505262f,
    0xc5ba3bbe, 0xb2bd0b28, 0x2bb45a92, 0x5cb36a04,
    0xc2d7ffa7, 0xb5d0cf31, 0x2cd99e8b, 0x5bdeae1d,
    0x9b64c2b0, 0xec63f226, 0x756aa39c, 0x026d930a,
    0x9c0906a9, 0xeb0e363f, 0x72076785, 0x05005713,
    0x95bf4a82, 0xe2b87a14, 0x7bb12bae, 0x0cb61b38,
    0x92d28e9b, 0xe5d5be0d, 0x7cdcefb7, 0x0bdbdf21,
    0x86d3d2d4, 0xf1d4e242, 0x68ddb3f8, 0x1fda836e,
    0x81be16cd, 0xf6b9265b, 0x6fb077e1, 0x18b74777,
    0x88085ae6, 0xff0f6a70, 0x66063bca, 0x11010b5c,
    0x8f659eff, 0xf862ae69, 0x616bffd3, 0x166ccf45,
    0xa00ae278, 0xd70dd2ee, 0x4e048354, 0x3903b3c2,
    0xa7672661, 0xd06016f7, 0x4969474d, 0x3e6e77db,
    0xaed16a4a, 0xd9d65adc, 0x40df0b66, 0x37d83bf0,
    0xa9bcae53, 0xdebb9ec5, 0x47b2cf7f, 0x30b5ffe9,
    0xbdbdf21c, 0xcabac28a, 0x53b39330, 0x24b4a3a6,
    0xbad03605, 0xcdd70693, 0x54de5729, 0x23d967bf,
    0xb3667a2e, 0xc4614ab8, 0x5d681b02, 0x2a6f2b94,
    0xb40bbe37, 0xc30c8ea1, 0x5a05df1b, 0x2d02ef8d]"

text \<open>
  One turn of either loop. The register is a signed \<open>int\<close>, so \<open>crc >> 8\<close> copies the sign
  bit into the vacated positions (\<^const>\<open>signed_drop_bit\<close>).
\<close>

definition crc_step :: "c_int \<Rightarrow> c_int \<Rightarrow> c_int" where
  "crc_step crc x = signed_drop_bit 8 crc XOR crctab ! unat ((crc XOR x) AND 0xff)"

text \<open>\<open>while(len--)\<close>: a read past the end of the block is a fault.\<close>

fun crc_data :: "byte list \<Rightarrow> nat \<Rightarrow> c_int \<Rightarrow> c_int res" where
  "crc_data data 0 crc = Inr crc"
| "crc_data [] (Suc len) crc = Inl Out_Of_Bounds"
| "crc_data (b # data) (Suc len) crc = crc_data data len (crc_step crc (scast b))"

text \<open>\<open>while(data_len > 0)\<close>, with \<open>data_len >>= 8\<close>.\<close>

function crc_length :: "c_int \<Rightarrow> c_int \<Rightarrow> c_int" where
  "crc_length data_len crc =
     (if 0 <s data_len then crc_length (signed_drop_bit 8 data_len) (crc_step crc data_len)
      else crc)"
  by pat_completeness auto
termination
proof (relation "measure (\<lambda>(n, crc). nat (sint n))")
  show "((signed_drop_bit 8 n, crc_step crc n), n, crc) \<in> measure (\<lambda>(n, crc). nat (sint n))"
    if "0 <s n" for n crc :: c_int
  proof -
    have pos: "0 < sint n"
      using that by (simp add: word_sless_alt)
    have "sint (signed_drop_bit 8 n) = drop_bit 8 (sint n)"
      by (simp add: sint_signed_drop_bit_eq)
    also have "\<dots> = sint n div 256"
      by (simp add: drop_bit_eq_div)
    finally show ?thesis
      using pos by (simp add: nat_mono_iff)
  qed
qed simp

declare crc_length.simps [simp del]

text \<open>
  \<open>int scl_crc(char *data, int data_len)\<close>. A negative \<open>data_len\<close> never reaches 0 before it
  has left the block.
\<close>

definition scl_crc :: "byte list \<Rightarrow> c_int \<Rightarrow> c_int res" where
  "scl_crc data data_len =
     (if data_len <s 0 then Inl Out_Of_Bounds
      else bind_res (crc_data data (unat data_len) (NOT 0))
             (\<lambda>crc. Inr (NOT (crc_length data_len crc))))"

lemma crctab_length: "length crctab = 256"
  by (simp add: crctab_def)

section \<open>The table\<close>

text \<open>One bit of the division by the reflected polynomial \<open>0xEDB88320\<close>, and eight of them.\<close>

definition crc_bit :: "32 word \<Rightarrow> 32 word" where
  "crc_bit x = (if bit x 0 then drop_bit 1 x XOR 0xEDB88320 else drop_bit 1 x)"

definition crc_byte :: "32 word \<Rightarrow> 32 word" where
  "crc_byte x = crc_bit (crc_bit (crc_bit (crc_bit (crc_bit (crc_bit (crc_bit (crc_bit x)))))))"

lemma crc_bit_xor: "crc_bit (x XOR y) = crc_bit x XOR crc_bit y"
  by (auto simp: crc_bit_def bit_simps intro!: bit_word_eqI)

lemma crc_byte_xor: "crc_byte (x XOR y) = crc_byte x XOR crc_byte y"
  by (simp add: crc_byte_def crc_bit_xor)

text \<open>The table of a linear function doubles with its index range.\<close>

definition table_upto :: "nat \<Rightarrow> 32 word list" where
  "table_upto n = map (\<lambda>i. crc_byte (word_of_nat i)) [0..<n]"

lemma word_of_nat_add_xor:
  fixes i k :: nat
  assumes "i < 2 ^ k"
  shows "(word_of_nat (2 ^ k + i) :: 32 word) = word_of_nat (2 ^ k) XOR word_of_nat i"
proof -
  have "\<not> bit i k"
    using assms by (simp add: bit_iff_odd)
  then have "2 ^ k AND i = 0"
    by (auto intro!: bit_eqI simp: bit_simps)
  then show ?thesis
    by (simp add: disjunctive_add_eq_xor of_nat_xor_eq)
qed

lemma table_upto_double:
  assumes n: "n = 2 ^ k"
  shows "table_upto (n + n) =
    (let t = table_upto n in t @ map (\<lambda>x. crc_byte (word_of_nat n) XOR x) t)"
proof -
  have step: "crc_byte (word_of_nat (n + i)) = crc_byte (word_of_nat n) XOR crc_byte (word_of_nat i)"
    if "i < n" for i
    by (simp only: n word_of_nat_add_xor [OF that [unfolded n]] crc_byte_xor)
  have split: "[0..<n + n] = [0..<n] @ map (\<lambda>i. i + n) [0..<n]"
    unfolding map_add_upt by (rule upt_add_eq_append) simp
  have upper: "map (\<lambda>i. crc_byte (word_of_nat (i + n))) [0..<n]
      = map (\<lambda>i. crc_byte (word_of_nat n) XOR crc_byte (word_of_nat i)) [0..<n]"
    by (intro map_cong refl) (metis add.commute atLeastLessThan_iff set_upt step)
  show ?thesis
    unfolding table_upto_def Let_def split map_append map_map o_def upper ..
qed

lemma table_upto_1: "table_upto 1 = [0]"
  by (simp add: table_upto_def crc_byte_def crc_bit_def)

lemma crc_byte_powers:
  "crc_byte 1 = 0x77073096" "crc_byte 2 = 0xee0e612c" "crc_byte 4 = 0x076dc419"
  "crc_byte 8 = 0x0edb8832" "crc_byte 16 = 0x1db71064" "crc_byte 32 = 0x3b6e20c8"
  "crc_byte 64 = 0x76dc4190" "crc_byte 128 = 0xedb88320"
  by (simp_all add: crc_byte_def crc_bit_def)

lemma crctab_bytes: "table_upto 256 = crctab"
proof -
  have t2: "table_upto 2 = [0, 0x77073096]"
    using table_upto_double [of 1 0] unfolding table_upto_1 one_add_one by (simp add: crc_byte_powers)
  have t4: "table_upto 4 = take 4 crctab"
    using table_upto_double [of 2 1] by (simp add: t2 crc_byte_powers crctab_def)
  have t8: "table_upto 8 = take 8 crctab"
    using table_upto_double [of 4 2] by (simp add: t4 crc_byte_powers crctab_def)
  have t16: "table_upto 16 = take 16 crctab"
    using table_upto_double [of 8 3] by (simp add: t8 crc_byte_powers crctab_def)
  have t32: "table_upto 32 = take 32 crctab"
    using table_upto_double [of 16 4] by (simp add: t16 crc_byte_powers crctab_def)
  have t64: "table_upto 64 = take 64 crctab"
    using table_upto_double [of 32 5] by (simp add: t32 crc_byte_powers crctab_def)
  have t128: "table_upto 128 = take 128 crctab"
    using table_upto_double [of 64 6] by (simp add: t64 crc_byte_powers crctab_def)
  show ?thesis
    using table_upto_double [of 128 7] by (simp add: t128 crc_byte_powers crctab_def)
qed

lemma crctab_nth: "i < 256 \<Longrightarrow> crctab ! i = crc_byte (word_of_nat i)"
  by (simp add: crctab_bytes [symmetric] table_upto_def)

text \<open>No entry but the first starts with eight zeros or with nine ones.\<close>

lemma crctab_top: "\<forall>x \<in> set (tl crctab). 0x01000000 \<le> x \<and> x < 0xFF800000"
  by (simp add: crctab_def)

section \<open>One step of the register\<close>

lemma xor_eq_0_iff: "x XOR y = 0 \<longleftrightarrow> x = (y :: 'a :: len word)"
  by (auto simp: bit_eq_iff bit_simps)

lemma low_byte_mod: "unat (x AND 0xff :: c_int) = unat x mod 256"
proof -
  have "x AND 0xff = take_bit 8 x"
    by (simp add: take_bit_eq_mask mask_eq_exp_minus_1)
  then show ?thesis
    by (simp add: take_bit_eq_mod unat_mod_distrib)
qed

lemma low_byte_bound: "unat (x AND 0xff :: c_int) < 256"
  by (simp add: low_byte_mod)

lemma crctab_low: "crctab ! unat ((x :: c_int) AND 0xff) = crc_byte (x AND 0xff)"
  using low_byte_bound [of x] by (simp add: crctab_nth)

lemma signed_drop_bit_xor:
  "signed_drop_bit n (x XOR y :: c_int) = signed_drop_bit n x XOR signed_drop_bit n y"
  by (rule bit_word_eqI) (auto simp: bit_simps)

lemma crc_step_eq: "crc_step crc x = signed_drop_bit 8 crc XOR crc_byte ((crc XOR x) AND 0xff)"
  by (simp add: crc_step_def crctab_low)

lemma crc_step_xor:
  "crc_step c x XOR crc_step d y = crc_step (c XOR d) (x XOR y)"
proof -
  have "(c XOR x) AND 0xff XOR ((d XOR y) AND 0xff) = ((c XOR d) XOR (x XOR y)) AND 0xff"
    by (rule bit_word_eqI) (auto simp: bit_simps)
  then show ?thesis
    by (simp add: crc_step_eq signed_drop_bit_xor crc_byte_xor [symmetric] xor.assoc xor.left_commute)
qed

lemma crctab_entry:
  assumes "i < 256" and "i \<noteq> 0"
  shows "0x01000000 \<le> crctab ! i" and "crctab ! i < 0xFF800000"
proof -
  from assms have "crctab ! i = tl crctab ! (i - 1)" and "i - 1 < length (tl crctab)"
    by (simp_all add: nth_tl crctab_length)
  then have "crctab ! i \<in> set (tl crctab)"
    by (metis nth_mem)
  with crctab_top show "0x01000000 \<le> crctab ! i" and "crctab ! i < 0xFF800000"
    by blast+
qed

text \<open>The bits of a table entry from 23 up are neither all zero nor all one.\<close>

lemma crctab_drop:
  assumes "i < 256" and "i \<noteq> 0"
  shows "drop_bit 23 (crctab ! i) \<noteq> 0" and "drop_bit 23 (crctab ! i) \<noteq> 0x1FF"
proof -
  let ?n = "unat (crctab ! i)"
  have lo: "0x01000000 \<le> ?n" and hi: "?n < 0xFF800000"
    using crctab_entry [OF assms] by (simp_all add: word_le_nat_alt word_less_nat_alt)
  have "unat (drop_bit 23 (crctab ! i)) = ?n div 8388608"
    by (simp add: drop_bit_eq_div unat_div_distrib)
  with lo hi have "unat (drop_bit 23 (crctab ! i)) \<noteq> 0" "unat (drop_bit 23 (crctab ! i)) \<noteq> 0x1FF"
    by simp_all
  then show "drop_bit 23 (crctab ! i) \<noteq> 0" and "drop_bit 23 (crctab ! i) \<noteq> 0x1FF"
    by auto
qed

lemma drop_signed_drop: 
  "drop_bit 23 (signed_drop_bit 8 (e :: c_int)) = (if bit e 31 then 0x1FF else 0)"
proof -
  have "drop_bit 23 (signed_drop_bit 8 e) = (if bit e 31 then mask 9 else 0)"
  proof (rule bit_word_eqI)
    fix n assume "n < LENGTH(32)"
    show "bit (drop_bit 23 (signed_drop_bit 8 e)) n = bit (if bit e 31 then mask 9 else 0 :: c_int) n"
      by (cases "n = 0") (auto simp: bit_simps dest: bit_imp_le_length)
  qed
  then show ?thesis
    by (simp add: mask_eq_exp_minus_1)
qed

text \<open>A step ends in a small value only from a small register, and only with table index 0.\<close>

lemma crc_step_small:
  assumes f: "unat (crc_step e x) < 2 ^ (8 * k)" and k: "k \<le> 2"
  shows "(e XOR x) AND 0xff = 0" and "unat e < 2 ^ (8 * Suc k)"
proof -
  let ?i = "(e XOR x) AND 0xff"
  have "(2 :: nat) ^ (8 * k) \<le> 2 ^ 16"
    using k by (intro power_increasing) simp_all
  with f have "unat (crc_step e x) < 65536" by simp
  then have "unat (drop_bit 23 (crc_step e x)) = 0"
    by (simp add: drop_bit_eq_div unat_div_distrib)
  then have "drop_bit 23 (crc_step e x) = 0"
    by (simp add: unat_eq_0)
  then have top: "drop_bit 23 (signed_drop_bit 8 e) = drop_bit 23 (crctab ! unat ?i)"
    by (simp add: crc_step_def xor_eq_0_iff)
  show i: "?i = 0"
  proof (rule ccontr)
    assume "?i \<noteq> 0"
    then have "unat ?i \<noteq> 0" by (simp add: unat_eq_0)
    with crctab_drop [OF low_byte_bound] top drop_signed_drop [of e] show False
      by (metis (full_types))
  qed
  have "crctab ! 0 = 0" by (simp add: crctab_def)
  with i have s: "crc_step e x = signed_drop_bit 8 e"
    by (simp add: crc_step_def)
  have "drop_bit 23 (signed_drop_bit 8 e) = 0"
    using top i \<open>crctab ! 0 = 0\<close> by simp
  then have "\<not> bit e 31"
    using drop_signed_drop [of e] by (simp split: if_splits)
  then have "signed_drop_bit 8 e = drop_bit 8 e"
  proof (intro bit_word_eqI)
    fix n assume "\<not> bit e 31" and "n < LENGTH(32)"
    show "bit (signed_drop_bit 8 e) n = bit (drop_bit 8 e) n"
    proof (cases "n < 24")
      case True
      then show ?thesis by (simp add: bit_simps)
    next
      case False
      then have "\<not> bit e (8 + n)"
        using bit_imp_le_length [of e "8 + n"] by fastforce
      with False \<open>\<not> bit e 31\<close> show ?thesis by (simp add: bit_simps)
    qed
  qed
  then have "unat e div 256 < 2 ^ (8 * k)"
    using f s by (simp add: drop_bit_eq_div unat_div_distrib)
  then show "unat e < 2 ^ (8 * Suc k)"
    by (simp add: div_less_iff_less_mult power_add mult.commute)
qed

section \<open>The loops\<close>

abbreviation crc_bytes :: "c_int \<Rightarrow> byte list \<Rightarrow> c_int" where
  "crc_bytes \<equiv> foldl (\<lambda>crc b. crc_step crc (scast b))"

lemma crc_data_eq:
  "crc_data data len crc =
     (if len \<le> length data then Inr (crc_bytes crc (take len data)) else Inl Out_Of_Bounds)"
  by (induction data len crc rule: crc_data.induct) auto

lemma crc_step_inject: "crc_step c x = crc_step d x \<Longrightarrow> c = d"
proof -
  assume "crc_step c x = crc_step d x"
  then have "crc_step (c XOR d) 0 = 0"
    using crc_step_xor [of c x d x] by simp
  with crc_step_small [of "c XOR d" 0 0] have "(c XOR d) AND 0xff = 0" "unat (c XOR d) < 256"
    by simp_all
  with low_byte_mod [of "c XOR d"] have "c XOR d = 0"
    by (simp add: unat_eq_0)
  then show "c = d"
    by (simp add: xor_eq_0_iff)
qed

lemma crc_bytes_inject: "crc_bytes c ys = crc_bytes d ys \<Longrightarrow> c = d"
  by (induction ys arbitrary: c d) (auto dest: crc_step_inject)

lemma crc_length_inject: "crc_length n c = crc_length n d \<Longrightarrow> c = d"
proof (induction n c arbitrary: d rule: crc_length.induct)
  case (1 n c)
  show ?case
  proof (cases "0 <s n")
    case True
    with "1.prems" have
      "crc_length (signed_drop_bit 8 n) (crc_step c n) = crc_length (signed_drop_bit 8 n) (crc_step d n)"
      by (simp add: crc_length.simps [of n c] crc_length.simps [of n d])
    then have "crc_step c n = crc_step d n"
      using "1.IH" True by blast
    then show ?thesis by (rule crc_step_inject)
  next
    case False
    with "1.prems" show ?thesis
      by (simp add: crc_length.simps [of n c] crc_length.simps [of n d])
  qed
qed

lemma crc_bytes_back:
  "length us = length vs \<Longrightarrow> length us \<le> 3 \<Longrightarrow> crc_bytes c us = crc_bytes d vs \<Longrightarrow>
   unat (c XOR d) < 2 ^ (8 * length us)"
proof (induction us vs arbitrary: c d rule: list_induct2)
  case Nil
  then show ?case by simp
next
  case (Cons u us v vs)
  then have "unat (crc_step (c XOR d) (scast u XOR scast v)) < 2 ^ (8 * length us)"
    by (simp add: crc_step_xor [symmetric])
  then show ?case
    using crc_step_small(2) [of "c XOR d" "scast u XOR scast v" "length us"] Cons.prems by simp
qed

text \<open>Two windows of at most four bytes take the register to different values.\<close>

lemma crc_bytes_window:
  "length us = length vs \<Longrightarrow> length us \<le> 4 \<Longrightarrow> crc_bytes c us = crc_bytes c vs \<Longrightarrow> us = vs"
proof (induction us vs arbitrary: c rule: list_induct2)
  case Nil
  then show ?case by simp
next
  case (Cons u us v vs)
  let ?x = "(scast u XOR scast v) AND 0xff :: c_int"
  have "unat (crc_step c (scast u) XOR crc_step c (scast v)) < 2 ^ (8 * length us)"
    using Cons.prems Cons.hyps by (intro crc_bytes_back) simp_all
  moreover have "(2 :: nat) ^ (8 * length us) \<le> 2 ^ 24"
    using Cons.prems by (intro power_increasing) simp_all
  moreover have "crc_step c (scast u) XOR crc_step c (scast v) = crctab ! unat ?x"
    by (simp add: crc_step_xor) (simp add: crc_step_def)
  ultimately have lt: "unat (crctab ! unat ?x) < 2 ^ 24"
    by simp
  have "unat ?x = 0"
  proof (rule ccontr)
    assume "unat ?x \<noteq> 0"
    with crctab_entry(1) [OF low_byte_bound] have "0x01000000 \<le> crctab ! unat ?x" by blast
    with lt show False by (simp add: word_le_nat_alt)
  qed
  then have "?x = 0" by (simp add: unat_eq_0)
  have "u = v"
  proof (rule bit_word_eqI)
    fix n assume n: "n < LENGTH(8)"
    have "bit ?x n = False" using \<open>?x = 0\<close> by simp
    moreover have "bit (0xff :: c_int) n"
      using n bit_mask_iff [of 8 n, where 'a = c_int] by (simp add: mask_eq_exp_minus_1)
    moreover have "min 7 n = n"
      using n by simp
    ultimately show "bit u n = bit v n"
      using n by (simp add: bit_simps)
  qed
  with Cons show ?case by simp
qed

section \<open>Properties\<close>

text \<open>C23: The table-driven step is the bit-by-bit one: entry \<open>i\<close> of \<open>crctab\<close> is the byte \<open>i\<close>
  divided by the reflected polynomial \<open>0xEDB88320\<close> one bit at a time, for all 256 entries, so
  one turn of the loop is the eight-fold bitwise step of the low byte, added to the
  arithmetically shifted register.
\<close>

theorem crc_step_is_bitwise:
  "length crctab = 256 \<and>
   crc_step crc x = signed_drop_bit 8 crc XOR crc_byte ((crc XOR x) AND 0xff)"
  by (simp add: crctab_length crc_step_eq)

text \<open>C24: Corruption is detected: two blocks of the same length that differ only inside a window of
  at most four bytes never have the same checksum, in spite of the sign bits the arithmetic
  shift copies into the register.
\<close>

theorem scl_crc_detects_window:
  assumes len: "length us = length vs" "length us \<le> 4" and neq: "us \<noteq> vs"
    and n: "0 \<le> sint n" "unat n = length (xs @ us @ ys)"
  shows "scl_crc (xs @ us @ ys) n \<noteq> scl_crc (xs @ vs @ ys) n"
proof
  assume "scl_crc (xs @ us @ ys) n = scl_crc (xs @ vs @ ys) n"
  moreover have "\<not> n <s 0"
    using n(1) by (simp add: word_sless_alt)
  moreover have "unat n = length (xs @ vs @ ys)"
    using n(2) len(1) by simp
  ultimately have "crc_length n (crc_bytes (NOT 0) (xs @ us @ ys)) = crc_length n (crc_bytes (NOT 0) (xs @ vs @ ys))"
    using n(2) by (simp add: scl_crc_def crc_data_eq)
  then have "crc_bytes (crc_bytes (NOT 0) xs) us = crc_bytes (crc_bytes (NOT 0) xs) vs"
    by (auto dest!: crc_length_inject crc_bytes_inject)
  with crc_bytes_window [OF len] neq show False by blast
qed

theorem scl_crc_detects_window_witness:
  "scl_crc ([1] @ [2, 3] @ [4]) 4 \<noteq> scl_crc ([1] @ [2, 7] @ [4]) 4"
  by (rule scl_crc_detects_window) simp_all

text \<open>
  C3. \<open>scl_crc\<close> stays inside its block exactly when the length it is given is not negative and
  not larger than the block; then it returns a checksum.
\<close>

theorem scl_crc_defined_iff:
  "(\<exists>c. scl_crc data n = Inr c) \<longleftrightarrow> 0 \<le> sint n \<and> unat n \<le> length data"
  by (auto simp: scl_crc_def crc_data_eq word_sless_alt not_less)

text \<open>
  The checksum of the same bytes with an unsigned register, as the routines crc.c names as its
  models compute it, is another one.
\<close>

definition crc_step_unsigned :: "c_int \<Rightarrow> c_int \<Rightarrow> c_int" where
  "crc_step_unsigned crc x = drop_bit 8 crc XOR crctab ! unat ((crc XOR x) AND 0xff)"

text \<open>
  C4. The register of crc.c is a signed \<open>int\<close>, so the first step already differs from the step
  of the unsigned register of POSIX-style CRC routines: from the initial value \<open>~0\<close> the two
  steps never agree, whatever the byte.
\<close>

theorem crc_step_not_unsigned: "crc_step (NOT 0) x = crc_step_unsigned (NOT 0) x XOR 0xFF000000"
proof -
  have "signed_drop_bit 8 (NOT 0 :: c_int) = drop_bit 8 (NOT 0) XOR 0xFF000000"
    by (simp add: mask_eq_exp_minus_1)
  then show ?thesis
    by (simp only: crc_step_def crc_step_unsigned_def xor.assoc xor.commute xor.left_commute)
qed

end
