(* ===== verification/Mem.thy ===== *)
theory Mem
  imports Suva_Prelude
begin

text \<open>
  The memory manager of mem.c and mem.h: two hash tables of singly linked chains, one of memory
  types (\<open>pMemInfo\<close>) and one of the blocks handed out or stored (\<open>pMemList\<close>), over the
  C allocator. A chain is the list of its nodes from the head. The nodes of \<open>pMemInfo\<close> have
  addresses, because every block points to the node of its type; the nodes of \<open>pMemList\<close> are
  private to the table, so only the success of their \<open>malloc\<close> shows. \<open>SCO_MEM_HUSH\<close> is
  defined, so no operation prints.
\<close>

section \<open>State\<close>

record mem_info =
  mi_type :: c_uint
  mi_name :: "byte list"       \<comment> \<open>without the terminating zero\<close>
  mi_cb_free :: "nat option"   \<comment> \<open>the handler, or NULL\<close>

record mem_list =
  p_ptr :: addr
  ml_size :: c_uint
  ml_flags :: c_uint
  p_info :: addr

text \<open>
  \<open>heap\<close> holds the blocks the C allocator has handed out and their bytes, \<open>info_heap\<close> the
  allocated nodes of the type table; \<open>cb_log\<close> records the calls of custom free handlers, the
  latest first.
\<close>

record mem_ctx =
  pMemList :: "nat \<Rightarrow> mem_list list"
  pMemInfo :: "nat \<Rightarrow> addr list"
  info_heap :: "addr \<rightharpoonup> mem_info"
  heap :: "addr \<rightharpoonup> byte list"
  cb_log :: "(nat \<times> c_uint \<times> addr \<times> c_uint) list"

text \<open>
  What the C library and the compiler decide: the block \<open>malloc\<close> and \<open>realloc\<close> return
  (\<open>None\<close> for NULL), the contents of bytes \<open>realloc\<close> adds, and the value of a shift of a
  32-bit operand by 32 bits or more, which C leaves open and \<open>mem_hash\<close> computes. A \<open>realloc\<close>
  that fails keeps the block, but one to 0 bytes that returns NULL has freed it, as glibc does.
\<close>

record libc =
  malloc :: "mem_ctx \<Rightarrow> nat \<Rightarrow> addr option"
  realloc :: "mem_ctx \<Rightarrow> addr \<Rightarrow> nat \<Rightarrow> addr option"
  raw_byte :: "addr \<Rightarrow> nat \<Rightarrow> byte"
  wide_shift :: "byte \<Rightarrow> nat \<Rightarrow> 32 word"

text \<open>
  A fresh address: not NULL, no live block, no node, and none the table still lists (a pointer
  the program stored is one it keeps alive).
\<close>

definition mem_fresh :: "mem_ctx \<Rightarrow> addr \<Rightarrow> bool" where
  "mem_fresh c a \<longleftrightarrow> a \<noteq> 0 \<and> heap c a = None \<and> info_heap c a = None \<and>
     (\<forall>i. \<forall>e \<in> set (pMemList c i). p_ptr e \<noteq> a)"

definition libc_ok :: "libc \<Rightarrow> bool" where
  "libc_ok E \<longleftrightarrow>
     (\<forall>c n a. malloc E c n = Some a \<longrightarrow> mem_fresh c a \<and> unat a + n < 2 ^ 64) \<and>
     (\<forall>c p n a. realloc E c p n = Some a \<longrightarrow> a = p \<or> mem_fresh c a)"

section \<open>Constants and helpers\<close>

definition MEM_HASH_SIZE :: nat where "MEM_HASH_SIZE = 10240"

abbreviation MEM_RES_OK :: int where "MEM_RES_OK \<equiv> 0"
abbreviation MEM_RES_EXISTS :: int where "MEM_RES_EXISTS \<equiv> -1"
abbreviation MEM_RES_SYSCALL :: int where "MEM_RES_SYSCALL \<equiv> -2"
abbreviation MEM_RES_INUSE :: int where "MEM_RES_INUSE \<equiv> -3"
abbreviation MEM_RES_ISNULL :: int where "MEM_RES_ISNULL \<equiv> -5"
abbreviation MEM_RES_BADTYPE :: int where "MEM_RES_BADTYPE \<equiv> -6"
abbreviation MEM_FLG_STORED :: c_uint where "MEM_FLG_STORED \<equiv> 1"

definition is_stored :: "mem_list \<Rightarrow> bool" where
  "is_stored e \<longleftrightarrow> ml_flags e AND MEM_FLG_STORED = MEM_FLG_STORED"

text \<open>\<open>memset(p, 0, n)\<close> on the bytes of a block.\<close>

definition memset0 :: "nat \<Rightarrow> byte list \<Rightarrow> byte list res" where
  "memset0 n bs = (if n \<le> length bs then Inr (replicate n 0 @ drop n bs) else Inl Out_Of_Bounds)"

section \<open>Operations\<close>

text \<open>\<open>mem_hash\<close>: the key pointer is never advanced, every round shifts the first byte.\<close>

definition mem_hash :: "libc \<Rightarrow> byte list \<Rightarrow> nat \<Rightarrow> nat" where
  "mem_hash E p_key len =
     unat (foldl (\<lambda>hash i. hash + (if i < 32 then drop_bit i (ucast (hd p_key))
                                   else wide_shift E (hd p_key) i))
            (0 :: 32 word) (map (\<lambda>j. 8 * j) [0..<len]))
     mod MEM_HASH_SIZE"

abbreviation hash_type :: "libc \<Rightarrow> c_uint \<Rightarrow> nat" where
  "hash_type E t \<equiv> mem_hash E (le4 t) 4"

abbreviation hash_ptr :: "libc \<Rightarrow> addr \<Rightarrow> nat" where
  "hash_ptr E p \<equiv> mem_hash E (le8 p) 8"

definition mem_init :: "mem_ctx \<Rightarrow> mem_ctx" where
  "mem_init c = c\<lparr>pMemList := (\<lambda>_. []), pMemInfo := (\<lambda>_. [])\<rparr>"

definition deref_info :: "mem_ctx \<Rightarrow> addr \<Rightarrow> mem_info res" where
  "deref_info c a = (case info_heap c a of None \<Rightarrow> Inl Dangling | Some i \<Rightarrow> Inr i)"

fun find_type_chain :: "mem_ctx \<Rightarrow> addr list \<Rightarrow> c_uint \<Rightarrow> addr res" where
  "find_type_chain c [] t = Inr 0"
| "find_type_chain c (a # as) t =
     bind_res (deref_info c a)
       (\<lambda>i. if mi_type i = t then Inr a else find_type_chain c as t)"

definition mem_find_type :: "libc \<Rightarrow> mem_ctx \<Rightarrow> c_uint \<Rightarrow> addr res" where
  "mem_find_type E c t = find_type_chain c (pMemInfo c (hash_type E t)) t"

text \<open>
  \<open>mem_find_ptr\<close>: when the chain of its hash does not hold the pointer, all chains are scanned
  and the result is that of the last scan.
\<close>

definition mem_find_ptr :: "libc \<Rightarrow> mem_ctx \<Rightarrow> addr \<Rightarrow> mem_list option" where
  "mem_find_ptr E c p =
     (case find (\<lambda>e. p_ptr e = p) (pMemList c (hash_ptr E p)) of
        Some e \<Rightarrow> Some e
      | None \<Rightarrow> find (\<lambda>e. p_ptr e = p) (pMemList c (MEM_HASH_SIZE - 1)))"

definition mem_add_type :: "libc \<Rightarrow> mem_ctx \<Rightarrow> c_uint \<Rightarrow> byte list \<Rightarrow> (int \<times> mem_ctx) res" where
  "mem_add_type E c type name =
     bind_res (mem_find_type E c type) (\<lambda>p_info.
       if type = 0 then Inr (MEM_RES_BADTYPE, c)
       else if p_info \<noteq> 0 then Inr (MEM_RES_EXISTS, c)
       else let hash = hash_type E type in
         case malloc E c 56 of
           None \<Rightarrow> Inr (MEM_RES_SYSCALL, c)
         | Some a \<Rightarrow> Inr (MEM_RES_OK, c\<lparr>
             info_heap := (info_heap c)(a \<mapsto>
               \<lparr>mi_type = type, mi_name = take 31 name, mi_cb_free = None\<rparr>),
             pMemInfo := (pMemInfo c)(hash := a # pMemInfo c hash)\<rparr>))"

text \<open>The in-use scan of \<open>mem_del_type\<close> over one chain and over the table.\<close>

fun chain_uses :: "mem_ctx \<Rightarrow> mem_list list \<Rightarrow> c_uint \<Rightarrow> bool res" where
  "chain_uses c [] t = Inr False"
| "chain_uses c (e # es) t =
     bind_res (deref_info c (p_info e))
       (\<lambda>i. if mi_type i = t then Inr True else chain_uses c es t)"

fun table_uses :: "mem_ctx \<Rightarrow> nat list \<Rightarrow> c_uint \<Rightarrow> bool res" where
  "table_uses c [] t = Inr False"
| "table_uses c (i # is) t =
     bind_res (chain_uses c (pMemList c i) t)
       (\<lambda>u. if u then Inr True else table_uses c is t)"

text \<open>Unlinking the first node of the type from its chain: the node's address and the rest.\<close>

fun unlink_type :: "mem_ctx \<Rightarrow> addr list \<Rightarrow> c_uint \<Rightarrow> (addr option \<times> addr list) res" where
  "unlink_type c [] t = Inr (None, [])"
| "unlink_type c (a # as) t =
     bind_res (deref_info c a)
       (\<lambda>i. if mi_type i = t then Inr (Some a, as)
            else bind_res (unlink_type c as t) (\<lambda>(d, as'). Inr (d, a # as')))"

definition mem_del_type :: "libc \<Rightarrow> mem_ctx \<Rightarrow> c_uint \<Rightarrow> (int \<times> mem_ctx) res" where
  "mem_del_type E c type =
     bind_res (mem_find_type E c type) (\<lambda>p_info.
       if p_info = 0 then Inr (MEM_RES_EXISTS, c)
       else bind_res (table_uses c [0..<MEM_HASH_SIZE] type) (\<lambda>used.
         if used then Inr (MEM_RES_INUSE, c)
         else let hash = hash_type E type in
           bind_res (unlink_type c (pMemInfo c hash) type) (\<lambda>(d, as).
             Inr (MEM_RES_OK, c\<lparr>
               pMemInfo := (pMemInfo c)(hash := as),
               info_heap := (case d of None \<Rightarrow> info_heap c
                             | Some a \<Rightarrow> (info_heap c)(a := None))\<rparr>))))"

definition mem_get_type :: "libc \<Rightarrow> mem_ctx \<Rightarrow> c_uint \<Rightarrow> byte list option res" where
  "mem_get_type E c type =
     bind_res (mem_find_type E c type) (\<lambda>p_info.
       if p_info = 0 then Inr None
       else bind_res (deref_info c p_info) (\<lambda>i. Inr (Some (mi_name i))))"

definition push_entry :: "libc \<Rightarrow> mem_list \<Rightarrow> mem_ctx \<Rightarrow> mem_ctx" where
  "push_entry E e c =
     (let hash = hash_ptr E (p_ptr e)
      in c\<lparr>pMemList := (pMemList c)(hash := e # pMemList c hash)\<rparr>)"

definition mem_alloc :: "libc \<Rightarrow> mem_ctx \<Rightarrow> c_uint \<Rightarrow> c_uint \<Rightarrow> (addr \<times> mem_ctx) res" where
  "mem_alloc E c type sz =
     bind_res (mem_find_type E c type) (\<lambda>p_info.
       if p_info = 0 then Inr (0, c)
       else case malloc E c 32 of
         None \<Rightarrow> Inr (0, c)
       | Some _ \<Rightarrow>
         (case malloc E c (unat sz) of
            None \<Rightarrow> Inr (0, c)
          | Some p \<Rightarrow>
              Inr (p, push_entry E
                \<lparr>p_ptr = p, ml_size = sz, ml_flags = 0, p_info = p_info\<rparr>
                (c\<lparr>heap := (heap c)(p \<mapsto> replicate (unat sz) 0)\<rparr>))))"

text \<open>\<open>mem_calloc\<close> records the size of one member, and zeroes \<open>size * members\<close> bytes modulo \<open>2^32\<close>.\<close>

definition mem_calloc ::
  "libc \<Rightarrow> mem_ctx \<Rightarrow> c_uint \<Rightarrow> c_uint \<Rightarrow> c_uint \<Rightarrow> (addr \<times> mem_ctx) res" where
  "mem_calloc E c type members sz =
     bind_res (mem_find_type E c type) (\<lambda>p_info.
       if p_info = 0 then Inr (0, c)
       else case malloc E c 32 of
         None \<Rightarrow> Inr (0, c)
       | Some _ \<Rightarrow>
         (case malloc E c (unat members * unat sz) of
            None \<Rightarrow> Inr (0, c)
          | Some p \<Rightarrow>
              bind_res (memset0 (unat (sz * members)) (replicate (unat members * unat sz) 0))
                (\<lambda>bs. Inr (p, push_entry E
                  \<lparr>p_ptr = p, ml_size = sz, ml_flags = 0, p_info = p_info\<rparr>
                  (c\<lparr>heap := (heap c)(p \<mapsto> bs)\<rparr>)))))"

text \<open>Unlinking the first node of a chain that holds the pointer.\<close>

fun unlink_ptr :: "addr \<Rightarrow> mem_list list \<Rightarrow> mem_list list" where
  "unlink_ptr p [] = []"
| "unlink_ptr p (e # es) = (if p_ptr e = p then es else e # unlink_ptr p es)"

definition unlink_entry :: "libc \<Rightarrow> addr \<Rightarrow> mem_ctx \<Rightarrow> mem_ctx" where
  "unlink_entry E p c =
     (let hash = hash_ptr E p
      in c\<lparr>pMemList := (pMemList c)(hash := unlink_ptr p (pMemList c hash))\<rparr>)"

text \<open>
  \<open>mem_realloc\<close>. The bytes from the recorded size up to the new size are zeroed. When the
  block moves, its node leaves the chain of the old address and is pushed on the chain of the
  new one; otherwise only its size changes in place. The NULL of \<open>realloc(p, 0)\<close> is taken for a
  failure: the block is gone, and its node stays in the table.
\<close>

definition mem_realloc :: "libc \<Rightarrow> mem_ctx \<Rightarrow> addr \<Rightarrow> c_uint \<Rightarrow> (addr \<times> mem_ctx) res" where
  "mem_realloc E c p new_size =
     (case mem_find_ptr E c p of
        None \<Rightarrow> Inr (0, c)
      | Some e \<Rightarrow>
          if is_stored e then Inr (0, c)
          else (case heap c p of
            None \<Rightarrow> Inl Dangling
          | Some bs \<Rightarrow>
            (case realloc E c p (unat new_size) of
               None \<Rightarrow> Inr (0, if new_size = 0 then c\<lparr>heap := (heap c)(p := None)\<rparr> else c)
             | Some q \<Rightarrow>
                 let grown = take (unat new_size) bs @
                       map (raw_byte E q) [length bs..<unat new_size];
                     zeroed = (if ml_size e < new_size
                       then take (unat (ml_size e)) grown @ replicate (unat new_size - unat (ml_size e)) 0
                       else grown);
                     c1 = c\<lparr>heap := (heap c)(p := None, q \<mapsto> zeroed)\<rparr>
                 in if q \<noteq> p_ptr e
                    then Inr (q, push_entry E (e\<lparr>p_ptr := q, ml_size := new_size\<rparr>)
                                   (unlink_entry E (p_ptr e) c1))
                    else Inr (q, c1\<lparr>pMemList := (pMemList c1)(hash_ptr E p :=
                           map (\<lambda>x. if p_ptr x = p then x\<lparr>ml_size := new_size\<rparr> else x)
                             (pMemList c1 (hash_ptr E p)))\<rparr>))))"

definition mem_store :: "libc \<Rightarrow> mem_ctx \<Rightarrow> addr \<Rightarrow> c_uint \<Rightarrow> c_uint \<Rightarrow> (int \<times> mem_ctx) res" where
  "mem_store E c p type sz =
     bind_res (mem_find_type E c type) (\<lambda>p_info.
       if p = 0 then Inr (MEM_RES_ISNULL, c)
       else if mem_find_ptr E c p \<noteq> None then Inr (MEM_RES_EXISTS, c)
       else if p_info = 0 then Inr (MEM_RES_EXISTS, c)
       else case malloc E c 32 of
         None \<Rightarrow> Inr (MEM_RES_SYSCALL, c)
       | Some _ \<Rightarrow> Inr (MEM_RES_OK, push_entry E
           \<lparr>p_ptr = p, ml_size = sz, ml_flags = MEM_FLG_STORED, p_info = p_info\<rparr> c))"

text \<open>
  \<open>mem_free\<close>: the handler of the type if it has one; otherwise an allocated block is cleared
  and freed, and a stored pointer is left alone.
\<close>

definition mem_free :: "libc \<Rightarrow> mem_ctx \<Rightarrow> addr \<Rightarrow> mem_ctx res" where
  "mem_free E c p =
     (case mem_find_ptr E c p of
        None \<Rightarrow> Inr c
      | Some e \<Rightarrow>
          let c1 = unlink_entry E p c in
          bind_res (deref_info c1 (p_info e)) (\<lambda>i.
            case mi_cb_free i of
              Some handler \<Rightarrow> Inr (c1\<lparr>cb_log := (handler, mi_type i, p, ml_size e) # cb_log c1\<rparr>)
            | None \<Rightarrow>
                if \<not> is_stored e then
                  (case heap c1 p of
                     None \<Rightarrow> Inl Dangling
                   | Some bs \<Rightarrow>
                       bind_res (memset0 (unat (ml_size e)) bs)
                         (\<lambda>_. Inr (c1\<lparr>heap := (heap c1)(p := None)\<rparr>)))
                else Inr c1))"

text \<open>
  \<open>mem_free_all\<close>: the loops read the successor of a node before they free it, so they visit the
  chain as it was when they reached it.
\<close>

fun free_chain :: "libc \<Rightarrow> mem_ctx \<Rightarrow> c_uint \<Rightarrow> mem_list list \<Rightarrow> mem_ctx res" where
  "free_chain E c type [] = Inr c"
| "free_chain E c type (e # es) =
     bind_res (deref_info c (p_info e)) (\<lambda>i.
       if type = 0 \<or> mi_type i = type
       then bind_res (mem_free E c (p_ptr e)) (\<lambda>c'. free_chain E c' type es)
       else free_chain E c type es)"

fun free_buckets :: "libc \<Rightarrow> mem_ctx \<Rightarrow> c_uint \<Rightarrow> nat list \<Rightarrow> mem_ctx res" where
  "free_buckets E c type [] = Inr c"
| "free_buckets E c type (i # is) =
     bind_res (free_chain E c type (pMemList c i)) (\<lambda>c'. free_buckets E c' type is)"

fun del_chain :: "libc \<Rightarrow> mem_ctx \<Rightarrow> addr list \<Rightarrow> mem_ctx res" where
  "del_chain E c [] = Inr c"
| "del_chain E c (a # as) =
     bind_res (deref_info c a) (\<lambda>i.
       bind_res (mem_del_type E c (mi_type i)) (\<lambda>(_, c'). del_chain E c' as))"

fun del_buckets :: "libc \<Rightarrow> mem_ctx \<Rightarrow> nat list \<Rightarrow> mem_ctx res" where
  "del_buckets E c [] = Inr c"
| "del_buckets E c (i # is) =
     bind_res (del_chain E c (pMemInfo c i)) (\<lambda>c'. del_buckets E c' is)"

definition mem_free_all :: "libc \<Rightarrow> mem_ctx \<Rightarrow> c_uint \<Rightarrow> mem_ctx res" where
  "mem_free_all E c type =
     bind_res (free_buckets E c type [0..<MEM_HASH_SIZE]) (\<lambda>c'.
       if type \<noteq> 0 then Inr c' else del_buckets E c' [0..<MEM_HASH_SIZE])"

text \<open>\<open>mem_get_size\<close>: an \<open>unsigned int\<close> total.\<close>

fun chain_size :: "mem_ctx \<Rightarrow> c_uint \<Rightarrow> c_uint \<Rightarrow> mem_list list \<Rightarrow> c_uint res" where
  "chain_size c type acc [] = Inr acc"
| "chain_size c type acc (e # es) =
     bind_res (deref_info c (p_info e)) (\<lambda>i.
       chain_size c type (if mi_type i = type then acc + ml_size e else acc) es)"

fun table_size :: "mem_ctx \<Rightarrow> c_uint \<Rightarrow> c_uint \<Rightarrow> nat list \<Rightarrow> c_uint res" where
  "table_size c type acc [] = Inr acc"
| "table_size c type acc (i # is) =
     bind_res (chain_size c type acc (pMemList c i)) (\<lambda>acc'. table_size c type acc' is)"

definition mem_get_size :: "mem_ctx \<Rightarrow> c_uint \<Rightarrow> c_uint res" where
  "mem_get_size c type = table_size c type 0 [0..<MEM_HASH_SIZE]"

definition mem_cb_free :: "libc \<Rightarrow> mem_ctx \<Rightarrow> c_uint \<Rightarrow> nat option \<Rightarrow> mem_ctx res" where
  "mem_cb_free E c type handler =
     bind_res (mem_find_type E c type) (\<lambda>p_info.
       if p_info = 0 then Inr c
       else bind_res (deref_info c p_info) (\<lambda>i.
         Inr (c\<lparr>info_heap := (info_heap c)(p_info \<mapsto> i\<lparr>mi_cb_free := handler\<rparr>)\<rparr>)))"

end
