(* ===== verification/Mem_Iface.thy ===== *)
theory Mem_Iface
  imports Suva_Prelude
begin

text \<open>
  The interface between the memory manager and its hash table of blocks: a finite map from
  pointers to nodes. What follows from the laws of a map is proved here once; mem.c's chained
  table is an interpretation.
\<close>

locale ptr_map =
  fixes lkp :: "'c \<Rightarrow> 'k \<Rightarrow> 'v option"
    and ins :: "'v \<Rightarrow> 'c \<Rightarrow> 'c"
    and del :: "'k \<Rightarrow> 'c \<Rightarrow> 'c"
    and key :: "'v \<Rightarrow> 'k"
    and inv :: "'c \<Rightarrow> bool"
  assumes lkp_ins: "lkp (ins v c) = (lkp c)(key v \<mapsto> v)"
    and lkp_del: "inv c \<Longrightarrow> lkp (del k c) = (lkp c)(k := None)"
    and inv_ins: "inv c \<Longrightarrow> lkp c (key v) = None \<Longrightarrow> inv (ins v c)"
    and inv_del: "inv c \<Longrightarrow> inv (del k c)"
    and lkp_key: "lkp c k = Some v \<Longrightarrow> key v = k"
begin

text \<open>Moving a node to another key, as a reallocation does.\<close>

lemma lkp_move: "inv c \<Longrightarrow> lkp (ins v (del k c)) = (lkp c)(k := None, key v \<mapsto> v)"
  by (simp add: lkp_ins lkp_del)

lemma inv_move: "inv c \<Longrightarrow> key v = k \<or> lkp c (key v) = None \<Longrightarrow> inv (ins v (del k c))"
  by (rule inv_ins) (auto simp: inv_del lkp_del)

text \<open>A node that is inserted and deleted again leaves no trace.\<close>

lemma lkp_ins_del:
  "inv c \<Longrightarrow> lkp c (key v) = None \<Longrightarrow> lkp (del (key v) (ins v c)) = lkp c"
  by (auto simp: lkp_del inv_ins lkp_ins)

end

end
