(* ===== verification/Mem_Inv.thy ===== *)
theory Mem_Inv
  imports Mem Mem_Iface
begin

text \<open>
  The invariant of the memory manager and what each of its operations does to it. The abstract
  view of the manager is \<open>mem_abs\<close>: which pointers it lists, each with its type, its recorded size
  and whether it was stored or allocated. The chained table of mem.c is an interpretation of the
  map interface of \<open>Mem_Iface\<close>; every operation has a lemma ending in \<open>_cases\<close> or \<open>_freed\<close> that
  says, branch by branch, what it returns and how the abstract view changes.
\<close>

unbundle bit_operations_syntax

section \<open>Hashing\<close>

lemma mem_hash_less [simp]: "mem_hash E k n < MEM_HASH_SIZE"
  by (simp add: mem_hash_def MEM_HASH_SIZE_def)

lemma drop_bit_byte: "8 \<le> n \<Longrightarrow> drop_bit n (ucast b :: 32 word) = 0" for b :: byte
  by (rule bit_word_eqI) (auto simp: bit_simps dest: bit_imp_le_length)

lemma hash_type_eq: "hash_type E t = unat t mod 256"
proof -
  have "hd (le4 t) = ucast t"
    by (simp add: le4_def)
  moreover have "map (\<lambda>j. 8 * j) [0..<4] = [0, 8, 16, 24 :: nat]"
    by (simp add: upt_rec)
  moreover have "unat (ucast (ucast t :: byte) :: 32 word) = unat t mod 256"
    by (simp add: unsigned_ucast_eq take_bit_eq_mod unat_mod_distrib)
  ultimately show ?thesis
    by (simp add: mem_hash_def MEM_HASH_SIZE_def drop_bit_byte)
qed

section \<open>The invariant\<close>

definition info_wf :: "libc \<Rightarrow> mem_ctx \<Rightarrow> bool" where
  "info_wf E c \<longleftrightarrow>
     (\<forall>i. \<forall>a \<in> set (pMemInfo c i). a \<noteq> 0 \<and>
        (\<exists>t. info_heap c a = Some t \<and> mi_type t \<noteq> 0 \<and> hash_type E (mi_type t) = i)) \<and>
     (\<forall>i. \<forall>a \<in> set (pMemInfo c i). \<forall>b \<in> set (pMemInfo c i).
        map_option mi_type (info_heap c a) = map_option mi_type (info_heap c b) \<longrightarrow> a = b) \<and>
     (\<forall>i. distinct (pMemInfo c i))"

definition entry_wf :: "libc \<Rightarrow> mem_ctx \<Rightarrow> mem_list \<Rightarrow> bool" where
  "entry_wf E c e \<longleftrightarrow> p_ptr e \<noteq> 0 \<and>
     (\<exists>t. info_heap c (p_info e) = Some t \<and>
        p_info e \<in> set (pMemInfo c (hash_type E (mi_type t)))) \<and>
     (\<not> is_stored e \<longrightarrow>
        (\<exists>bs. heap c (p_ptr e) = Some bs \<and> unat (ml_size e) \<le> length bs))"

text \<open>The node the table has for a pointer, and the type of a node.\<close>

definition lookup :: "libc \<Rightarrow> mem_ctx \<Rightarrow> addr \<Rightarrow> mem_list option" where
  "lookup E c p = find (\<lambda>e. p_ptr e = p) (pMemList c (hash_ptr E p))"

definition entry_type :: "mem_ctx \<Rightarrow> mem_list \<Rightarrow> c_uint" where
  "entry_type c e = (case info_heap c (p_info e) of None \<Rightarrow> 0 | Some t \<Rightarrow> mi_type t)"

definition table_wf :: "libc \<Rightarrow> mem_ctx \<Rightarrow> bool" where
  "table_wf E c \<longleftrightarrow>
     (\<forall>i. \<forall>e \<in> set (pMemList c i). hash_ptr E (p_ptr e) = i) \<and>
     (\<forall>i. distinct (map p_ptr (pMemList c i)))"

definition mem_wf :: "libc \<Rightarrow> mem_ctx \<Rightarrow> bool" where
  "mem_wf E c \<longleftrightarrow> info_wf E c \<and> table_wf E c \<and>
     (\<forall>p e. lookup E c p = Some e \<longrightarrow> entry_wf E c e)"

subsection \<open>The table of pointers\<close>

lemma lookup_None_iff: 
  "lookup E c p = None \<longleftrightarrow> (\<forall>e \<in> set (pMemList c (hash_ptr E p)). p_ptr e \<noteq> p)"
  by (auto simp: lookup_def find_None_iff)

lemma find_distinct:
  "distinct (map f xs) \<Longrightarrow> find (\<lambda>x. f x = k) xs = Some x \<longleftrightarrow> x \<in> set xs \<and> f x = k"
  by (induction xs) (auto simp: image_iff)

lemma lookup_Some_iff:
  "table_wf E c \<Longrightarrow> lookup E c p = Some e \<longleftrightarrow> e \<in> set (pMemList c (hash_ptr E p)) \<and> p_ptr e = p"
  by (simp add: lookup_def table_wf_def find_distinct)

lemma lookup_ptr: "lookup E c p = Some e \<Longrightarrow> p_ptr e = p"
  by (auto simp: lookup_def find_Some_iff)

text \<open>In a well-formed table every node is where its pointer hashes to, so the scan of all chains finds nothing more.\<close>

lemma mem_find_ptr_eq: "table_wf E c \<Longrightarrow> mem_find_ptr E c p = lookup E c p"
proof -
  assume wf: "table_wf E c"
  have "find (\<lambda>e. p_ptr e = p) (pMemList c (MEM_HASH_SIZE - 1)) = None"
    if "lookup E c p = None"
    using that wf unfolding lookup_None_iff find_None_iff table_wf_def by metis
  then show ?thesis
    by (auto simp: mem_find_ptr_def lookup_def split: option.splits)
qed

lemma in_chain_iff:
  "table_wf E c \<Longrightarrow> e \<in> set (pMemList c i) \<longleftrightarrow> lookup E c (p_ptr e) = Some e \<and> hash_ptr E (p_ptr e) = i"
  by (auto simp: lookup_Some_iff) (auto simp: table_wf_def)

lemma unlink_ptr_set:
  "distinct (map p_ptr es) \<Longrightarrow> set (unlink_ptr p es) = {e \<in> set es. p_ptr e \<noteq> p}"
  by (induction es) (auto simp: image_iff)

lemma unlink_ptr_distinct:
  "distinct (map p_ptr es) \<Longrightarrow> distinct (map p_ptr (unlink_ptr p es))"
  by (induction es) (auto simp: unlink_ptr_set)

lemma find_unlink_ptr:
  "distinct (map p_ptr es) \<Longrightarrow>
   find (\<lambda>e. p_ptr e = q) (unlink_ptr p es) = (if q = p then None else find (\<lambda>e. p_ptr e = q) es)"
  by (induction es) (auto simp: find_None_iff image_iff)

interpretation tbl: ptr_map "lookup E" "push_entry E" "unlink_entry E" p_ptr "table_wf E" for E
proof
  fix c k v
  show "lookup E (push_entry E v c) = (lookup E c)(p_ptr v \<mapsto> v)"
    by (rule ext) (simp add: lookup_def push_entry_def Let_def)
  show "lookup E (unlink_entry E k c) = (lookup E c)(k := None)" if "table_wf E c"
    using that by (intro ext) (auto simp: lookup_def unlink_entry_def Let_def table_wf_def find_unlink_ptr)
  show "table_wf E (push_entry E v c)" if "table_wf E c" "lookup E c (p_ptr v) = None"
    using that by (auto simp: table_wf_def push_entry_def Let_def lookup_None_iff)
  show "table_wf E (unlink_entry E k c)" if "table_wf E c"
    using that by (auto simp: table_wf_def unlink_entry_def Let_def unlink_ptr_set unlink_ptr_distinct)
  show "p_ptr v = k" if "lookup E c k = Some v"
    using that by (rule lookup_ptr)
qed

subsection \<open>The table of types\<close>

lemma deref_info_Inr: "deref_info c a = Inr t \<longleftrightarrow> info_heap c a = Some t"
  by (auto simp: deref_info_def split: option.splits)

lemma find_type_chain_wf:
  "(\<forall>a \<in> set as. a \<noteq> 0 \<and> info_heap c a \<noteq> None) \<Longrightarrow>
   \<exists>a. find_type_chain c as t = Inr a \<and>
     (if a = 0 then \<forall>b \<in> set as. map_option mi_type (info_heap c b) \<noteq> Some t
      else a \<in> set as \<and> map_option mi_type (info_heap c a) = Some t)"
proof (induction as)
  case Nil
  then show ?case by simp
next
  case (Cons x as)
  then obtain i where "info_heap c x = Some i" by auto
  with Cons show ?case
    by (cases "mi_type i = t") (auto simp: deref_info_def split: if_splits)
qed

lemma info_wfD:
  assumes "info_wf E c" "a \<in> set (pMemInfo c i)"
  obtains t where "a \<noteq> 0" "info_heap c a = Some t" "mi_type t \<noteq> 0" "hash_type E (mi_type t) = i"
  using assms unfolding info_wf_def by blast

text \<open>What \<open>mem_find_type\<close> returns: NULL and there is no node of the type, or the node of the type.\<close>

lemma mem_find_type_cases:
  assumes wf: "info_wf E c"
  obtains (none) "mem_find_type E c t = Inr 0"
      "\<And>i a. a \<in> set (pMemInfo c i) \<Longrightarrow> map_option mi_type (info_heap c a) \<noteq> Some t"
  | (some) a i where "mem_find_type E c t = Inr a" "a \<noteq> 0" "a \<in> set (pMemInfo c (hash_type E t))"
      "info_heap c a = Some i" "mi_type i = t" "t \<noteq> 0"
proof -
  let ?as = "pMemInfo c (hash_type E t)"
  have "\<forall>a \<in> set ?as. a \<noteq> 0 \<and> info_heap c a \<noteq> None"
    using wf by (auto elim: info_wfD)
  from find_type_chain_wf [OF this, of t] obtain a where
    a: "mem_find_type E c t = Inr a" and
    a': "if a = 0 then \<forall>b \<in> set ?as. map_option mi_type (info_heap c b) \<noteq> Some t
        else a \<in> set ?as \<and> map_option mi_type (info_heap c a) = Some t"
    by (auto simp: mem_find_type_def)
  show thesis
  proof (cases "a = 0")
    case True
    have "map_option mi_type (info_heap c b) \<noteq> Some t" if "b \<in> set (pMemInfo c i)" for i b
    proof
      assume "map_option mi_type (info_heap c b) = Some t"
      with wf that have "b \<in> set ?as" by (auto elim: info_wfD)
      from True a' \<open>map_option mi_type (info_heap c b) = Some t\<close> \<open>b \<in> set ?as\<close> show False
        by metis
    qed
    with True a show thesis by (intro none) auto
  next
    case False
    with a' have "a \<in> set ?as" by simp
    with wf obtain i where "info_heap c a = Some i" "mi_type i \<noteq> 0" by (auto elim: info_wfD)
    with False a a' show thesis by (intro some [of a i]) auto
  qed
qed

section \<open>Every operation keeps the invariant\<close>

lemma mem_fresh_lookup: "mem_fresh c a \<Longrightarrow> lookup E c a = None"
  by (auto simp: mem_fresh_def lookup_None_iff)

lemma libc_malloc: "libc_ok E \<Longrightarrow> malloc E c n = Some a \<Longrightarrow> mem_fresh c a"
  and libc_malloc_end: "libc_ok E \<Longrightarrow> malloc E c n = Some a \<Longrightarrow> unat a + n < 2 ^ 64"
  unfolding libc_ok_def by blast+

lemma libc_realloc: "libc_ok E \<Longrightarrow> realloc E c p n = Some a \<Longrightarrow> a = p \<or> mem_fresh c a"
  unfolding libc_ok_def by blast

text \<open>The invariant reads only the two tables and the two heaps.\<close>

lemma lookup_cong: "pMemList c' = pMemList c \<Longrightarrow> lookup E c' = lookup E c"
  by (simp add: lookup_def fun_eq_iff)

lemma table_wf_cong: "pMemList c' = pMemList c \<Longrightarrow> table_wf E c' = table_wf E c"
  by (simp add: table_wf_def)

lemma info_wf_cong:
  "pMemInfo c' = pMemInfo c \<Longrightarrow> info_heap c' = info_heap c \<Longrightarrow> info_wf E c' = info_wf E c"
  by (simp add: info_wf_def)

lemma entry_type_cong: "info_heap c' = info_heap c \<Longrightarrow> entry_type c' = entry_type c"
  by (simp add: entry_type_def fun_eq_iff)

lemma entry_wf_keep:
  assumes "entry_wf E c e"
    and "\<And>a. info_heap c a \<noteq> None \<Longrightarrow> map_option mi_type (info_heap c' a) = map_option mi_type (info_heap c a)"
    and "\<And>i. set (pMemInfo c i) \<subseteq> set (pMemInfo c' i)"
    and "heap c' (p_ptr e) = heap c (p_ptr e)"
  shows "entry_wf E c' e"
proof -
  from assms(1) obtain t where t: "info_heap c (p_info e) = Some t"
      "p_info e \<in> set (pMemInfo c (hash_type E (mi_type t)))"
    by (auto simp: entry_wf_def)
  with assms(2) [of "p_info e"] obtain t' where "info_heap c' (p_info e) = Some t'" "mi_type t' = mi_type t"
    by auto
  with t assms(1,3,4) show ?thesis
    by (auto simp: entry_wf_def)
qed

text \<open>Adding a node for a pointer the table does not have.\<close>

lemma mem_wf_push:
  assumes "mem_wf E c" and "lookup E c (p_ptr e) = None" and "entry_wf E c e"
  shows "mem_wf E (push_entry E e c)"
proof -
  have [simp]: "info_wf E (push_entry E e c) = info_wf E c" "entry_wf E (push_entry E e c) = entry_wf E c"
    by (auto simp: push_entry_def Let_def info_wf_def entry_wf_def fun_eq_iff)
  show ?thesis
    using assms by (auto simp: mem_wf_def tbl.inv_ins tbl.lkp_ins)
qed

lemma mem_wf_unlink:
  assumes "mem_wf E c"
  shows "mem_wf E (unlink_entry E p c)"
proof -
  have [simp]: "info_wf E (unlink_entry E p c) = info_wf E c" "entry_wf E (unlink_entry E p c) = entry_wf E c"
    by (auto simp: unlink_entry_def Let_def info_wf_def entry_wf_def fun_eq_iff)
  show ?thesis
    using assms by (auto simp: mem_wf_def tbl.inv_del tbl.lkp_del)
qed

text \<open>Changing a block the table does not list.\<close>

lemma mem_wf_heap:
  assumes wf: "mem_wf E c" and none: "lookup E c p = None"
  shows "mem_wf E (c\<lparr>heap := (heap c)(p := b)\<rparr>)" (is "mem_wf E ?c")
proof -
  have lk: "lookup E ?c = lookup E c" by (rule lookup_cong) simp
  have "entry_wf E ?c e" if "lookup E c q = Some e" for q e
  proof (rule entry_wf_keep)
    show "entry_wf E c e" using wf that by (auto simp: mem_wf_def)
    show "heap ?c (p_ptr e) = heap c (p_ptr e)"
      using lookup_ptr [OF that] that none by auto
  qed simp_all
  with wf show ?thesis
    by (simp add: mem_wf_def lk info_wf_cong [of ?c c] table_wf_cong [of ?c c])
qed

lemma push_entry_simps [simp]:
  "heap (push_entry E e c) = heap c" "info_heap (push_entry E e c) = info_heap c"
  "pMemInfo (push_entry E e c) = pMemInfo c" "cb_log (push_entry E e c) = cb_log c"
  by (simp_all add: push_entry_def Let_def)

lemma unlink_entry_simps [simp]:
  "heap (unlink_entry E p c) = heap c" "info_heap (unlink_entry E p c) = info_heap c"
  "pMemInfo (unlink_entry E p c) = pMemInfo c" "cb_log (unlink_entry E p c) = cb_log c"
  by (simp_all add: unlink_entry_def Let_def)

lemma is_stored_0: "\<not> is_stored \<lparr>p_ptr = p, ml_size = s, ml_flags = 0, p_info = a\<rparr>"
  by (simp add: is_stored_def)

text \<open>
  What the table holds for each pointer: its type, its recorded size and whether it is a stored
  pointer. This is what the operations promise their clients.
\<close>

definition mem_abs :: "libc \<Rightarrow> mem_ctx \<Rightarrow> addr \<rightharpoonup> c_uint \<times> c_uint \<times> bool" where
  "mem_abs E c p = map_option (\<lambda>e. (entry_type c e, ml_size e, is_stored e)) (lookup E c p)"

text \<open>The types that exist.\<close>

definition type_exists :: "libc \<Rightarrow> mem_ctx \<Rightarrow> c_uint \<Rightarrow> bool" where
  "type_exists E c t \<longleftrightarrow>
     (\<exists>a \<in> set (pMemInfo c (hash_type E t)). map_option mi_type (info_heap c a) = Some t)"

lemma type_existsI:
  "a \<in> set (pMemInfo c (hash_type E t)) \<Longrightarrow> info_heap c a = Some i \<Longrightarrow> mi_type i = t \<Longrightarrow> type_exists E c t"
  by (force simp: type_exists_def)

lemma mem_find_type_exists:
  assumes "info_wf E c"
  obtains (none) "mem_find_type E c t = Inr 0" "\<not> type_exists E c t"
  | (some) a i where "mem_find_type E c t = Inr a" "a \<noteq> 0" "a \<in> set (pMemInfo c (hash_type E t))"
      "info_heap c a = Some i" "mi_type i = t" "t \<noteq> 0" "type_exists E c t"
  using mem_find_type_cases [OF assms, of t]
  by (metis type_existsI type_exists_def)

subsection \<open>mem_alloc and mem_calloc\<close>

text \<open>The part of \<open>mem_alloc\<close> and \<open>mem_calloc\<close> after the block is there.\<close>

lemma new_block:
  assumes wf: "mem_wf E c" and fresh: "mem_fresh c p"
    and a: "a \<in> set (pMemInfo c (hash_type E t))" "info_heap c a = Some i" "mi_type i = t"
    and sz: "unat sz \<le> length bs"
  defines "e \<equiv> \<lparr>p_ptr = p, ml_size = sz, ml_flags = 0, p_info = a\<rparr>"
  defines "c' \<equiv> push_entry E e (c\<lparr>heap := (heap c)(p \<mapsto> bs)\<rparr>)"
  shows "mem_wf E c'" and "mem_abs E c' = (mem_abs E c)(p \<mapsto> (t, sz, False))"
proof -
  let ?c1 = "c\<lparr>heap := (heap c)(p \<mapsto> bs)\<rparr>"
  have none: "lookup E c p = None" using fresh by (rule mem_fresh_lookup)
  then have wf1: "mem_wf E ?c1" using wf by (intro mem_wf_heap)
  have "entry_wf E ?c1 e"
    using fresh a sz by (auto simp: entry_wf_def e_def mem_fresh_def)
  then show "mem_wf E c'"
    unfolding c'_def using wf1 none
    by (intro mem_wf_push) (auto simp: e_def lookup_cong [of ?c1 c])
  show "mem_abs E c' = (mem_abs E c)(p \<mapsto> (t, sz, False))"
    using a by (auto simp: mem_abs_def c'_def e_def tbl.lkp_ins lookup_cong [of ?c1 c] entry_type_def is_stored_0 fun_eq_iff)
qed

lemma mem_alloc_cases:
  assumes wf: "mem_wf E c" and E: "libc_ok E"
  obtains (failed) "mem_alloc E c t sz = Inr (0, c)"
  | (ok) p c' where "mem_alloc E c t sz = Inr (p, c')" "type_exists E c t" "mem_fresh c p" "mem_wf E c'"
      "mem_abs E c' = (mem_abs E c)(p \<mapsto> (t, sz, False))"
      "heap c' = (heap c)(p \<mapsto> replicate (unat sz) 0)"
      "info_heap c' = info_heap c" "pMemInfo c' = pMemInfo c" "cb_log c' = cb_log c"
      "unat p + unat sz < 2 ^ 64"
proof -
  from wf have "info_wf E c" by (simp add: mem_wf_def)
  then show thesis
  proof (cases rule: mem_find_type_exists [where t = t])
    case none
    then show thesis by (intro failed) (simp add: mem_alloc_def)
  next
    case (some a i)
    show thesis
    proof (cases "malloc E c 32 = None \<or> malloc E c (unat sz) = None")
      case True
      with some show thesis by (intro failed) (auto simp: mem_alloc_def split: option.splits)
    next
      case False
      then obtain p q where m: "malloc E c 32 = Some q" "malloc E c (unat sz) = Some p" by auto
      then have "mem_fresh c p" using E by (blast intro: libc_malloc)
      note new = new_block [OF wf this some(3,4,5), of sz "replicate (unat sz) 0"]
      have run: "mem_alloc E c t sz = Inr (p, push_entry E
          \<lparr>p_ptr = p, ml_size = sz, ml_flags = 0, p_info = a\<rparr>
          (c\<lparr>heap := (heap c)(p \<mapsto> replicate (unat sz) 0)\<rparr>))"
        using some(1,2) m by (simp add: mem_alloc_def)
      from new some(7) \<open>mem_fresh c p\<close> libc_malloc_end [OF E m(2)] show thesis
        by (intro ok [OF run]) simp_all
    qed
  qed
qed

lemma mem_calloc_cases:
  assumes wf: "mem_wf E c" and E: "libc_ok E"
    and members: "members \<noteq> 0"
  obtains (failed) "mem_calloc E c t members sz = Inr (0, c)"
  | (ok) p c' where "mem_calloc E c t members sz = Inr (p, c')" "type_exists E c t" "mem_fresh c p" "mem_wf E c'"
      "mem_abs E c' = (mem_abs E c)(p \<mapsto> (t, sz, False))"
      "heap c' = (heap c)(p \<mapsto> replicate (unat members * unat sz) 0)"
      "info_heap c' = info_heap c" "pMemInfo c' = pMemInfo c" "cb_log c' = cb_log c"
proof -
  let ?n = "unat members * unat sz"
  have le: "unat (sz * members) \<le> ?n"
    by (simp add: unat_word_ariths mult.commute)
  then have zero: "memset0 (unat (sz * members)) (replicate ?n 0) = Inr (replicate ?n 0)"
    by (simp add: memset0_def flip: replicate_add)
  have sz: "unat sz \<le> ?n"
    using members by (cases "unat members") (simp_all add: unat_eq_0)
  from wf have "info_wf E c" by (simp add: mem_wf_def)
  then show thesis
  proof (cases rule: mem_find_type_exists [where t = t])
    case none
    then show thesis by (intro failed) (simp add: mem_calloc_def)
  next
    case (some a i)
    show thesis
    proof (cases "malloc E c 32 = None \<or> malloc E c ?n = None")
      case True
      with some show thesis by (intro failed) (auto simp: mem_calloc_def split: option.splits)
    next
      case False
      then obtain p q where m: "malloc E c 32 = Some q" "malloc E c ?n = Some p" by auto
      then have "mem_fresh c p" using E by (blast intro: libc_malloc)
      note new = new_block [OF wf this some(3,4,5), of sz "replicate ?n 0"]
      have run: "mem_calloc E c t members sz = Inr (p, push_entry E
          \<lparr>p_ptr = p, ml_size = sz, ml_flags = 0, p_info = a\<rparr>
          (c\<lparr>heap := (heap c)(p \<mapsto> replicate ?n 0)\<rparr>))"
        using some(1,2) m by (simp add: mem_calloc_def zero)
      from new some(7) \<open>mem_fresh c p\<close> sz show thesis
        by (intro ok [OF run]) simp_all
    qed
  qed
qed

subsection \<open>mem_store\<close>

lemma mem_store_cases:
  assumes wf: "mem_wf E c" and E: "libc_ok E"
  obtains (failed) r where "mem_store E c p t sz = Inr (r, c)" "r < 0"
  | (ok) c' where "mem_store E c p t sz = Inr (0, c')" "type_exists E c t" "p \<noteq> 0" "lookup E c p = None"
      "mem_wf E c'" "mem_abs E c' = (mem_abs E c)(p \<mapsto> (t, sz, True))"
      "heap c' = heap c" "info_heap c' = info_heap c" "pMemInfo c' = pMemInfo c" "cb_log c' = cb_log c"
proof -
  from wf have iwf: "info_wf E c" and find: "mem_find_ptr E c p = lookup E c p"
    by (simp_all add: mem_wf_def mem_find_ptr_eq)
  from iwf show thesis
  proof (cases rule: mem_find_type_exists [where t = t])
    case none
    then show thesis by (intro failed [of "if p = 0 then -5 else -1"]) (auto simp: mem_store_def)
  next
    case (some a i)
    show thesis
    proof (cases "p = 0 \<or> lookup E c p \<noteq> None \<or> malloc E c 32 = None")
      case True
      with some show thesis
        by (intro failed [of "if p = 0 then -5 else if lookup E c p \<noteq> None then -1 else -2"])
          (auto simp: mem_store_def find)
    next
      case False
      let ?e = "\<lparr>p_ptr = p, ml_size = sz, ml_flags = MEM_FLG_STORED, p_info = a\<rparr>"
      have "is_stored ?e" by (simp add: is_stored_def)
      with some False have "entry_wf E c ?e" by (auto simp: entry_wf_def)
      with wf False have "mem_wf E (push_entry E ?e c)" by (intro mem_wf_push) auto
      moreover have "mem_abs E (push_entry E ?e c) = (mem_abs E c)(p \<mapsto> (t, sz, True))"
        using some \<open>is_stored ?e\<close>
        by (auto simp: mem_abs_def tbl.lkp_ins entry_type_def fun_eq_iff)
      moreover have run: "mem_store E c p t sz = Inr (0, push_entry E ?e c)"
        using some(1,2) False by (auto simp: mem_store_def find)
      ultimately show thesis
        using some(7) False by (intro ok [OF run]) auto
    qed
  qed
qed

subsection \<open>mem_free\<close>

text \<open>
  Whether \<open>mem_free\<close> of a pointer gives its block back: it was allocated, not stored, and its
  type has no handler of its own.
\<close>

definition owned :: "libc \<Rightarrow> mem_ctx \<Rightarrow> addr \<Rightarrow> bool" where
  "owned E c p \<longleftrightarrow> (\<exists>e t. lookup E c p = Some e \<and> \<not> is_stored e \<and>
     info_heap c (p_info e) = Some t \<and> mi_cb_free t = None)"

text \<open>The effect of freeing a set of pointers: exactly they leave the table, exactly their own blocks leave the heap.\<close>

definition freed :: "libc \<Rightarrow> addr set \<Rightarrow> mem_ctx \<Rightarrow> mem_ctx \<Rightarrow> bool" where
  "freed E S c c' \<longleftrightarrow> mem_wf E c' \<and>
     lookup E c' = (\<lambda>p. if p \<in> S then None else lookup E c p) \<and>
     heap c' = (\<lambda>a. if a \<in> S \<and> owned E c a then None else heap c a) \<and>
     info_heap c' = info_heap c \<and> pMemInfo c' = pMemInfo c"

lemma freed_refl: "mem_wf E c \<Longrightarrow> freed E {} c c"
  by (simp add: freed_def)

lemma freed_owned: "freed E S c c' \<Longrightarrow> owned E c' a \<longleftrightarrow> a \<notin> S \<and> owned E c a"
  by (auto simp: freed_def owned_def)

lemma freed_trans:
  assumes 1: "freed E S c c'" and 2: "freed E T c' c''"
  shows "freed E (S \<union> T) c c''"
proof -
  have "heap c'' = (\<lambda>a. if a \<in> S \<union> T \<and> owned E c a then None else heap c a)"
    using 2 unfolding freed_def freed_owned [OF 1] by (auto simp: fun_eq_iff 1 [unfolded freed_def])
  with 1 2 show ?thesis by (auto simp: freed_def fun_eq_iff)
qed

lemma freed_mem_abs: "freed E S c c' \<Longrightarrow> mem_abs E c' = (mem_abs E c) |` (- S)"
  by (auto simp: freed_def mem_abs_def entry_type_cong [of c' c] restrict_map_def fun_eq_iff)

lemma freed_lookup: "freed E S c c' \<Longrightarrow> lookup E c' p = (if p \<in> S then None else lookup E c p)"
  by (simp add: freed_def)

lemma freed_heap: "freed E S c c' \<Longrightarrow> heap c' a = (if a \<in> S \<and> owned E c a then None else heap c a)"
  by (simp add: freed_def)

lemma freed_wf: "freed E S c c' \<Longrightarrow> mem_wf E c'"
  by (simp add: freed_def)

lemma freed_type_exists: "freed E S c c' \<Longrightarrow> type_exists E c' = type_exists E c"
  by (auto simp: freed_def type_exists_def fun_eq_iff)

lemma mem_free_freed:
  assumes wf: "mem_wf E c"
  obtains c' where "mem_free E c p = Inr c'" "freed E {p} c c'"
proof (cases "lookup E c p")
  case None
  with wf have "mem_free E c p = Inr c" by (simp add: mem_free_def mem_find_ptr_eq mem_wf_def)
  moreover from None wf have "freed E {p} c c"
    by (auto simp: freed_def owned_def fun_eq_iff)
  ultimately show thesis by (rule that)
next
  case (Some e)
  from wf Some have find: "mem_find_ptr E c p = Some e" and ewf: "entry_wf E c e"
    by (simp_all add: mem_wf_def mem_find_ptr_eq)
  have p: "p_ptr e = p" using Some by (rule lookup_ptr)
  from ewf obtain t where t: "info_heap c (p_info e) = Some t" by (auto simp: entry_wf_def)
  let ?c1 = "unlink_entry E p c"
  have wf1: "mem_wf E ?c1" using wf by (rule mem_wf_unlink)
  have lk1: "lookup E ?c1 = (lookup E c)(p := None)" using wf by (simp add: mem_wf_def tbl.lkp_del)
  show thesis
  proof (cases "\<not> is_stored e \<and> mi_cb_free t = None")
    case True
    then obtain bs where bs: "heap c p = Some bs" "unat (ml_size e) \<le> length bs"
      using ewf p by (auto simp: entry_wf_def)
    let ?c2 = "?c1\<lparr>heap := (heap ?c1)(p := None)\<rparr>"
    have "mem_free E c p = Inr ?c2"
      using find t True bs by (simp add: mem_free_def deref_info_def memset0_def)
    moreover have "mem_wf E ?c2" using wf1 lk1 by (intro mem_wf_heap) simp_all
    moreover have "owned E c p" using Some t True by (auto simp: owned_def)
    moreover have "lookup E ?c2 = lookup E ?c1" by (rule lookup_cong) simp
    ultimately show thesis
      using lk1 by (intro that) (auto simp: freed_def fun_eq_iff)
  next
    case False
    let ?c2 = "case mi_cb_free t of None \<Rightarrow> ?c1
      | Some h \<Rightarrow> ?c1\<lparr>cb_log := (h, mi_type t, p, ml_size e) # cb_log ?c1\<rparr>"
    have "mem_free E c p = Inr ?c2"
      using find t False by (auto simp: mem_free_def deref_info_def split: option.splits)
    moreover have "lookup E ?c2 = lookup E ?c1"
      by (rule lookup_cong) (simp split: option.splits)
    moreover have same: "heap ?c2 = heap c" "info_heap ?c2 = info_heap c"
        "pMemInfo ?c2 = pMemInfo c" "pMemList ?c2 = pMemList ?c1"
      by (simp_all split: option.splits)
    moreover have "mem_wf E ?c2"
    proof -
      have "entry_wf E ?c2 = entry_wf E ?c1"
        by (simp add: entry_wf_def fun_eq_iff same)
      with wf1 show ?thesis
        by (simp add: mem_wf_def \<open>lookup E ?c2 = lookup E ?c1\<close> info_wf_cong [of ?c2 ?c1]
            table_wf_cong [of ?c2 ?c1] same)
    qed
    moreover have "\<not> owned E c p" using Some t False by (auto simp: owned_def)
    ultimately have "freed E {p} c ?c2"
      unfolding freed_def by (auto simp: lk1 fun_eq_iff simp del: option.case)
    with \<open>mem_free E c p = Inr ?c2\<close> show thesis by (rule that)
  qed
qed

subsection \<open>mem_free_all\<close>

text \<open>The pointers \<open>mem_free_all(t)\<close> is to free.\<close>

definition of_type :: "libc \<Rightarrow> mem_ctx \<Rightarrow> c_uint \<Rightarrow> addr set" where
  "of_type E c t = {p. \<exists>e. lookup E c p = Some e \<and> (t = 0 \<or> entry_type c e = t)}"

lemma freed_of_type: "freed E S c c' \<Longrightarrow> of_type E c' t = of_type E c t - S"
  by (auto simp: freed_def of_type_def entry_type_cong [of c' c])

lemma entry_wf_info:
  "entry_wf E c e \<Longrightarrow> \<exists>t. info_heap c (p_info e) = Some t \<and> entry_type c e = mi_type t"
  by (auto simp: entry_wf_def entry_type_def)

lemma free_chain_freed:
  assumes "mem_wf E c" and "\<forall>e \<in> set es. lookup E c (p_ptr e) = Some e" and "distinct (map p_ptr es)"
  shows "\<exists>c'. free_chain E c t es = Inr c' \<and> freed E (of_type E c t \<inter> p_ptr ` set es) c c'"
  using assms
proof (induction es arbitrary: c)
  case Nil
  then show ?case by (simp add: freed_refl)
next
  case (Cons e es)
  from Cons.prems have e: "lookup E c (p_ptr e) = Some e" by simp
  with Cons.prems have "entry_wf E c e" by (simp add: mem_wf_def)
  then obtain i where i: "info_heap c (p_info e) = Some i" "entry_type c e = mi_type i"
    using entry_wf_info by blast
  show ?case
  proof (cases "t = 0 \<or> mi_type i = t")
    case True
    obtain c1 where c1: "mem_free E c (p_ptr e) = Inr c1" "freed E {p_ptr e} c c1"
      using mem_free_freed [OF Cons.prems(1)] .
    have "lookup E c1 (p_ptr x) = Some x" if "x \<in> set es" for x
    proof -
      from imageI [OF that, of p_ptr] Cons.prems(3) have "p_ptr x \<noteq> p_ptr e" by auto
      with that Cons.prems(2) show ?thesis by (simp add: freed_lookup [OF c1(2)])
    qed
    with Cons.IH [of c1] freed_wf [OF c1(2)] Cons.prems(3) obtain c' where
      c': "free_chain E c1 t es = Inr c'" "freed E (of_type E c1 t \<inter> p_ptr ` set es) c1 c'"
      by auto
    have "p_ptr e \<in> of_type E c t" using e i True by (simp add: of_type_def)
    then have "of_type E c t \<inter> p_ptr ` set (e # es) = {p_ptr e} \<union> (of_type E c1 t \<inter> p_ptr ` set es)"
      using Cons.prems(3) unfolding freed_of_type [OF c1(2)]
      by (simp add: Int_insert_right_if1) blast
    with freed_trans [OF c1(2) c'(2)] c1(1) c'(1) i True show ?thesis
      by (simp add: deref_info_def)
  next
    case False
    with e i have "p_ptr e \<notin> of_type E c t" by (auto simp: of_type_def)
    then have "of_type E c t \<inter> p_ptr ` set (e # es) = of_type E c t \<inter> p_ptr ` set es" by auto
    with Cons.IH [of c] Cons.prems i False show ?thesis
      by (simp add: deref_info_def)
  qed
qed

lemma free_buckets_freed:
  assumes "mem_wf E c"
  shows "\<exists>c'. free_buckets E c t is = Inr c' \<and>
     freed E (of_type E c t \<inter> {p. hash_ptr E p \<in> set is}) c c'"
  using assms
proof (induction "is" arbitrary: c)
  case Nil
  then show ?case by (simp add: freed_refl)
next
  case (Cons i "is")
  let ?es = "pMemList c i"
  from Cons.prems have twf: "table_wf E c" by (simp add: mem_wf_def)
  then have "\<forall>e \<in> set ?es. lookup E c (p_ptr e) = Some e" by (simp add: in_chain_iff)
  moreover from twf have "distinct (map p_ptr ?es)" by (simp add: table_wf_def)
  ultimately obtain c1 where
    c1: "free_chain E c t ?es = Inr c1" "freed E (of_type E c t \<inter> p_ptr ` set ?es) c c1"
    using free_chain_freed [OF Cons.prems] by blast
  with Cons.IH [of c1] obtain c' where
    c': "free_buckets E c1 t is = Inr c'" "freed E (of_type E c1 t \<inter> {p. hash_ptr E p \<in> set is}) c1 c'"
    by (auto simp: freed_wf)
  have "p \<in> p_ptr ` set ?es \<longleftrightarrow> hash_ptr E p = i" if "p \<in> of_type E c t" for p
  proof -
    from that obtain e where e: "lookup E c p = Some e" by (auto simp: of_type_def)
    then have "p_ptr e = p" by (rule lookup_ptr)
    show ?thesis
    proof
      assume "p \<in> p_ptr ` set ?es"
      then show "hash_ptr E p = i" using twf by (auto simp: in_chain_iff)
    next
      assume "hash_ptr E p = i"
      with e \<open>p_ptr e = p\<close> twf have "e \<in> set ?es" by (simp add: in_chain_iff)
      with \<open>p_ptr e = p\<close> show "p \<in> p_ptr ` set ?es" by blast
    qed
  qed
  then have "of_type E c t \<inter> {p. hash_ptr E p \<in> set (i # is)} =
      (of_type E c t \<inter> p_ptr ` set ?es) \<union> (of_type E c1 t \<inter> {p. hash_ptr E p \<in> set is})"
    unfolding freed_of_type [OF c1(2)] by auto
  with freed_trans [OF c1(2) c'(2)] c1(1) c'(1) show ?case by simp
qed

lemma free_buckets_all:
  assumes "mem_wf E c"
  obtains c' where "free_buckets E c t [0..<MEM_HASH_SIZE] = Inr c'" "freed E (of_type E c t) c c'"
  using free_buckets_freed [OF assms, of t "[0..<MEM_HASH_SIZE]"] by auto

lemma mem_free_all_freed:
  assumes "mem_wf E c" and "t \<noteq> 0"
  obtains c' where "mem_free_all E c t = Inr c'" "freed E (of_type E c t) c c'"
proof -
  from free_buckets_all [OF assms(1), of t] obtain c' where
    "free_buckets E c t [0..<MEM_HASH_SIZE] = Inr c'" "freed E (of_type E c t) c c'" .
  with assms(2) show thesis by (intro that) (simp_all add: mem_free_all_def)
qed

subsection \<open>mem_add_type and mem_cb_free\<close>

lemma info_wfI:
  assumes "\<And>i a. a \<in> set (pMemInfo c i) \<Longrightarrow> a \<noteq> 0 \<and>
      (\<exists>t. info_heap c a = Some t \<and> mi_type t \<noteq> 0 \<and> hash_type E (mi_type t) = i)"
    and "\<And>i a b. a \<in> set (pMemInfo c i) \<Longrightarrow> b \<in> set (pMemInfo c i) \<Longrightarrow>
      map_option mi_type (info_heap c a) = map_option mi_type (info_heap c b) \<Longrightarrow> a = b"
    and "\<And>i. distinct (pMemInfo c i)"
  shows "info_wf E c"
  using assms unfolding info_wf_def by blast

lemma info_wf_node:
  "info_wf E c \<Longrightarrow> a \<in> set (pMemInfo c i) \<Longrightarrow> a \<noteq> 0 \<and>
     (\<exists>t. info_heap c a = Some t \<and> mi_type t \<noteq> 0 \<and> hash_type E (mi_type t) = i)"
  unfolding info_wf_def by blast

lemma info_wf_unique:
  "info_wf E c \<Longrightarrow> a \<in> set (pMemInfo c i) \<Longrightarrow> b \<in> set (pMemInfo c i) \<Longrightarrow>
   map_option mi_type (info_heap c a) = map_option mi_type (info_heap c b) \<Longrightarrow> a = b"
  unfolding info_wf_def by blast

lemma info_wf_distinct: "info_wf E c \<Longrightarrow> distinct (pMemInfo c i)"
  unfolding info_wf_def by blast

lemma info_wf_fresh: "info_wf E c \<Longrightarrow> info_heap c a = None \<Longrightarrow> a \<notin> set (pMemInfo c j)"
  using info_wf_node [of E c a j] by auto

text \<open>Adding a node of a new type.\<close>

lemma info_wf_add:
  assumes wf: "info_wf E c" and a: "info_heap c a = None" "a \<noteq> 0" and t: "mi_type i \<noteq> 0"
    and new: "\<not> type_exists E c (mi_type i)"
  defines "h \<equiv> hash_type E (mi_type i)"
  shows "info_wf E (c\<lparr>info_heap := (info_heap c)(a \<mapsto> i), pMemInfo := (pMemInfo c)(h := a # pMemInfo c h)\<rparr>)"
    (is "info_wf E ?c")
proof (rule info_wfI)
  have out: "a \<notin> set (pMemInfo c j)" for j
    using wf a(1) by (rule info_wf_fresh)
  have mem: "b \<in> set (pMemInfo ?c j) \<longleftrightarrow> b \<in> set (pMemInfo c j) \<or> b = a \<and> j = h" for b j
    by auto
  have none: "map_option mi_type (info_heap c b) \<noteq> Some (mi_type i)" if "b \<in> set (pMemInfo c h)" for b
    using new that by (auto simp: type_exists_def h_def)
  show "b \<noteq> 0 \<and> (\<exists>t. info_heap ?c b = Some t \<and> mi_type t \<noteq> 0 \<and> hash_type E (mi_type t) = j)"
    if "b \<in> set (pMemInfo ?c j)" for b j
  proof (cases "b = a")
    case True
    with that a t out [of j] show ?thesis by (auto simp: h_def split: if_splits)
  next
    case False
    with that mem have "b \<in> set (pMemInfo c j)" by blast
    from info_wf_node [OF wf this] False show ?thesis by simp
  qed
  show "b = b'" if b: "b \<in> set (pMemInfo ?c j)" "b' \<in> set (pMemInfo ?c j)"
    and eq: "map_option mi_type (info_heap ?c b) = map_option mi_type (info_heap ?c b')" for b b' j
  proof -
    from b have "b \<in> set (pMemInfo c j) \<or> b = a \<and> j = h" "b' \<in> set (pMemInfo c j) \<or> b' = a \<and> j = h"
      unfolding mem by blast+
    then consider "b = a" "b' = a" | "b = a" "b' \<noteq> a" "b' \<in> set (pMemInfo c h)"
      | "b' = a" "b \<noteq> a" "b \<in> set (pMemInfo c h)"
      | "b \<noteq> a" "b' \<noteq> a" "b \<in> set (pMemInfo c j)" "b' \<in> set (pMemInfo c j)"
      using out by blast
    then show ?thesis
    proof cases
      case 2
      with eq none [of b'] show ?thesis by simp
    next
      case 3
      with eq none [of b] show ?thesis by simp
    next
      case 4
      with eq info_wf_unique [OF wf, of b j b'] show ?thesis by simp
    qed simp
  qed
  show "distinct (pMemInfo ?c j)" for j
    using info_wf_distinct [OF wf] out by simp
qed

lemma mem_add_type_cases:
  assumes wf: "mem_wf E c" and E: "libc_ok E"
  obtains (reserved) "t = 0" "mem_add_type E c t name = Inr (MEM_RES_BADTYPE, c)"
  | (exists) "t \<noteq> 0" "type_exists E c t" "mem_add_type E c t name = Inr (MEM_RES_EXISTS, c)"
  | (failed) "t \<noteq> 0" "\<not> type_exists E c t" "mem_add_type E c t name = Inr (MEM_RES_SYSCALL, c)"
      "malloc E c 56 = None"
  | (ok) c' where "t \<noteq> 0" "\<not> type_exists E c t" "mem_add_type E c t name = Inr (MEM_RES_OK, c')"
      "mem_wf E c'" "lookup E c' = lookup E c" "mem_abs E c' = mem_abs E c" "heap c' = heap c"
      "type_exists E c' = (type_exists E c)(t := True)"
proof -
  from wf have iwf: "info_wf E c" by (simp add: mem_wf_def)
  then show thesis
  proof (cases rule: mem_find_type_exists [where t = t])
    case (some a i)
    then show thesis by (intro exists) (simp_all add: mem_add_type_def)
  next
    case none
    show thesis
    proof (cases "t = 0")
      case True
      with none show thesis by (intro reserved) (simp_all add: mem_add_type_def)
    next
      case False
      show thesis
      proof (cases "malloc E c 56")
        case None
        with none False show thesis by (intro failed) (simp_all add: mem_add_type_def)
      next
        case (Some a)
        with E have fresh: "mem_fresh c a" by (rule libc_malloc)
        let ?h = "hash_type E t"
        let ?i = "\<lparr>mi_type = t, mi_name = take 31 name, mi_cb_free = None\<rparr>"
        let ?c = "c\<lparr>info_heap := (info_heap c)(a \<mapsto> ?i), pMemInfo := (pMemInfo c)(?h := a # pMemInfo c ?h)\<rparr>"
        have a: "info_heap c a = None" "a \<noteq> 0" using fresh by (simp_all add: mem_fresh_def)
        have out: "a \<notin> set (pMemInfo c j)" for j
          using iwf a(1) by (rule info_wf_fresh)
        have "info_wf E ?c"
          using info_wf_add [OF iwf a, of ?i] none False by simp
        moreover have lk: "lookup E ?c = lookup E c" by (rule lookup_cong) simp
        moreover have "entry_wf E ?c e" if e: "lookup E c p = Some e" for p e
        proof (rule entry_wf_keep)
          show "entry_wf E c e" using wf e by (simp add: mem_wf_def)
        qed (use a(1) in auto)
        ultimately have "mem_wf E ?c"
          using wf by (simp add: mem_wf_def table_wf_cong [of ?c c])
        moreover have "entry_type ?c e = entry_type c e" if e: "lookup E c p = Some e" for p e
        proof -
          from wf e have "entry_wf E c e" by (simp add: mem_wf_def)
          then have "p_info e \<noteq> a" using a(1) by (auto simp: entry_wf_def)
          then show ?thesis by (simp add: entry_type_def)
        qed
        then have "mem_abs E ?c = mem_abs E c"
          unfolding mem_abs_def lk by (auto intro!: ext option.map_cong)
        moreover have "type_exists E ?c = (type_exists E c)(t := True)"
        proof (rule ext)
          fix u
          have "map_option mi_type (info_heap ?c b) = map_option mi_type (info_heap c b)"
            if "b \<in> set (pMemInfo c j)" for b j
            using that out by (cases "b = a") auto
          then have "(\<exists>b \<in> set (pMemInfo c j). map_option mi_type (info_heap ?c b) = Some u) \<longleftrightarrow>
              (\<exists>b \<in> set (pMemInfo c j). map_option mi_type (info_heap c b) = Some u)" for j
            by (metis (no_types, lifting))
          moreover have "set (pMemInfo ?c j) = set (pMemInfo c j) \<union> (if j = ?h then {a} else {})" for j
            by simp
          moreover have "map_option mi_type (info_heap ?c a) = Some t" by simp
          ultimately have "type_exists E ?c u \<longleftrightarrow> type_exists E c u \<or> u = t"
            unfolding type_exists_def by (auto simp del: fun_upd_apply map_option_eq_Some split: if_splits)
          then show "type_exists E ?c u = ((type_exists E c)(t := True)) u" by simp
        qed
        moreover have run: "mem_add_type E c t name = Inr (MEM_RES_OK, ?c)"
          using none(1) False Some by (simp add: mem_add_type_def Let_def)
        ultimately show thesis
          using lk none False by (intro ok [OF False none(2) run]) auto
      qed
    qed
  qed
qed

lemma mem_cb_free_wf:
  assumes wf: "mem_wf E c"
  obtains c' where "mem_cb_free E c t h = Inr c'" "mem_wf E c'" "mem_abs E c' = mem_abs E c"
    "type_exists E c' = type_exists E c"
proof -
  from wf have iwf: "info_wf E c" by (simp add: mem_wf_def)
  then show thesis
  proof (cases rule: mem_find_type_exists [where t = t])
    case none
    with wf show thesis by (intro that [of c]) (simp_all add: mem_cb_free_def)
  next
    case (some a i)
    let ?c = "c\<lparr>info_heap := (info_heap c)(a \<mapsto> i\<lparr>mi_cb_free := h\<rparr>)\<rparr>"
    have ty: "map_option mi_type (info_heap ?c b) = map_option mi_type (info_heap c b)" for b
      using some(4) by simp
    have "info_wf E ?c"
    proof (rule info_wfI)
      show "b \<noteq> 0 \<and> (\<exists>t. info_heap ?c b = Some t \<and> mi_type t \<noteq> 0 \<and> hash_type E (mi_type t) = j)"
        if "b \<in> set (pMemInfo ?c j)" for b j
      proof -
        from that have "b \<in> set (pMemInfo c j)" by simp
        from info_wf_node [OF iwf this] obtain t' where
          "b \<noteq> 0" "info_heap c b = Some t'" "mi_type t' \<noteq> 0" "hash_type E (mi_type t') = j" by blast
        with some(4) show ?thesis by (cases "b = a") simp_all
      qed
      show "b = b'" if "b \<in> set (pMemInfo ?c j)" "b' \<in> set (pMemInfo ?c j)"
        and "map_option mi_type (info_heap ?c b) = map_option mi_type (info_heap ?c b')" for b b' j
        using that info_wf_unique [OF iwf, of b j b'] unfolding ty by simp
    qed (simp add: info_wf_distinct [OF iwf])
    moreover have lk: "lookup E ?c = lookup E c" by (rule lookup_cong) simp
    moreover have "entry_wf E ?c e" if e: "lookup E c p = Some e" for p e
    proof (rule entry_wf_keep)
      show "entry_wf E c e" using wf e by (simp add: mem_wf_def)
    qed (simp_all add: some(4))
    ultimately have "mem_wf E ?c"
      using wf by (simp add: mem_wf_def table_wf_cong [of ?c c])
    moreover have et: "entry_type ?c = entry_type c"
      using some(4) by (auto simp: entry_type_def fun_eq_iff split: option.splits)
    have "mem_abs E ?c = mem_abs E c"
      by (rule ext) (simp only: mem_abs_def lk et)
    moreover have "type_exists E ?c = type_exists E c"
      by (simp only: type_exists_def fun_eq_iff ty) simp
    moreover have "mem_cb_free E c t h = Inr ?c"
      using some by (simp add: mem_cb_free_def deref_info_def)
    ultimately show thesis by (intro that)
  qed
qed

subsection \<open>mem_del_type\<close>

lemma chain_uses_wf:
  "(\<forall>e \<in> set es. info_heap c (p_info e) \<noteq> None) \<Longrightarrow>
   chain_uses c es t = Inr (\<exists>e \<in> set es. map_option mi_type (info_heap c (p_info e)) = Some t)"
proof (induction es)
  case (Cons e es)
  then obtain i where "info_heap c (p_info e) = Some i" by auto
  with Cons show ?case by (cases "mi_type i = t") (simp_all add: deref_info_def)
qed simp

lemma table_uses_wf:
  "(\<forall>i \<in> set is. \<forall>e \<in> set (pMemList c i). info_heap c (p_info e) \<noteq> None) \<Longrightarrow>
   table_uses c is t =
     Inr (\<exists>i \<in> set is. \<exists>e \<in> set (pMemList c i). map_option mi_type (info_heap c (p_info e)) = Some t)"
proof (induction "is")
  case (Cons i "is")
  then have "chain_uses c (pMemList c i) t =
      Inr (\<exists>e \<in> set (pMemList c i). map_option mi_type (info_heap c (p_info e)) = Some t)"
    by (simp add: chain_uses_wf)
  with Cons show ?case by (simp del: map_option_eq_Some)
qed simp

lemma table_uses_all:
  assumes "mem_wf E c"
  shows "table_uses c [0..<MEM_HASH_SIZE] t = Inr (\<exists>p e. lookup E c p = Some e \<and>
    map_option mi_type (info_heap c (p_info e)) = Some t)"
proof -
  from assms have twf: "table_wf E c" and
    ewf: "\<And>p e. lookup E c p = Some e \<Longrightarrow> info_heap c (p_info e) \<noteq> None"
    by (auto simp: mem_wf_def entry_wf_def)
  then have "\<forall>i \<in> set [0..<MEM_HASH_SIZE]. \<forall>e \<in> set (pMemList c i). info_heap c (p_info e) \<noteq> None"
    by (auto simp: in_chain_iff)
  note table_uses_wf [OF this, of t]
  moreover have "(\<exists>i \<in> set [0..<MEM_HASH_SIZE]. \<exists>e \<in> set (pMemList c i). P e) \<longleftrightarrow>
      (\<exists>p e. lookup E c p = Some e \<and> P e)" for P
  proof
    assume "\<exists>i \<in> set [0..<MEM_HASH_SIZE]. \<exists>e \<in> set (pMemList c i). P e"
    then obtain i e where "e \<in> set (pMemList c i)" "P e" by blast
    with twf have "lookup E c (p_ptr e) = Some e \<and> P e" by (simp add: in_chain_iff)
    then show "\<exists>p e. lookup E c p = Some e \<and> P e" by blast
  next
    assume "\<exists>p e. lookup E c p = Some e \<and> P e"
    then obtain p e where e: "lookup E c p = Some e" "P e" by blast
    then have "p_ptr e = p" by (blast intro: lookup_ptr)
    with e twf have "e \<in> set (pMemList c (hash_ptr E p))" by (simp add: in_chain_iff)
    with e show "\<exists>i \<in> set [0..<MEM_HASH_SIZE]. \<exists>e \<in> set (pMemList c i). P e" by auto
  qed
  ultimately show ?thesis by simp
qed

lemma unlink_type_wf:
  "(\<forall>b \<in> set as. \<exists>i. info_heap c b = Some i \<and> (mi_type i = t \<longleftrightarrow> b = a)) \<Longrightarrow> a \<in> set as \<Longrightarrow>
   unlink_type c as t = Inr (Some a, remove1 a as)"
  by (induction as) (auto simp: deref_info_def)

lemma mem_del_type_cases:
  assumes wf: "mem_wf E c"
  obtains (absent) "\<not> type_exists E c t" "mem_del_type E c t = Inr (MEM_RES_EXISTS, c)"
  | (in_use) p sz st where "mem_abs E c p = Some (t, sz, st)" "mem_del_type E c t = Inr (MEM_RES_INUSE, c)"
  | (ok) c' a where "type_exists E c t" "\<And>p sz st. mem_abs E c p \<noteq> Some (t, sz, st)"
      "mem_del_type E c t = Inr (MEM_RES_OK, c')" "mem_wf E c'" "lookup E c' = lookup E c"
      "mem_abs E c' = mem_abs E c" "heap c' = heap c" "pMemList c' = pMemList c"
      "info_heap c' = (info_heap c)(a := None)" "map_option mi_type (info_heap c a) = Some t"
      "a \<in> set (pMemInfo c (hash_type E t))"
      "pMemInfo c' = (pMemInfo c)(hash_type E t := remove1 a (pMemInfo c (hash_type E t)))"
proof -
  from wf have iwf: "info_wf E c" by (simp add: mem_wf_def)
  then show thesis
  proof (cases rule: mem_find_type_exists [where t = t])
    case none
    then show thesis by (intro absent) (simp_all add: mem_del_type_def)
  next
    case (some a i)
    let ?h = "hash_type E t"
    show thesis
    proof (cases "\<exists>p e. lookup E c p = Some e \<and> map_option mi_type (info_heap c (p_info e)) = Some t")
      case True
      then obtain p e where "lookup E c p = Some e" "map_option mi_type (info_heap c (p_info e)) = Some t"
        by blast
      then have "mem_abs E c p = Some (t, ml_size e, is_stored e)"
        by (auto simp: mem_abs_def entry_type_def)
      moreover have "mem_del_type E c t = Inr (MEM_RES_INUSE, c)"
        using some True by (simp add: mem_del_type_def table_uses_all [OF wf])
      ultimately show thesis by (rule in_use)
    next
      case False
      have uniq: "b = a" if "b \<in> set (pMemInfo c ?h)" "map_option mi_type (info_heap c b) = Some t" for b
        using iwf that some(3,4,5) unfolding info_wf_def by (metis option.simps(9))
      have unl: "unlink_type c (pMemInfo c ?h) t = Inr (Some a, remove1 a (pMemInfo c ?h))"
      proof (rule unlink_type_wf [OF _ some(3)], rule ballI)
        fix b assume b: "b \<in> set (pMemInfo c ?h)"
        with iwf obtain j where "info_heap c b = Some j" by (auto elim: info_wfD)
        with uniq [OF b] some(4,5) show "\<exists>i. info_heap c b = Some i \<and> (mi_type i = t \<longleftrightarrow> b = a)" by auto
      qed
      let ?c = "c\<lparr>pMemInfo := (pMemInfo c)(?h := remove1 a (pMemInfo c ?h)), info_heap := (info_heap c)(a := None)\<rparr>"
      have dist: "distinct (pMemInfo c ?h)" using iwf by (simp add: info_wf_def)
      have other: "a \<notin> set (pMemInfo c j)" if "j \<noteq> ?h" for j
        using iwf that some(4,5) by (auto elim!: info_wfD)
      have "info_wf E ?c"
        unfolding info_wf_def
      proof (intro conjI allI ballI impI)
        fix j b assume "b \<in> set (pMemInfo ?c j)"
        then have b: "b \<in> set (pMemInfo c j)" "b \<noteq> a"
          using other dist by (auto split: if_splits)
        with iwf show "b \<noteq> 0" by (auto elim: info_wfD)
        from b iwf show "\<exists>t. info_heap ?c b = Some t \<and> mi_type t \<noteq> 0 \<and> hash_type E (mi_type t) = j"
          by (auto elim!: info_wfD)
        fix b' assume "b' \<in> set (pMemInfo ?c j)"
          and eq: "map_option mi_type (info_heap ?c b) = map_option mi_type (info_heap ?c b')"
        then have "b' \<in> set (pMemInfo c j)" "b' \<noteq> a"
          using other dist by (auto split: if_splits)
        with b eq iwf show "b = b'" unfolding info_wf_def by simp
      next
        fix j show "distinct (pMemInfo ?c j)" using iwf by (simp add: info_wf_def)
      qed
      moreover have lk: "lookup E ?c = lookup E c" by (rule lookup_cong) simp
      moreover have pinfo: "p_info e \<noteq> a" if "lookup E c p = Some e" for p e
        using False that some(4,5) by auto
      have "entry_wf E ?c e" if e: "lookup E c p = Some e" for p e
      proof -
        from wf e obtain t' where t': "info_heap c (p_info e) = Some t'"
            "p_info e \<in> set (pMemInfo c (hash_type E (mi_type t')))" and ewf: "entry_wf E c e"
          by (auto simp: mem_wf_def entry_wf_def)
        with pinfo [OF e] show ?thesis by (auto simp: entry_wf_def)
      qed
      ultimately have "mem_wf E ?c"
        using wf by (simp add: mem_wf_def table_wf_cong [of ?c c])
      moreover have "mem_abs E ?c = mem_abs E c"
        using pinfo by (auto simp: mem_abs_def lk entry_type_def fun_eq_iff intro!: option.map_cong)
      moreover have "mem_abs E c p \<noteq> Some (t, sz, st)" for p sz st
        using False some(6) by (auto simp: mem_abs_def entry_type_def split: option.splits)
      moreover have run: "mem_del_type E c t = Inr (MEM_RES_OK, ?c)"
        using some(1,2) unfolding mem_del_type_def table_uses_all [OF wf]
        by (simp add: False Let_def unl del: map_option_eq_Some)
      ultimately show thesis
        using some lk by (intro ok [OF some(7) _ run, of a]) auto
    qed
  qed
qed

subsection \<open>mem_free_all(0)\<close>

lemma lookup_empty_chain: "table_wf E c \<Longrightarrow> lookup E c = (\<lambda>_. None) \<Longrightarrow> pMemList c i = []"
  using in_chain_iff [of E c _ i] by (metis option.distinct(1) list.set_intros(1) neq_Nil_conv)

text \<open>With an empty table of blocks every type can be deleted.\<close>

lemma mem_del_type_unused:
  assumes wf: "mem_wf E c" and none: "lookup E c = (\<lambda>_. None)"
    and a: "a \<in> set (pMemInfo c i)" "info_heap c a = Some t"
  obtains c' where "mem_del_type E c (mi_type t) = Inr (MEM_RES_OK, c')" "mem_wf E c'"
    "lookup E c' = lookup E c" "heap c' = heap c" "info_heap c' = (info_heap c)(a := None)"
    "pMemInfo c' = (pMemInfo c)(i := remove1 a (pMemInfo c i))"
proof -
  from wf have iwf: "info_wf E c" by (simp add: mem_wf_def)
  from info_wf_node [OF iwf a(1)] a(2) have i: "hash_type E (mi_type t) = i" by simp
  from wf show thesis
  proof (cases rule: mem_del_type_cases [where t = "mi_type t"])
    case absent
    with a i show thesis by (auto simp: type_exists_def)
  next
    case in_use
    with none show thesis by (simp add: mem_abs_def)
  next
    case (ok c' b)
    with i have "b \<in> set (pMemInfo c i)" by simp
    then have "b = a"
      using info_wf_unique [OF iwf _ a(1), of b] ok(10) a(2) by simp
    with ok i show thesis by (intro that) simp_all
  qed
qed

lemma del_chain_all:
  assumes "mem_wf E c" and "lookup E c = (\<lambda>_. None)" and "distinct as" and "set as \<subseteq> set (pMemInfo c i)"
  shows "\<exists>c'. del_chain E c as = Inr c' \<and> mem_wf E c' \<and> lookup E c' = (\<lambda>_. None) \<and> heap c' = heap c \<and>
     info_heap c' = info_heap c |` (- set as) \<and>
     (\<forall>j. set (pMemInfo c' j) = set (pMemInfo c j) - (if j = i then set as else {}))"
  using assms
proof (induction as arbitrary: c)
  case Nil
  then show ?case by simp
next
  case (Cons a as)
  from Cons.prems have iwf: "info_wf E c" and a: "a \<in> set (pMemInfo c i)"
    by (simp_all add: mem_wf_def)
  from info_wf_node [OF iwf a] obtain t where t: "info_heap c a = Some t" by blast
  from mem_del_type_unused [OF Cons.prems(1,2) a t] obtain c1 where
    c1: "mem_del_type E c (mi_type t) = Inr (MEM_RES_OK, c1)" "mem_wf E c1"
      "lookup E c1 = lookup E c" "heap c1 = heap c" "info_heap c1 = (info_heap c)(a := None)"
      "pMemInfo c1 = (pMemInfo c)(i := remove1 a (pMemInfo c i))" .
  have rm: "set (pMemInfo c1 i) = set (pMemInfo c i) - {a}"
    using info_wf_distinct [OF iwf] by (simp add: c1(6))
  with Cons.prems have "set as \<subseteq> set (pMemInfo c1 i)" by auto
  with Cons.IH [OF c1(2)] Cons.prems(2,3) c1(3) obtain c' where
    c': "del_chain E c1 as = Inr c'" "mem_wf E c'" "lookup E c' = (\<lambda>_. None)" "heap c' = heap c1"
      "info_heap c' = info_heap c1 |` (- set as)"
      "\<And>j. set (pMemInfo c' j) = set (pMemInfo c1 j) - (if j = i then set as else {})"
    by auto
  have "info_heap c' = info_heap c |` (- set (a # as))"
    unfolding c'(5) c1(5) by (auto simp: restrict_map_def fun_eq_iff)
  moreover have "set (pMemInfo c' j) = set (pMemInfo c j) - (if j = i then set (a # as) else {})" for j
    unfolding c'(6) using rm by (auto simp: c1(6))
  moreover have "del_chain E c (a # as) = Inr c'"
    using t c1(1) c'(1) by (simp add: deref_info_def)
  ultimately show ?case using c'(2,3,4) c1(4) by auto
qed

lemma del_buckets_all:
  assumes "mem_wf E c" and "lookup E c = (\<lambda>_. None)"
  shows "\<exists>c'. del_buckets E c is = Inr c' \<and> mem_wf E c' \<and> lookup E c' = (\<lambda>_. None) \<and> heap c' = heap c \<and>
     (\<forall>j. pMemInfo c' j \<noteq> [] \<longrightarrow> j \<notin> set is \<and> pMemInfo c j \<noteq> [])"
  using assms
proof (induction "is" arbitrary: c)
  case Nil
  then show ?case by simp
next
  case (Cons i "is")
  from Cons.prems have "distinct (pMemInfo c i)" by (auto simp: mem_wf_def intro: info_wf_distinct)
  from del_chain_all [OF Cons.prems this subset_refl] obtain c1 where
    c1: "del_chain E c (pMemInfo c i) = Inr c1" "mem_wf E c1" "lookup E c1 = (\<lambda>_. None)" "heap c1 = heap c"
      "\<And>j. set (pMemInfo c1 j) = set (pMemInfo c j) - (if j = i then set (pMemInfo c i) else {})" by blast
  from Cons.IH [OF c1(2,3)] obtain c' where
    c': "del_buckets E c1 is = Inr c'" "mem_wf E c'" "lookup E c' = (\<lambda>_. None)" "heap c' = heap c1"
      "\<And>j. pMemInfo c' j \<noteq> [] \<Longrightarrow> j \<notin> set is \<and> pMemInfo c1 j \<noteq> []" by blast
  have "j \<notin> set (i # is) \<and> pMemInfo c j \<noteq> []" if "pMemInfo c' j \<noteq> []" for j
    using c'(5) [OF that] c1(5) [of j] by (auto split: if_splits)
  with c1(1,4) c' show ?case by auto
qed

lemma mem_free_all_0:
  assumes wf: "mem_wf E c"
  obtains c' where "mem_free_all E c 0 = Inr c'" "mem_wf E c'" "lookup E c' = (\<lambda>_. None)"
    "pMemList c' = (\<lambda>_. [])" "pMemInfo c' = (\<lambda>_. [])"
    "heap c' = (\<lambda>a. if owned E c a then None else heap c a)"
proof -
  from free_buckets_all [OF wf, of 0] obtain c1 where
    c1: "free_buckets E c 0 [0..<MEM_HASH_SIZE] = Inr c1" "freed E (of_type E c 0) c c1" .
  have none: "lookup E c1 = (\<lambda>_. None)"
    using freed_lookup [OF c1(2)] by (auto simp: of_type_def fun_eq_iff)
  from del_buckets_all [OF freed_wf [OF c1(2)] none, of "[0..<MEM_HASH_SIZE]"] obtain c' where
    c': "del_buckets E c1 [0..<MEM_HASH_SIZE] = Inr c'" "mem_wf E c'" "lookup E c' = (\<lambda>_. None)" "heap c' = heap c1"
      "\<And>j. pMemInfo c' j \<noteq> [] \<Longrightarrow> j \<notin> set [0..<MEM_HASH_SIZE] \<and> pMemInfo c1 j \<noteq> []" by blast
  have "pMemInfo c' j = []" for j
  proof (rule ccontr)
    assume ne: "pMemInfo c' j \<noteq> []"
    then obtain a where "a \<in> set (pMemInfo c' j)" by (cases "pMemInfo c' j") auto
    with c'(2) have "j < MEM_HASH_SIZE" by (auto simp: mem_wf_def dest!: info_wf_node)
    with c'(5) [OF ne] show False by simp
  qed
  moreover have "pMemList c' j = []" for j
    using c'(2,3) by (intro lookup_empty_chain) (simp_all add: mem_wf_def)
  moreover have "heap c' = (\<lambda>a. if owned E c a then None else heap c a)"
    using c1(2) c'(4) by (auto simp: freed_def of_type_def owned_def fun_eq_iff)
  moreover have "mem_free_all E c 0 = Inr c'"
    using c1(1) c'(1) by (simp add: mem_free_all_def)
  ultimately show thesis using c'(2,3) by (intro that) auto
qed

subsection \<open>mem_realloc\<close>

text \<open>The bytes of a block after \<open>mem_realloc\<close>.\<close>

definition grown :: "libc \<Rightarrow> addr \<Rightarrow> c_uint \<Rightarrow> c_uint \<Rightarrow> byte list \<Rightarrow> byte list" where
  "grown E q old n bs =
     (if old < n then take (unat old) bs @ replicate (unat n - unat old) 0
      else take (unat n) bs @ map (raw_byte E q) [length bs..<unat n])"

lemma length_grown: "unat old \<le> length bs \<Longrightarrow> length (grown E q old n bs) = unat n"
  by (auto simp: grown_def word_less_nat_alt)

lemma grown_eq:
  "unat old \<le> length bs \<Longrightarrow>
   (if old < n
    then take (unat old) (take (unat n) bs @ map (raw_byte E q) [length bs..<unat n])
       @ replicate (unat n - unat old) 0
    else take (unat n) bs @ map (raw_byte E q) [length bs..<unat n]) = grown E q old n bs"
  by (auto simp: grown_def word_less_nat_alt min_def)

definition resize_entry :: "libc \<Rightarrow> addr \<Rightarrow> c_uint \<Rightarrow> mem_ctx \<Rightarrow> mem_ctx" where
  "resize_entry E p n c = c\<lparr>pMemList := (pMemList c)(hash_ptr E p :=
     map (\<lambda>x. if p_ptr x = p then x\<lparr>ml_size := n\<rparr> else x) (pMemList c (hash_ptr E p)))\<rparr>"

lemma mem_realloc_run:
  assumes "mem_find_ptr E c p = Some e" "\<not> is_stored e" "heap c p = Some bs"
    "realloc E c p (unat n) = Some q" "p_ptr e = p" "unat (ml_size e) \<le> length bs"
  shows "mem_realloc E c p n = Inr (q,
     let c1 = c\<lparr>heap := (heap c)(p := None, q \<mapsto> grown E q (ml_size e) n bs)\<rparr>
     in if q = p then resize_entry E p n c1
        else push_entry E (e\<lparr>p_ptr := q, ml_size := n\<rparr>) (unlink_entry E p c1))"
  using assms by (simp add: mem_realloc_def Let_def grown_eq [OF assms(6)] resize_entry_def del: append_take_drop_id take_take cong: if_weak_cong)

lemma find_map_update:
  "(\<And>x. f (g x) = f x) \<Longrightarrow> find (\<lambda>x. f x = k) (map g xs) = map_option g (find (\<lambda>x. f x = k) xs)"
  by (induction xs) auto

lemma lookup_resize:
  assumes "lookup E c p = Some e"
  shows "lookup E (resize_entry E p n c) = (lookup E c)(p \<mapsto> e\<lparr>ml_size := n\<rparr>)"
proof
  fix r
  let ?g = "\<lambda>x. if p_ptr x = p then x\<lparr>ml_size := n\<rparr> else x"
  have pg: "p_ptr (?g x) = p_ptr x" for x by simp
  have "p_ptr e = p" using assms by (rule lookup_ptr)
  show "lookup E (resize_entry E p n c) r = ((lookup E c)(p \<mapsto> e\<lparr>ml_size := n\<rparr>)) r"
  proof (cases "hash_ptr E r = hash_ptr E p")
    case True
    then have "lookup E (resize_entry E p n c) r = map_option ?g (lookup E c r)"
      by (simp add: resize_entry_def lookup_def find_map_update [of p_ptr ?g, OF pg])
    moreover have "p_ptr x = r" if "lookup E c r = Some x" for x using that by (rule lookup_ptr)
    ultimately show ?thesis
      using assms \<open>p_ptr e = p\<close> by (cases "lookup E c r"; cases "r = p") simp_all
  next
    case False
    then have "r \<noteq> p" by auto
    with False show ?thesis by (simp add: resize_entry_def lookup_def)
  qed
qed

lemma table_wf_resize: "table_wf E c \<Longrightarrow> table_wf E (resize_entry E p n c)"
proof -
  assume wf: "table_wf E c"
  have *: "map p_ptr (pMemList (resize_entry E p n c) i) = map p_ptr (pMemList c i)" for i
    by (simp add: resize_entry_def comp_def cong: if_cong)
  have "\<exists>e' \<in> set (pMemList c i). p_ptr e' = p_ptr e"
    if "e \<in> set (pMemList (resize_entry E p n c) i)" for e i
  proof -
    from that have "p_ptr e \<in> set (map p_ptr (pMemList (resize_entry E p n c) i))" by simp
    then have "p_ptr e \<in> set (map p_ptr (pMemList c i))" unfolding * .
    then show ?thesis by force
  qed
  then have "hash_ptr E (p_ptr e) = i"
    if "e \<in> set (pMemList (resize_entry E p n c) i)" for e i
    using that wf unfolding table_wf_def by fastforce
  with wf show ?thesis
    by (simp add: table_wf_def *)
qed

text \<open>Both ways \<open>mem_realloc\<close> changes the table.\<close>

lemma realloc_moved:
  assumes wf: "mem_wf E c" and e: "lookup E c p = Some e" "\<not> is_stored e"
    and q: "mem_fresh c q" "q \<noteq> p" and len: "length bs = unat n"
  defines "c1 \<equiv> c\<lparr>heap := (heap c)(p := None, q \<mapsto> bs)\<rparr>"
  defines "c' \<equiv> push_entry E (e\<lparr>p_ptr := q, ml_size := n\<rparr>) (unlink_entry E p c1)"
  shows "mem_wf E c'" and "mem_abs E c' = (mem_abs E c)(p := None, q \<mapsto> (entry_type c e, n, False))"
proof -
  let ?e = "e\<lparr>p_ptr := q, ml_size := n\<rparr>"
  let ?u = "unlink_entry E p c"
  let ?u1 = "?u\<lparr>heap := (heap c)(p := None)\<rparr>"
  let ?u2 = "?u1\<lparr>heap := (heap ?u1)(q \<mapsto> bs)\<rparr>"
  have u2: "unlink_entry E p c1 = ?u2" by (simp add: unlink_entry_def Let_def c1_def)
  have ewf: "entry_wf E c e" using wf e by (simp add: mem_wf_def)
  have wf0: "mem_wf E ?u" using wf by (rule mem_wf_unlink)
  have lk0: "lookup E ?u = (lookup E c)(p := None)" using wf by (simp add: mem_wf_def tbl.lkp_del)
  have lk1: "lookup E ?u1 = lookup E ?u" by (rule lookup_cong) simp
  have lk2: "lookup E ?u2 = lookup E ?u" by (rule lookup_cong) simp
  have lkq: "lookup E ?u2 q = None" "lookup E ?u1 q = None"
    unfolding lk1 lk2 lk0 using mem_fresh_lookup [OF q(1)] q(2) by simp_all
  have qn: "lookup E c q = None" using q(1) by (rule mem_fresh_lookup)
  have "mem_wf E ?u1" using mem_wf_heap [OF wf0, of p None] lk0 by simp
  then have "mem_wf E ?u2" using lkq by (intro mem_wf_heap) simp_all
  moreover have "entry_wf E ?u2 ?e"
    using ewf q len by (auto simp: entry_wf_def mem_fresh_def)
  ultimately show "mem_wf E c'"
    using lkq unfolding c'_def u2 by (intro mem_wf_push) simp_all
  have "lookup E c' = (lookup E c)(p := None, q \<mapsto> ?e)"
    unfolding c'_def u2 tbl.lkp_ins lk2 lk0 by simp
  moreover have "info_heap c' = info_heap c" by (simp add: c'_def c1_def)
  ultimately show "mem_abs E c' = (mem_abs E c)(p := None, q \<mapsto> (entry_type c e, n, False))"
    using e(2) by (auto simp: mem_abs_def fun_eq_iff entry_type_def is_stored_def)
qed

lemma realloc_in_place:
  assumes wf: "mem_wf E c" and e: "lookup E c p = Some e" "\<not> is_stored e" and len: "length bs = unat n"
  defines "c' \<equiv> resize_entry E p n (c\<lparr>heap := (heap c)(p := None, p \<mapsto> bs)\<rparr>)"
  shows "mem_wf E c'" and "mem_abs E c' = (mem_abs E c)(p := None, p \<mapsto> (entry_type c e, n, False))"
proof -
  let ?c1 = "c\<lparr>heap := (heap c)(p := None, p \<mapsto> bs)\<rparr>"
  have pe: "p_ptr e = p" using e(1) by (rule lookup_ptr)
  have lk1: "lookup E ?c1 = lookup E c" by (rule lookup_cong) simp
  have lk: "lookup E c' = (lookup E c)(p \<mapsto> e\<lparr>ml_size := n\<rparr>)"
    unfolding c'_def using e(1) lk1 by (subst lookup_resize [of E ?c1 p e]) simp_all
  have same: "info_heap c' = info_heap c" "pMemInfo c' = pMemInfo c" "heap c' = (heap c)(p \<mapsto> bs)"
    by (simp_all add: c'_def resize_entry_def)
  have "table_wf E c'"
    unfolding c'_def using wf by (intro table_wf_resize) (auto simp: mem_wf_def table_wf_def)
  moreover have "info_wf E c'" using wf same by (simp add: mem_wf_def info_wf_cong [of c' c])
  moreover have "entry_wf E c' x" if x: "lookup E c' r = Some x" for r x
  proof (cases "r = p")
    case True
    with x lk have "x = e\<lparr>ml_size := n\<rparr>" by simp
    moreover have "entry_wf E c e" using wf e by (simp add: mem_wf_def)
    ultimately show ?thesis using len pe e(2) by (auto simp: entry_wf_def same)
  next
    case False
    with x lk have x: "lookup E c r = Some x" by simp
    from wf x have "entry_wf E c x" by (simp add: mem_wf_def)
    then show ?thesis
      using False lookup_ptr [OF x] by (rule_tac entry_wf_keep) (simp_all add: same)
  qed
  ultimately show "mem_wf E c'" by (simp add: mem_wf_def)
  show "mem_abs E c' = (mem_abs E c)(p := None, p \<mapsto> (entry_type c e, n, False))"
    using e(2) by (auto simp: mem_abs_def fun_eq_iff lk entry_type_def is_stored_def same)
qed

lemma mem_realloc_cases:
  assumes wf: "mem_wf E c" and E: "libc_ok E"
  obtains (failed) "mem_realloc E c p n = Inr (0, c)" "n = 0 \<longrightarrow> (\<forall>t old. mem_abs E c p \<noteq> Some (t, old, False))"
  | (released) t old where "n = 0" "mem_realloc E c p n = Inr (0, c\<lparr>heap := (heap c)(p := None)\<rparr>)"
      "mem_abs E c p = Some (t, old, False)"
  | (ok) q c' t old bs where "mem_realloc E c p n = Inr (q, c')" "mem_wf E c'"
      "mem_abs E c p = Some (t, old, False)" "mem_abs E c' = (mem_abs E c)(p := None, q \<mapsto> (t, n, False))"
      "heap c p = Some bs" "unat old \<le> length bs" "q = p \<or> mem_fresh c q"
      "info_heap c' = info_heap c" "pMemInfo c' = pMemInfo c"
      "heap c' = (heap c)(p := None, q \<mapsto> grown E q old n bs)"
proof -
  from wf have twf: "table_wf E c" by (simp add: mem_wf_def)
  show thesis
  proof (cases "lookup E c p")
    case None
    with twf show thesis by (intro failed) (simp_all add: mem_realloc_def mem_find_ptr_eq mem_abs_def)
  next
    case e: (Some e)
    with wf have find: "mem_find_ptr E c p = Some e" and ewf: "entry_wf E c e" and pe: "p_ptr e = p"
      by (simp_all add: mem_wf_def mem_find_ptr_eq lookup_ptr)
    show thesis
    proof (cases "is_stored e \<or> realloc E c p (unat n) = None")
      case True
      show thesis
      proof (cases "\<not> is_stored e \<and> n = 0")
        case True': True
        with True find ewf pe e show thesis
          by (intro released) (auto simp: mem_realloc_def entry_wf_def mem_abs_def)
      next
        case False
        with True find ewf pe e show thesis
          by (intro failed) (auto simp: mem_realloc_def entry_wf_def mem_abs_def)
      qed
    next
      case False
      then obtain q where q: "realloc E c p (unat n) = Some q" by auto
      with E have fresh: "q = p \<or> mem_fresh c q" by (rule libc_realloc)
      from False ewf pe obtain bs where bs: "heap c p = Some bs" "unat (ml_size e) \<le> length bs"
        by (auto simp: entry_wf_def)
      from False have st: "\<not> is_stored e" by simp
      note run = mem_realloc_run [OF find st bs(1) q pe bs(2)]
      note len = length_grown [OF bs(2), of E q n]
      have abs: "mem_abs E c p = Some (entry_type c e, ml_size e, False)"
        using e st by (simp add: mem_abs_def)
      show thesis
      proof (cases "q = p")
        case False': False
        with fresh have "mem_fresh c q" by simp
        note realloc_moved [OF wf e st this False' len]
        with run abs bs fresh False' show thesis
          by (intro ok [OF run _ abs _ bs]) simp_all
      next
        case True
        note realloc_in_place [OF wf e st len]
        with run abs bs fresh True show thesis
          by (intro ok [OF run _ abs _ bs]) (simp_all add: resize_entry_def)
      qed
    qed
  qed
qed

end
