(* ===== verification/Typed_Memory.thy ===== *)
theory Typed_Memory
  imports Suva_Prelude
begin

text \<open>
  The contract between the memory manager and the code that uses it: pointers are handed out
  under a type, freed one by one or all of a type at once. The clients are the packet reader, which
  allocates every string and array of a packet under the type of its connection, and the
  connection, which frees that type. The manager of mem.c is an interpretation.
\<close>

locale typed_memory =
  fixes types :: "'c \<Rightarrow> addr \<Rightarrow> c_uint option"
    and block :: "'c \<Rightarrow> addr \<Rightarrow> byte list option"
    and alloc :: "'c \<Rightarrow> c_uint \<Rightarrow> c_uint \<Rightarrow> (addr \<times> 'c) res"
    and release :: "'c \<Rightarrow> addr \<Rightarrow> 'c res"
    and release_all :: "'c \<Rightarrow> c_uint \<Rightarrow> 'c res"
    and ok :: "'c \<Rightarrow> bool"
  assumes alloc_law: "ok c \<Longrightarrow> \<exists>p c'. alloc c t n = Inr (p, c') \<and> ok c' \<and>
      (if p = 0 then c' = c
       else types c p = None \<and> block c' = (block c)(p \<mapsto> replicate (unat n) 0) \<and>
         unat p + unat n < 2 ^ 64 \<and> types c' = (types c)(p \<mapsto> t))"
    and release_law: "ok c \<Longrightarrow> \<exists>c'. release c p = Inr c' \<and> ok c' \<and> types c' = (types c)(p := None) \<and>
      (\<forall>q. q \<noteq> p \<longrightarrow> block c' q = block c q)"
    and release_all_law: "ok c \<Longrightarrow> t \<noteq> 0 \<Longrightarrow> \<exists>c'. release_all c t = Inr c' \<and> ok c' \<and>
      types c' = (\<lambda>p. if types c p = Some t then None else types c p) \<and>
      (\<forall>q. types c q \<noteq> Some t \<longrightarrow> block c' q = block c q)"
begin

text \<open>A packet's allocations: one block for every size, all of one type.\<close>

fun alloc_all :: "'c \<Rightarrow> c_uint \<Rightarrow> c_uint list \<Rightarrow> (addr list \<times> 'c) res" where
  "alloc_all c t [] = Inr ([], c)"
| "alloc_all c t (n # ns) =
     bind_res (alloc c t n) (\<lambda>(p, c1).
       bind_res (alloc_all c1 t ns) (\<lambda>(ps, c2). Inr (p # ps, c2)))"

lemma alloc_all_types:
  "ok c \<Longrightarrow> \<exists>ps c'. alloc_all c t ns = Inr (ps, c') \<and> ok c' \<and> length ps = length ns \<and>
     types c' = (\<lambda>p. if p \<in> set ps - {0} then Some t else types c p) \<and>
     (\<forall>p \<in> set ps - {0}. types c p = None) \<and> distinct (filter (\<lambda>p. p \<noteq> 0) ps)"
proof (induction ns arbitrary: c)
  case Nil
  then show ?case by auto
next
  case (Cons n ns)
  from alloc_law [OF Cons.prems, of t n] obtain p c1 where
    run: "alloc c t n = Inr (p, c1)" "ok c1" and
    law: "if p = 0 then c1 = c
      else types c p = None \<and> block c1 = (block c)(p \<mapsto> replicate (unat n) 0) \<and>
        unat p + unat n < 2 ^ 64 \<and> types c1 = (types c)(p \<mapsto> t)" by blast
  from law have "if p = 0 then c1 = c else types c p = None \<and> types c1 = (types c)(p \<mapsto> t)"
    by (cases "p = 0") simp_all
  note p = run this
  from Cons.IH [OF p(2)] obtain ps c' where
    ps: "alloc_all c1 t ns = Inr (ps, c')" "ok c'" "length ps = length ns"
      "types c' = (\<lambda>p. if p \<in> set ps - {0} then Some t else types c1 p)"
      "\<forall>p \<in> set ps - {0}. types c1 p = None" "distinct (filter (\<lambda>p. p \<noteq> 0) ps)" by blast
  have "alloc_all c t (n # ns) = Inr (p # ps, c')"
    using p(1) ps(1) by simp
  moreover have "types c' = (\<lambda>q. if q \<in> set (p # ps) - {0} then Some t else types c q)"
    using p(3) ps(4) by (cases "p = 0") (auto simp: fun_eq_iff)
  moreover have "types c q = None" if q: "q \<in> set (p # ps) - {0}" for q
  proof (cases "q = p")
    case True
    with q p(3) show ?thesis by simp
  next
    case False
    with q ps(5) have "types c1 q = None" by simp
    with p(3) False show ?thesis by (cases "p = 0") simp_all
  qed
  moreover have "p \<noteq> 0 \<Longrightarrow> p \<notin> set ps"
    using p(3) bspec [OF ps(5), of p] by auto
  ultimately show ?case using ps(2,3,6) by auto
qed

text \<open>Freeing the type of the packet leaves nothing of it behind, and everything else.\<close>

lemma alloc_all_release_all:
  assumes c: "ok c" and t: "t \<noteq> 0" and none: "\<And>p. types c p \<noteq> Some t"
    and run: "alloc_all c t ns = Inr (ps, c1)"
  obtains c2 where "release_all c1 t = Inr c2" "ok c2" "types c2 = types c"
proof -
  from alloc_all_types [OF c, of t ns] run have
    c1: "ok c1" "types c1 = (\<lambda>p. if p \<in> set ps - {0} then Some t else types c p)"
      "\<forall>p \<in> set ps - {0}. types c p = None" by auto
  from release_all_law [OF c1(1) t] obtain c2 where
    c2: "release_all c1 t = Inr c2" "ok c2"
      "types c2 = (\<lambda>p. if types c1 p = Some t then None else types c1 p)" by blast
  have "types c2 = types c"
    unfolding c2(3) c1(2) using c1(3) none by (auto simp: fun_eq_iff)
  with c2(1,2) show thesis by (rule that)
qed

end

end
