(* ===== verification/Mem_Props.thy ===== *)
theory Mem_Props
  imports Mem_Inv Typed_Memory
begin

text \<open>
  What the memory manager promises: the total \<open>mem_get_size\<close> returns, the safety of every
  sequence of calls, the contract of typed memory its clients rely on (an interpretation of
  \<open>typed_memory\<close>), and the properties of its operations with their witnesses.
\<close>

unbundle bit_operations_syntax

section \<open>Accounting\<close>

text \<open>The total \<open>mem_get_size\<close> is to return: the sizes of the pointers of a type, modulo \<open>2^32\<close>.\<close>

definition type_total :: "(addr \<rightharpoonup> c_uint \<times> c_uint \<times> bool) \<Rightarrow> c_uint \<Rightarrow> c_uint" where
  "type_total A t = (\<Sum>p\<in>UNIV. case A p of None \<Rightarrow> 0 | Some (t', sz, _) \<Rightarrow> if t' = t then sz else 0)"

lemma type_total_upd:
  assumes "A p = None"
  shows "type_total (A(p \<mapsto> (t', sz, st))) t = type_total A t + (if t' = t then sz else 0)"
proof -
  let ?f = "\<lambda>A q. case A q of None \<Rightarrow> 0 | Some (t', sz, _) \<Rightarrow> if t' = t then sz else 0"
  have "type_total (A(p \<mapsto> (t', sz, st))) t =
      ?f (A(p \<mapsto> (t', sz, st))) p + (\<Sum>q\<in>UNIV - {p}. ?f (A(p \<mapsto> (t', sz, st))) q)"
    unfolding type_total_def by (rule sum.remove) simp_all
  also have "(\<Sum>q\<in>UNIV - {p}. ?f (A(p \<mapsto> (t', sz, st))) q) = (\<Sum>q\<in>UNIV - {p}. ?f A q)"
    by (rule sum.cong) auto
  also have "(\<Sum>q\<in>UNIV - {p}. ?f A q) = type_total A t"
    unfolding type_total_def using sum.remove [of UNIV p "?f A"] assms by simp
  also have "?f (A(p \<mapsto> (t', sz, st))) p = (if t' = t then sz else 0)" by simp
  finally show ?thesis by (simp only: add.commute)
qed

lemma chain_size_wf:
  "(\<forall>e \<in> set es. info_heap c (p_info e) \<noteq> None) \<Longrightarrow>
   chain_size c t acc es = Inr (acc + (\<Sum>e\<leftarrow>es. if entry_type c e = t then ml_size e else 0))"
proof (induction es arbitrary: acc)
  case (Cons e es)
  then obtain i where "info_heap c (p_info e) = Some i" by auto
  with Cons show ?case by (simp add: deref_info_def entry_type_def add.assoc)
qed simp

lemma table_size_wf:
  "(\<forall>i \<in> set is. \<forall>e \<in> set (pMemList c i). info_heap c (p_info e) \<noteq> None) \<Longrightarrow>
   table_size c t acc is =
     Inr (acc + (\<Sum>i\<leftarrow>is. \<Sum>e\<leftarrow>pMemList c i. if entry_type c e = t then ml_size e else 0))"
  by (induction "is" arbitrary: acc) (simp_all add: chain_size_wf add.assoc)

lemma chain_total:
  assumes wf: "table_wf E c"
  shows "(\<Sum>e\<leftarrow>pMemList c i. if entry_type c e = t then ml_size e else 0) =
    (\<Sum>p | p \<in> UNIV \<and> hash_ptr E p = i. case mem_abs E c p of None \<Rightarrow> 0 | Some (t', sz, _) \<Rightarrow> if t' = t then sz else 0)"
    (is "?l = (\<Sum>p | _. ?f p)")
proof -
  let ?es = "pMemList c i"
  from wf have dist: "distinct (map p_ptr ?es)" by (simp add: table_wf_def)
  have in_es: "lookup E c (p_ptr e) = Some e \<and> hash_ptr E (p_ptr e) = i" if "e \<in> set ?es" for e
    using wf that by (simp add: in_chain_iff)
  have "?l = (\<Sum>e\<leftarrow>?es. ?f (p_ptr e))"
    by (rule arg_cong [where f = sum_list], rule map_cong) (simp_all add: mem_abs_def in_es)
  also have "\<dots> = (\<Sum>p\<leftarrow>map p_ptr ?es. ?f p)" by (simp add: comp_def)
  also have "\<dots> = (\<Sum>p\<in>p_ptr ` set ?es. ?f p)"
    using dist by (subst sum_list_distinct_conv_sum_set) simp_all
  also have "\<dots> = (\<Sum>p | p \<in> UNIV \<and> hash_ptr E p = i. ?f p)"
  proof (rule sum.mono_neutral_left)
    show "p_ptr ` set ?es \<subseteq> {p. p \<in> UNIV \<and> hash_ptr E p = i}" using in_es by auto
    show "\<forall>p \<in> {p. p \<in> UNIV \<and> hash_ptr E p = i} - p_ptr ` set ?es. ?f p = 0"
    proof
      fix p assume p: "p \<in> {p. p \<in> UNIV \<and> hash_ptr E p = i} - p_ptr ` set ?es"
      have "lookup E c p = None"
      proof (cases "lookup E c p")
        case (Some e)
        then have "p_ptr e = p" by (rule lookup_ptr)
        with Some wf p have "e \<in> set ?es" by (simp add: in_chain_iff)
        with p \<open>p_ptr e = p\<close> show ?thesis by blast
      qed
      then show "?f p = 0" by (simp add: mem_abs_def)
    qed
  qed simp
  finally show ?thesis .
qed

lemma mem_get_size_total:
  assumes wf: "mem_wf E c"
  shows "mem_get_size c t = Inr (type_total (mem_abs E c) t)"
proof -
  from wf have twf: "table_wf E c" by (simp add: mem_wf_def)
  have "info_heap c (p_info e) \<noteq> None" if "e \<in> set (pMemList c i)" for e i
  proof -
    from twf that have "lookup E c (p_ptr e) = Some e" by (simp add: in_chain_iff)
    with wf have "entry_wf E c e" by (simp add: mem_wf_def)
    then show ?thesis by (auto dest: entry_wf_info)
  qed
  then have "\<forall>i \<in> set [0..<MEM_HASH_SIZE]. \<forall>e \<in> set (pMemList c i). info_heap c (p_info e) \<noteq> None"
    by blast
  then have "mem_get_size c t = Inr (\<Sum>i\<leftarrow>[0..<MEM_HASH_SIZE].
      \<Sum>e\<leftarrow>pMemList c i. if entry_type c e = t then ml_size e else 0)"
    by (simp add: mem_get_size_def table_size_wf)
  also have "(\<Sum>i\<leftarrow>[0..<MEM_HASH_SIZE].
      \<Sum>e\<leftarrow>pMemList c i. if entry_type c e = t then ml_size e else 0) =
      (\<Sum>i\<in>{0..<MEM_HASH_SIZE}. \<Sum>p | p \<in> UNIV \<and> hash_ptr E p = i.
         case mem_abs E c p of None \<Rightarrow> 0 | Some (t', sz, _) \<Rightarrow> if t' = t then sz else 0)"
    by (simp add: chain_total [OF twf] sum_list_distinct_conv_sum_set)
  also have "\<dots> = type_total (mem_abs E c) t"
    unfolding type_total_def by (rule sum.group) auto
  finally show ?thesis .
qed

section \<open>Sequences of calls\<close>

text \<open>The calls a program can make, in any order.\<close>

datatype mem_call =
    Add_Type c_uint "byte list"
  | Del_Type c_uint
  | Alloc c_uint c_uint
  | Calloc c_uint c_uint c_uint
  | Realloc addr c_uint
  | Store addr c_uint c_uint
  | Free addr
  | Free_All c_uint
  | Cb_Free c_uint "nat option"

fun mem_exec :: "libc \<Rightarrow> mem_ctx \<Rightarrow> mem_call \<Rightarrow> mem_ctx res" where
  "mem_exec E c (Add_Type t name) = bind_res (mem_add_type E c t name) (\<lambda>(_, c'). Inr c')"
| "mem_exec E c (Del_Type t) = bind_res (mem_del_type E c t) (\<lambda>(_, c'). Inr c')"
| "mem_exec E c (Alloc t n) = bind_res (mem_alloc E c t n) (\<lambda>(_, c'). Inr c')"
| "mem_exec E c (Calloc t m n) = bind_res (mem_calloc E c t m n) (\<lambda>(_, c'). Inr c')"
| "mem_exec E c (Realloc p n) = bind_res (mem_realloc E c p n) (\<lambda>(_, c'). Inr c')"
| "mem_exec E c (Store p t n) = bind_res (mem_store E c p t n) (\<lambda>(_, c'). Inr c')"
| "mem_exec E c (Free p) = mem_free E c p"
| "mem_exec E c (Free_All t) = mem_free_all E c t"
| "mem_exec E c (Cb_Free t h) = mem_cb_free E c t h"

fun mem_run :: "libc \<Rightarrow> mem_ctx \<Rightarrow> mem_call list \<Rightarrow> mem_ctx res" where
  "mem_run E c [] = Inr c"
| "mem_run E c (x # xs) = bind_res (mem_exec E c x) (\<lambda>c'. mem_run E c' xs)"

text \<open>
  Two calls break the table: a \<open>mem_calloc\<close> of no members records a size its block does not have, and a
  \<open>mem_realloc\<close> to 0 bytes may free a block that stays listed.
\<close>

definition sound_call :: "mem_call \<Rightarrow> bool" where
  "sound_call x \<longleftrightarrow> (case x of Calloc _ m n \<Rightarrow> m \<noteq> 0 | Realloc _ n \<Rightarrow> n \<noteq> 0 | _ \<Rightarrow> True)"

lemma mem_exec_wf:
  assumes wf: "mem_wf E c" and E: "libc_ok E" and ok: "sound_call x"
  shows "\<exists>c'. mem_exec E c x = Inr c' \<and> mem_wf E c'"
proof (cases x)
  case (Add_Type t name)
  from wf E show ?thesis
    by (cases rule: mem_add_type_cases [where t = t and name = name]) (simp_all add: Add_Type wf)
next
  case (Del_Type t)
  from wf show ?thesis
    by (cases rule: mem_del_type_cases [where t = t]) (simp_all add: Del_Type wf)
next
  case (Alloc t n)
  from wf E show ?thesis
    by (cases rule: mem_alloc_cases [where t = t and sz = n]) (simp_all add: Alloc wf)
next
  case (Calloc t m n)
  with ok have "m \<noteq> 0" by (simp add: sound_call_def)
  with wf E show ?thesis
    by (cases rule: mem_calloc_cases [where t = t and members = m and sz = n]) (simp_all add: Calloc wf)
next
  case (Realloc p n)
  with ok have "n \<noteq> 0" by (simp add: sound_call_def)
  with wf E show ?thesis
    by (cases rule: mem_realloc_cases [where p = p and n = n]) (simp_all add: Realloc wf)
next
  case (Store p t n)
  from wf E show ?thesis
    by (cases rule: mem_store_cases [where p = p and t = t and sz = n]) (simp_all add: Store wf)
next
  case (Free p)
  from wf show ?thesis
    by (rule mem_free_freed [where p = p]) (auto simp: Free dest: freed_wf)
next
  case (Free_All t)
  show ?thesis
  proof (cases "t = 0")
    case True
    from mem_free_all_0 [OF wf] show ?thesis by (metis Free_All True mem_exec.simps(8))
  next
    case False
    from mem_free_all_freed [OF wf this] show ?thesis
      by (metis Free_All freed_wf mem_exec.simps(8))
  qed
next
  case (Cb_Free t h)
  from wf show ?thesis
    by (rule mem_cb_free_wf [where t = t and h = h]) (simp add: Cb_Free)
qed

lemma mem_run_wf:
  "mem_wf E c \<Longrightarrow> libc_ok E \<Longrightarrow> list_all sound_call xs \<Longrightarrow> \<exists>c'. mem_run E c xs = Inr c' \<and> mem_wf E c'"
proof (induction xs arbitrary: c)
  case (Cons x xs)
  from mem_exec_wf [OF Cons.prems(1,2), of x] Cons.prems(3) obtain c1 where
    "mem_exec E c x = Inr c1" "mem_wf E c1" by auto
  with Cons show ?case by auto
qed simp

lemma mem_wf_init: "mem_wf E (mem_init c)"
  by (simp add: mem_wf_def info_wf_def table_wf_def mem_init_def lookup_def)


section \<open>The contract of typed memory\<close>

text \<open>The type of each pointer the manager lists.\<close>

definition mem_types :: "libc \<Rightarrow> mem_ctx \<Rightarrow> addr \<Rightarrow> c_uint option" where
  "mem_types E c p = map_option fst (mem_abs E c p)"

text \<open>The laws of \<open>Typed_Memory\<close> hold of mem.c.\<close>

interpretation typed_mem: typed_memory
  "mem_types E" heap "mem_alloc E" "mem_free E" "mem_free_all E"
  "\<lambda>c. mem_wf E c \<and> libc_ok E" for E
proof
  fix c :: mem_ctx and t n :: c_uint and p :: addr
  assume c: "mem_wf E c \<and> libc_ok E"
  then have wf: "mem_wf E c" and E: "libc_ok E" by simp_all
  from wf E show "\<exists>p c'. mem_alloc E c t n = Inr (p, c') \<and> (mem_wf E c' \<and> libc_ok E) \<and>
      (if p = 0 then c' = c
       else mem_types E c p = None \<and>
         heap c' = (heap c)(p \<mapsto> replicate (unat n) 0) \<and> unat p + unat n < 2 ^ 64 \<and>
         mem_types E c' = (mem_types E c)(p \<mapsto> t))"
  proof (cases rule: mem_alloc_cases [where t = t and sz = n])
    case failed
    with c show ?thesis by auto
  next
    case (ok p c')
    then have "p \<noteq> 0" "mem_abs E c p = None"
      by (simp_all add: mem_fresh_def mem_abs_def mem_fresh_lookup)
    with c ok show ?thesis by (auto simp: fun_eq_iff mem_types_def)
  qed
  show "\<exists>c'. mem_free E c p = Inr c' \<and> (mem_wf E c' \<and> libc_ok E) \<and>
      mem_types E c' = (mem_types E c)(p := None) \<and>
      (\<forall>q. q \<noteq> p \<longrightarrow> heap c' q = heap c q)"
  proof -
    obtain c' where "mem_free E c p = Inr c'" "freed E {p} c c'"
      using mem_free_freed [OF wf] .
    with E show ?thesis
      by (auto simp: freed_mem_abs freed_wf freed_heap restrict_map_def fun_eq_iff mem_types_def)
  qed
  show "\<exists>c'. mem_free_all E c t = Inr c' \<and> (mem_wf E c' \<and> libc_ok E) \<and>
      mem_types E c' =
        (\<lambda>q. if mem_types E c q = Some t then None else mem_types E c q) \<and>
      (\<forall>q. mem_types E c q \<noteq> Some t \<longrightarrow> heap c' q = heap c q)"
    if "t \<noteq> 0"
  proof -
    from c that obtain c' where c': "mem_free_all E c t = Inr c'" "freed E (of_type E c t) c c'"
      using mem_free_all_freed by blast
    have "q \<in> of_type E c t \<longleftrightarrow> mem_types E c q = Some t" for q
      using that by (auto simp: of_type_def mem_abs_def mem_types_def)
    with c c' show ?thesis
      by (auto simp: freed_mem_abs [OF c'(2)] freed_wf [OF c'(2)] freed_heap [OF c'(2)] restrict_map_def fun_eq_iff mem_types_def)
  qed
qed

lemma no_pointers_without_type:
  assumes "mem_wf E c" and "\<not> type_exists E c t"
  shows "mem_abs E c p \<noteq> Some (t, sz, st)"
proof
  assume "mem_abs E c p = Some (t, sz, st)"
  then obtain e where e: "lookup E c p = Some e" "entry_type c e = t" by (auto simp: mem_abs_def)
  with assms(1) have "entry_wf E c e" by (simp add: mem_wf_def)
  with e(2) have "type_exists E c t" by (auto simp: entry_wf_def entry_type_def intro: type_existsI)
  with assms(2) show False by simp
qed

lemma mem_del_type_gone:
  assumes wf: "mem_wf E c" and "type_exists E c t" and "\<And>p sz st. mem_abs E c p \<noteq> Some (t, sz, st)"
  obtains c' where "mem_del_type E c t = Inr (0, c')" "mem_wf E c'" "mem_abs E c' = mem_abs E c"
    "\<not> type_exists E c' t"
  using wf
proof (cases rule: mem_del_type_cases [where t = t])
  case (ok c' a)
  from wf have "info_wf E c" by (simp add: mem_wf_def)
  note uniq = info_wf_unique [OF this _ ok(11)] and dist = info_wf_distinct [OF this]
  have "b = a" if "b \<in> set (pMemInfo c (hash_type E t))" "map_option mi_type (info_heap c b) = Some t" for b
    using uniq [OF that(1)] that(2) ok(10) by simp
  then have "\<not> type_exists E c' t"
    using dist [of "hash_type E t"] by (auto simp: type_exists_def ok(9,12) split: if_splits)
  with ok that show thesis by blast
qed (use assms in auto)

text \<open>Writing a block, as the client does, keeps the invariant as long as the block keeps its size.\<close>

lemma mem_abs_heap: "mem_abs E (c\<lparr>heap := h\<rparr>) = mem_abs E c"
  by (auto simp: mem_abs_def fun_eq_iff lookup_def entry_type_def)

lemma mem_wf_write:
  assumes wf: "mem_wf E c" and p: "mem_abs E c p = Some (t, sz, st)" and len: "unat sz \<le> length bs"
  shows "mem_wf E (c\<lparr>heap := (heap c)(p \<mapsto> bs)\<rparr>)" (is "mem_wf E ?c")
proof -
  have lk: "lookup E ?c = lookup E c" by (rule lookup_cong) simp
  have "entry_wf E ?c e" if e: "lookup E c q = Some e" for q e
  proof -
    from wf e have "entry_wf E c e" by (simp add: mem_wf_def)
    moreover have "ml_size e = sz" if "q = p" using e p that by (simp add: mem_abs_def)
    moreover have "p_ptr e = q" using e by (rule lookup_ptr)
    ultimately show ?thesis using len by (auto simp: entry_wf_def)
  qed
  with wf show ?thesis
    by (simp add: mem_wf_def lk info_wf_cong [of ?c c] table_wf_cong [of ?c c])
qed

section \<open>Properties\<close>

text \<open>An allocator over four addresses, for the witnesses.\<close>

definition sample_libc :: libc where
  "sample_libc = \<lparr>malloc = (\<lambda>c n. if n < 2 ^ 63 then find (mem_fresh c) [16, 32, 48, 64] else None),
     realloc = (\<lambda>c p n. if n = 0 then None else Some p), raw_byte = (\<lambda>p i. 0), wide_shift = (\<lambda>b i. 0)\<rparr>"

definition empty_mem :: mem_ctx where
  "empty_mem = mem_init \<lparr>pMemList = (\<lambda>_. []), pMemInfo = (\<lambda>_. []), info_heap = (\<lambda>_. None),
     heap = (\<lambda>_. None), cb_log = []\<rparr>"

text \<open>The state after type 7 was added, and after a block of two bytes of that type was allocated.\<close>

definition typed_mem_ctx :: mem_ctx where
  "typed_mem_ctx = empty_mem\<lparr>info_heap := [16 \<mapsto> \<lparr>mi_type = 7, mi_name = [], mi_cb_free = None\<rparr>],
     pMemInfo := (\<lambda>_. [])(7 := [16])\<rparr>"

definition block_mem_ctx :: mem_ctx where
  "block_mem_ctx = push_entry sample_libc \<lparr>p_ptr = 32, ml_size = 2, ml_flags = 0, p_info = 16\<rparr>
     (typed_mem_ctx\<lparr>heap := [32 \<mapsto> [0, 0]]\<rparr>)"

lemma replicate_2: "replicate 2 x = [x, x]" and replicate_6: "replicate 6 x = [x, x, x, x, x, x]"
  by (simp_all add: numeral_eq_Suc)

lemma find_Some_in: "find P xs = Some a \<Longrightarrow> P a \<and> a \<in> set xs"
  by (induction xs) (auto split: if_splits)

lemma sample_libc_ok: "libc_ok sample_libc"
proof -
  have "mem_fresh c a \<and> unat a + n < 2 ^ 64" if "malloc sample_libc c n = Some a" for c n a
  proof -
    from that have n: "n < 2 ^ 63" and "find (mem_fresh c) [16, 32, 48, 64] = Some a"
      unfolding sample_libc_def libc.simps by (metis option.distinct(1))+
    from find_Some_in [OF this(2)] have a: "mem_fresh c a" "a \<in> {16, 32, 48, 64}" by simp_all
    then have "unat a \<le> 64" by auto
    with n a show ?thesis by simp
  qed
  moreover have "a = p" if "realloc sample_libc c p n = Some a" for c p n a
    using that by (simp add: sample_libc_def split: if_splits)
  ultimately show ?thesis unfolding libc_ok_def by blast
qed

lemma typed_mem_add: "mem_add_type sample_libc empty_mem 7 [] = Inr (0, typed_mem_ctx)"
  by (simp add: mem_add_type_def mem_find_type_def hash_type_eq empty_mem_def mem_init_def
      sample_libc_def mem_fresh_def typed_mem_ctx_def)

lemma typed_mem_alloc: "mem_alloc sample_libc typed_mem_ctx 7 2 = Inr (32, block_mem_ctx)"
  by (simp add: mem_alloc_def mem_find_type_def hash_type_eq typed_mem_ctx_def empty_mem_def
      mem_init_def sample_libc_def mem_fresh_def deref_info_def block_mem_ctx_def replicate_2)

lemma typed_mem_wf: "mem_wf sample_libc typed_mem_ctx"
proof -
  have "mem_wf sample_libc empty_mem" unfolding empty_mem_def by (rule mem_wf_init)
  from mem_exec_wf [OF this sample_libc_ok, of "Add_Type 7 []"] typed_mem_add show ?thesis
    by (simp add: sound_call_def)
qed

lemma block_mem_wf: "mem_wf sample_libc block_mem_ctx"
  using mem_exec_wf [OF typed_mem_wf sample_libc_ok, of "Alloc 7 2"] typed_mem_alloc
  by (simp add: sound_call_def)

lemma block_mem_abs: "mem_abs sample_libc block_mem_ctx = [32 \<mapsto> (7, 2, False)]"
proof -
  have "mem_abs sample_libc typed_mem_ctx = (\<lambda>_. None)"
    by (simp add: mem_abs_def lookup_def typed_mem_ctx_def empty_mem_def mem_init_def fun_eq_iff)
  with mem_alloc_cases [OF typed_mem_wf sample_libc_ok, of 7 2] typed_mem_alloc show ?thesis
    by auto
qed

lemma block_mem_heap: "heap block_mem_ctx = [32 \<mapsto> [0, 0]]"
  by (simp add: block_mem_ctx_def)

text \<open>C7: From an initialised manager any sequence of calls returns: no call follows a dangling or
  null pointer and none clears or copies bytes outside its block, whatever the calls and whatever
  blocks the C library hands out, and the invariant of the tables holds at the end. Two calls are excepted:
  \<open>mem_calloc\<close> with no members, and \<open>mem_realloc\<close> to 0 bytes, which may free a block that stays listed.\<close>

theorem mem_run_safe:
  "libc_ok E \<Longrightarrow> list_all sound_call xs \<Longrightarrow> \<exists>c'. mem_run E (mem_init c) xs = Inr c' \<and> mem_wf E c'"
  by (rule mem_run_wf [OF mem_wf_init])

lemma mem_run_safe_witness:
  "\<exists>c'. mem_run sample_libc (mem_init empty_mem)
      [Add_Type 7 [], Alloc 7 2, Realloc 32 5, Calloc 7 2 3, Free_All 7, Del_Type 7, Free 32, Free_All 0] = Inr c' \<and>
    mem_wf sample_libc c'"
  by (rule mem_run_safe [OF sample_libc_ok]) (simp add: sound_call_def)

text \<open>C11: \<open>mem_alloc\<close> returns NULL and changes nothing, or it returns a fresh pointer to a block of
  the size asked for, cleared to zero and listed with its type and size, and nothing else changes.
  It succeeds exactly when the type exists and both calls of \<open>malloc\<close> do.\<close>

theorem mem_alloc_correct:
  assumes "mem_wf E c" and "libc_ok E"
  shows "\<exists>p c'. mem_alloc E c t sz = Inr (p, c') \<and> mem_wf E c' \<and>
    (p \<noteq> 0 \<longleftrightarrow> type_exists E c t \<and> malloc E c 32 \<noteq> None \<and> malloc E c (unat sz) \<noteq> None) \<and>
    (if p = 0 then c' = c
     else mem_fresh c p \<and> mem_abs E c' = (mem_abs E c)(p \<mapsto> (t, sz, False)) \<and>
       heap c' = (heap c)(p \<mapsto> replicate (unat sz) 0) \<and> info_heap c' = info_heap c)"
proof -
  from assms have iwf: "info_wf E c" by (simp add: mem_wf_def)
  have succ: "type_exists E c t \<and> malloc E c 32 \<noteq> None \<and> malloc E c (unat sz) \<noteq> None \<longleftrightarrow>
      (\<exists>p c'. mem_alloc E c t sz = Inr (p, c') \<and> p \<noteq> 0)"
    using iwf
  proof (cases rule: mem_find_type_exists [where t = t])
    case none
    then show ?thesis by (simp add: mem_alloc_def)
  next
    case (some a i)
    have "p \<noteq> 0" if "malloc E c n = Some p" for n p
      using libc_malloc [OF assms(2) that] by (simp add: mem_fresh_def)
    with some show ?thesis by (auto simp: mem_alloc_def split: option.splits)
  qed
  from assms show ?thesis
  proof (cases rule: mem_alloc_cases [where t = t and sz = sz])
    case failed
    with assms succ show ?thesis by auto
  next
    case (ok p c')
    then have "p \<noteq> 0" by (simp add: mem_fresh_def)
    with ok succ show ?thesis by auto
  qed
qed

lemma mem_alloc_correct_witness:
  "\<exists>p c'. mem_alloc sample_libc typed_mem_ctx 7 2 = Inr (p, c') \<and> p = 32 \<and> heap c' p = Some [0, 0]"
  using mem_alloc_correct [OF typed_mem_wf sample_libc_ok, of 7 2] typed_mem_alloc block_mem_heap
  by (auto simp: replicate_2)

text \<open>C10: \<open>mem_free_all(t)\<close> for a type other than 0 unlists exactly the pointers of that type,
  gives back exactly their blocks (a stored pointer and a pointer whose type has a handler keep
  theirs), and leaves the types and every pointer of another type as they were.\<close>

theorem mem_free_all_type:
  assumes "mem_wf E c" and "t \<noteq> 0"
  shows "\<exists>c'. mem_free_all E c t = Inr c' \<and> mem_wf E c' \<and>
    (\<forall>p. mem_abs E c' p = (if (\<exists>sz st. mem_abs E c p = Some (t, sz, st)) then None else mem_abs E c p)) \<and>
    (\<forall>p. heap c' p = (if owned E c p \<and> (\<exists>sz st. mem_abs E c p = Some (t, sz, st)) then None else heap c p)) \<and>
    info_heap c' = info_heap c \<and> pMemInfo c' = pMemInfo c"
proof -
  from assms obtain c' where c': "mem_free_all E c t = Inr c'" "freed E (of_type E c t) c c'"
    by (rule mem_free_all_freed)
  have "p \<in> of_type E c t \<longleftrightarrow> (\<exists>sz st. mem_abs E c p = Some (t, sz, st))" for p
    using assms(2) by (auto simp: of_type_def mem_abs_def)
  with c' show ?thesis
    by (auto simp: freed_mem_abs [OF c'(2)] freed_def)
qed

lemma mem_free_all_type_witness:
  "\<exists>c'. mem_free_all sample_libc block_mem_ctx 7 = Inr c' \<and> mem_abs sample_libc c' 32 = None"
  using mem_free_all_type [OF block_mem_wf, of 7] by (auto simp: block_mem_abs)

text \<open>\<open>mem_free_all(0)\<close> empties both tables and gives back every block the manager owns.\<close>

theorem mem_free_all_everything:
  assumes "mem_wf E c"
  shows "\<exists>c'. mem_free_all E c 0 = Inr c' \<and> pMemList c' = (\<lambda>_. []) \<and> pMemInfo c' = (\<lambda>_. []) \<and>
    (\<forall>p. heap c' p = (if owned E c p then None else heap c p))"
  using assms by (rule mem_free_all_0) simp

lemma mem_free_all_everything_witness:
  "\<exists>c'. mem_free_all sample_libc block_mem_ctx 0 = Inr c' \<and> pMemInfo c' = (\<lambda>_. [])"
  using mem_free_all_everything [OF block_mem_wf] by blast

lemma mem_find_ptr_heap: "mem_find_ptr E (c\<lparr>heap := h\<rparr>) p = mem_find_ptr E c p"
  by (simp add: mem_find_ptr_def cong: option.case_cong)

lemma mem_free_missing_block:
  assumes "mem_wf E c" and "owned E c p"
  shows "mem_free E (c\<lparr>heap := (heap c)(p := None)\<rparr>) p = Inl Dangling"
proof -
  from assms(2) obtain e i where "lookup E c p = Some e" "\<not> is_stored e" "info_heap c (p_info e) = Some i" "mi_cb_free i = None"
    by (auto simp: owned_def)
  moreover have "table_wf E c" using assms(1) by (simp add: mem_wf_def)
  ultimately show ?thesis
    by (simp add: mem_free_def mem_find_ptr_heap mem_find_ptr_eq Let_def deref_info_def unlink_entry_def)
qed

text \<open>C21: \<open>mem_realloc\<close> resizes an allocated block: the pointer it returns is listed, with the type of
  the old one, under the new size, the old pointer is gone unless it is the same, and the block holds the
  old bytes that fit followed by zeros when it grew. Or it returns NULL and changes nothing; a stored pointer is never
  resized. One NULL is no failure: that of \<open>realloc(p, 0)\<close>, with which the C library has freed the block. Then the
  table still lists the pointer, and \<open>mem_free\<close> of it clears memory that is gone, unless its type has a handler.\<close>

theorem mem_realloc_correct:
  assumes "mem_wf E c" and "libc_ok E"
  shows "\<exists>q c'. mem_realloc E c p n = Inr (q, c') \<and>
    (if q \<noteq> 0 then mem_wf E c' \<and> (\<exists>t old bs. mem_abs E c p = Some (t, old, False) \<and> heap c p = Some bs \<and>
       mem_abs E c' = (mem_abs E c)(p := None, q \<mapsto> (t, n, False)) \<and>
       (old < n \<longrightarrow> heap c' = (heap c)(p := None, q \<mapsto>
          take (unat old) bs @ replicate (unat n - unat old) 0)) \<and>
       (n \<le> old \<longrightarrow> heap c' = (heap c)(p := None, q \<mapsto> take (unat n) bs)))
     else if n = 0 \<and> (\<exists>t old. mem_abs E c p = Some (t, old, False))
     then c' = c\<lparr>heap := (heap c)(p := None)\<rparr> \<and> mem_abs E c' = mem_abs E c \<and>
       (owned E c p \<longrightarrow> mem_free E c' p = Inl Dangling)
     else c' = c)"
  using assms
proof (cases rule: mem_realloc_cases [where p = p and n = n])
  case failed
  then show ?thesis by auto
next
  case (released t old)
  with mem_free_missing_block [OF assms(1)] show ?thesis by (auto simp: mem_abs_heap)
next
  case (ok q c' t old bs)
  have "p \<noteq> 0"
    using ok(3) assms(1) by (auto simp: mem_abs_def mem_wf_def entry_wf_def dest: lookup_ptr)
  with ok(7) have "q \<noteq> 0" by (auto simp: mem_fresh_def)
  moreover have "grown E q old n bs = take (unat n) bs" if "n \<le> old"
    using that ok(6) by (simp add: grown_def word_le_nat_alt word_less_nat_alt)
  moreover have "grown E q old n bs = take (unat old) bs @ replicate (unat n - unat old) 0" if "old < n"
    using that by (simp add: grown_def)
  ultimately show ?thesis using ok by auto
qed

lemma mem_realloc_correct_witness:
  "(\<exists>c'. mem_realloc sample_libc block_mem_ctx 32 4 = Inr (32, c') \<and> heap c' 32 = Some [0, 0, 0, 0]) \<and>
   (\<exists>c'. mem_realloc sample_libc block_mem_ctx 32 0 = Inr (0, c') \<and> heap c' 32 = None \<and> mem_abs sample_libc c' 32 \<noteq> None)"
proof -
  have "lookup sample_libc block_mem_ctx 32 = Some \<lparr>p_ptr = 32, ml_size = 2, ml_flags = 0, p_info = 16\<rparr>"
    by (simp add: block_mem_ctx_def tbl.lkp_ins)
  moreover from this have "mem_find_ptr sample_libc block_mem_ctx 32 = lookup sample_libc block_mem_ctx 32"
    using block_mem_wf by (simp add: mem_wf_def mem_find_ptr_eq)
  ultimately have "\<exists>c'. mem_realloc sample_libc block_mem_ctx 32 4 = Inr (32, c')" "\<exists>c'. mem_realloc sample_libc block_mem_ctx 32 0 = Inr (0, c')"
    by (simp add: mem_realloc_def block_mem_heap is_stored_0 Let_def, simp add: sample_libc_def)+
  then obtain c' d where run: "mem_realloc sample_libc block_mem_ctx 32 4 = Inr (32, c')" "mem_realloc sample_libc block_mem_ctx 32 0 = Inr (0, d)"
    by blast
  have "heap c' 32 = Some [0, 0, 0, 0]"
    using mem_realloc_correct [OF block_mem_wf sample_libc_ok, of 32 4] run(1) by (auto simp: block_mem_abs block_mem_heap replicate_2)
  moreover have "heap d 32 = None" "mem_abs sample_libc d 32 \<noteq> None"
    using mem_realloc_correct [OF block_mem_wf sample_libc_ok, of 32 0] run(2) by (auto simp: block_mem_abs)
  ultimately show ?thesis using run by blast
qed

text \<open>C31: \<open>mem_get_size\<close> returns the sum of the recorded sizes of the pointers of a type, modulo
  \<open>2^32\<close>, so every successful \<open>mem_alloc\<close> raises it by the size asked for.\<close>

theorem mem_get_size_correct:
  assumes "mem_wf E c"
  shows "mem_get_size c t = Inr (type_total (mem_abs E c) t) \<and>
    (libc_ok E \<longrightarrow> (\<forall>sz p c'. mem_alloc E c t sz = Inr (p, c') \<and> p \<noteq> 0 \<longrightarrow>
       mem_get_size c' t = Inr (type_total (mem_abs E c) t + sz)))"
proof (intro conjI impI allI)
  show "mem_get_size c t = Inr (type_total (mem_abs E c) t)"
    using assms by (rule mem_get_size_total)
  fix sz p c'
  assume E: "libc_ok E" and run: "mem_alloc E c t sz = Inr (p, c') \<and> p \<noteq> 0"
  have "mem_wf E c' \<and> mem_abs E c' = (mem_abs E c)(p \<mapsto> (t, sz, False)) \<and> mem_abs E c p = None"
    using assms E
  proof (cases rule: mem_alloc_cases [where t = t and sz = sz])
    case (ok q d)
    moreover from ok run have "q = p" "d = c'" by simp_all
    ultimately show ?thesis by (simp add: mem_abs_def mem_fresh_lookup)
  qed (use run in simp)
  then show "mem_get_size c' t = Inr (type_total (mem_abs E c) t + sz)"
    by (simp add: mem_get_size_total [of E] type_total_upd)
qed

lemma mem_get_size_correct_witness: "mem_get_size block_mem_ctx 7 = Inr 2"
proof -
  have "mem_abs sample_libc typed_mem_ctx = (\<lambda>_. None)"
    by (simp add: mem_abs_def lookup_def typed_mem_ctx_def empty_mem_def mem_init_def fun_eq_iff)
  then have "type_total (mem_abs sample_libc typed_mem_ctx) 7 = 0" by (simp add: type_total_def)
  with mem_get_size_correct [OF typed_mem_wf, of 7] sample_libc_ok typed_mem_alloc show ?thesis by force
qed

text \<open>A type is added once, its identifier is never 0, and once no pointer of it is left
  it can be deleted, which brings back the set of types there was before it was added.\<close>

theorem mem_type_lifecycle:
  assumes "mem_wf E c" and "libc_ok E" and "mem_add_type E c t name = Inr (0, c1)"
  shows "t \<noteq> 0 \<and> \<not> type_exists E c t \<and> type_exists E c1 t \<and> mem_wf E c1 \<and>
    mem_add_type E c1 t name' = Inr (MEM_RES_EXISTS, c1) \<and>
    (\<exists>c2. mem_del_type E c1 t = Inr (0, c2) \<and> mem_wf E c2 \<and> mem_abs E c2 = mem_abs E c \<and>
       \<not> type_exists E c2 t)"
proof -
  have "t \<noteq> 0 \<and> \<not> type_exists E c t \<and> mem_wf E c1 \<and> mem_abs E c1 = mem_abs E c \<and> type_exists E c1 t"
    using assms(1,2)
  proof (cases rule: mem_add_type_cases [where t = t and name = name])
    case (ok d)
    moreover from ok assms(3) have "d = c1" by simp
    ultimately show ?thesis by simp
  qed (use assms(3) in simp_all)
  then have t: "t \<noteq> 0" "\<not> type_exists E c t" and c1: "mem_wf E c1" "mem_abs E c1 = mem_abs E c"
    "type_exists E c1 t" by simp_all
  have again: "mem_add_type E c1 t name' = Inr (MEM_RES_EXISTS, c1)"
    using c1(1) assms(2) by (cases rule: mem_add_type_cases [where t = t and name = name']) (simp_all add: t c1)
  have unused: "mem_abs E c p \<noteq> Some (t, sz, st)" for p sz st
    using assms(1) t(2) by (rule no_pointers_without_type)
  obtain c2 where "mem_del_type E c1 t = Inr (0, c2)" "mem_wf E c2" "mem_abs E c2 = mem_abs E c1"
      "\<not> type_exists E c2 t"
    by (rule mem_del_type_gone [OF c1(1,3)]) (simp add: c1(2) unused)
  with t c1 again show ?thesis by auto
qed

lemma mem_type_lifecycle_witness:
  "\<exists>c2. mem_del_type sample_libc typed_mem_ctx 7 = Inr (0, c2) \<and> \<not> type_exists sample_libc c2 7"
proof -
  have "mem_wf sample_libc empty_mem" unfolding empty_mem_def by (rule mem_wf_init)
  from mem_type_lifecycle [OF this sample_libc_ok typed_mem_add, of "[]"] show ?thesis by blast
qed

text \<open>C32: \<open>mem_calloc\<close> of \<open>members\<close> members lists the block under the size of one member, so
  \<open>mem_get_size\<close> counts a single member of it, and a \<open>mem_realloc\<close> that grows the block in place
  to all its members clears every member after the first.\<close>

theorem mem_calloc_counts_one_member:
  assumes "mem_wf E c" and "libc_ok E" and "members \<noteq> 0"
    and "mem_calloc E c t members sz = Inr (p, c')" and "p \<noteq> 0"
  shows "heap c' p = Some (replicate (unat members * unat sz) 0) \<and>
    mem_get_size c' t = Inr (type_total (mem_abs E c) t + sz) \<and>
    (\<forall>bs q c''. length bs = unat members * unat sz \<and> sz < n \<and>
       mem_realloc E (c'\<lparr>heap := (heap c')(p \<mapsto> bs)\<rparr>) p n = Inr (q, c'') \<and> q \<noteq> 0 \<longrightarrow>
       heap c'' q = Some (take (unat sz) bs @ replicate (unat n - unat sz) 0))"
proof -
  have "mem_wf E c' \<and> mem_abs E c' = (mem_abs E c)(p \<mapsto> (t, sz, False)) \<and> mem_abs E c p = None \<and>
      heap c' p = Some (replicate (unat members * unat sz) 0)"
    using assms(1,2,3)
  proof (cases rule: mem_calloc_cases [where t = t and sz = sz])
    case (ok q d)
    moreover from ok assms(4) have "q = p" "d = c'" by simp_all
    ultimately show ?thesis by (simp add: mem_abs_def mem_fresh_lookup)
  qed (use assms(4,5) in simp)
  then have c': "mem_wf E c'" "mem_abs E c' = (mem_abs E c)(p \<mapsto> (t, sz, False))" "mem_abs E c p = None"
    "heap c' p = Some (replicate (unat members * unat sz) 0)" by simp_all
  have sz: "unat sz \<le> unat members * unat sz"
    using assms(3) by (cases "unat members") (simp_all add: unat_eq_0)
  have "heap c'' q = Some (take (unat sz) bs @ replicate (unat n - unat sz) 0)"
    if bs: "length bs = unat members * unat sz" "sz < n"
      and run: "mem_realloc E (c'\<lparr>heap := (heap c')(p \<mapsto> bs)\<rparr>) p n = Inr (q, c'')" "q \<noteq> 0" for bs q c''
  proof -
    let ?c = "c'\<lparr>heap := (heap c')(p \<mapsto> bs)\<rparr>"
    have abs: "mem_abs E ?c p = Some (t, sz, False)"
      using c'(2) mem_abs_heap [where c = c' and h = "(heap c')(p \<mapsto> bs)"] by simp
    have "mem_wf E ?c"
      by (rule mem_wf_write [where t = t and sz = sz and st = False, OF c'(1)]) (simp_all add: c'(2) bs(1) sz)
    then show ?thesis using assms(2)
    proof (cases rule: mem_realloc_cases [where p = p and n = n])
      case failed
      with run show ?thesis by simp
    next
      case released
      with run show ?thesis by simp
    next
      case (ok q' d u old cs)
      from ok(1) run have "q' = q" "d = c''" by simp_all
      moreover from ok(3,5) abs have "old = sz" "cs = bs" by simp_all
      ultimately show ?thesis using ok(10) bs(2) by (simp add: grown_def)
    qed
  qed
  with c' show ?thesis by (auto simp: mem_get_size_total [of E] type_total_upd)
qed

lemma mem_calloc_counts_one_member_witness:
  "\<exists>c'. mem_calloc sample_libc typed_mem_ctx 7 3 2 = Inr (32, c') \<and> mem_get_size c' 7 = Inr 2 \<and>
    heap c' 32 = Some [0, 0, 0, 0, 0, 0]"
proof -
  have "\<exists>c'. mem_calloc sample_libc typed_mem_ctx 7 3 2 = Inr (32, c')"
    by (simp add: mem_calloc_def mem_find_type_def hash_type_eq typed_mem_ctx_def empty_mem_def
        mem_init_def sample_libc_def mem_fresh_def deref_info_def memset0_def)
  then obtain c' where run: "mem_calloc sample_libc typed_mem_ctx 7 3 2 = Inr (32, c')" ..
  have "mem_abs sample_libc typed_mem_ctx = (\<lambda>_. None)"
    by (simp add: mem_abs_def lookup_def typed_mem_ctx_def empty_mem_def mem_init_def fun_eq_iff)
  then have "type_total (mem_abs sample_libc typed_mem_ctx) 7 = 0" by (simp add: type_total_def)
  with mem_calloc_counts_one_member [OF typed_mem_wf sample_libc_ok _ run] run show ?thesis
    by (simp add: replicate_6)
qed

end
