(* ===== verification/Sutil.thy ===== *)
theory Sutil
  imports Suva_Prelude
begin

text \<open>
  The routines of sutil.c: NULL-terminated arrays of strings and the parsers that build them
  (command lines, dotted directories, environment files), the filters for names, the byte
  swapper, the routing of output, user and group lookup, and the lock files of processes. A C string is the
  list of its bytes before the terminating zero; a \<open>char **\<close> is \<open>None\<close> for NULL or the list of its
  strings. \<open>M n\<close> says whether the C library has \<open>n\<close> more bytes.
\<close>

unbundle bit_operations_syntax

type_synonym strv = "byte list list option"
type_synonym room = "nat \<Rightarrow> bool"

definition MAX_BUFFER :: nat where "MAX_BUFFER = 1024"

section \<open>Arrays of strings\<close>

definition elems :: "strv \<Rightarrow> byte list list" where
  "elems array = (case array of None \<Rightarrow> [] | Some xs \<Rightarrow> xs)"

text \<open>When \<open>strdup\<close> fails, the terminator takes the place of the string.\<close>

definition array_push :: "room \<Rightarrow> strv \<Rightarrow> byte list \<Rightarrow> strv res" where
  "array_push M array s =
     (let i = length (elems array)
      in if \<not> M ((i + 2) * 8) then Inl Aborted
         else Inr (Some (elems array @ (if M (length s + 1) then [s] else []))))"

fun reverse_loop :: "room \<Rightarrow> strv \<Rightarrow> byte list list \<Rightarrow> nat \<Rightarrow> strv res" where
  "reverse_loop M new_array array 0 = Inr new_array"
| "reverse_loop M new_array array (Suc len) =
     bind_res (array_push M new_array (array ! len)) (\<lambda>a. reverse_loop M a array len)"

definition array_reverse :: "room \<Rightarrow> strv \<Rightarrow> strv res" where
  "array_reverse M array =
     (let len = length (elems array)
      in if len = 0 then Inr array else reverse_loop M None (elems array) len)"

section \<open>Command lines\<close>

text \<open>
  The loop of \<open>arg_array\<close>: \<open>buf\<close> is the copy of the line with its terminator, \<open>start\<close> and
  \<open>stop\<close> are the offsets of \<open>arg_start\<close> and \<open>arg_end\<close>.
\<close>

lemma filter_update_less:
  "i < length bs \<Longrightarrow> P (bs ! i) \<Longrightarrow> \<not> P b \<Longrightarrow> length (filter P (bs[i := b])) < length (filter P bs)"
proof (induction bs arbitrary: i)
  case (Cons x xs)
  then show ?case by (cases i) auto
qed simp

lemma get_byte_Inr: "get_byte bs i = Inr b \<longleftrightarrow> i < length bs \<and> b = bs ! i"
  by (auto simp: get_byte_def)

lemma put_byte_Inr: "put_byte bs i b = Inr bs' \<longleftrightarrow> i < length bs \<and> bs' = bs[i := b]"
  by (auto simp: put_byte_def)

function arg_loop :: "room \<Rightarrow> byte list \<Rightarrow> nat \<Rightarrow> nat \<Rightarrow> bool \<Rightarrow> strv \<Rightarrow> strv res" where
  "arg_loop M buf start stop q array =
     bind_res (get_byte buf start) (\<lambda>s.
       if s = 0 then Inr array
       else if s = 32 then arg_loop M buf (start + 1) (start + 1) q array
       else if s = 34 then arg_loop M buf (start + 1) (start + 1) True array
       else bind_res (get_byte buf stop) (\<lambda>e.
         if ((e = 32 \<or> e = 0) \<and> \<not> q) \<or> (e = 34 \<and> q)
         then if e = 0 then bind_res (c_str (drop start buf)) (array_push M array)
              else bind_res (put_byte buf stop 0) (\<lambda>buf'.
                bind_res (c_str (drop start buf')) (\<lambda>t.
                bind_res (array_push M array t) (\<lambda>array'.
                  arg_loop M buf' (stop + 1) (stop + 1) False array')))
         else arg_loop M buf start (stop + 1) q array))"
  by pat_completeness auto
termination
  by (relation "measures [\<lambda>(M, buf, start, stop, q, a). length (filter (\<lambda>b. b \<noteq> 0) buf),
        \<lambda>(M, buf, start, stop, q, a). length buf - start,
        \<lambda>(M, buf, start, stop, q, a). length buf - stop]")
    (auto simp: get_byte_Inr put_byte_Inr intro!: filter_update_less)

declare arg_loop.simps [simp del]

definition arg_array :: "room \<Rightarrow> strv \<Rightarrow> byte list \<Rightarrow> strv res" where
  "arg_array M array arg =
     (if \<not> M (length arg + 1) then Inl Null_Deref
      else arg_loop M (arg @ [0]) 0 0 False array)"

section \<open>Dotted directories\<close>

text \<open>\<open>strncat\<close> of a component to the buffer that holds a slash, with the bound of the code.\<close>

definition slash_cat :: "byte list \<Rightarrow> byte list res" where
  "slash_cat t =
     (let n = unat ((1024 :: 64 word) - of_nat (length t) - 2); k = min n (length t)
      in if k + 2 \<le> MAX_BUFFER then Inr (47 # take k t) else Inl Out_Of_Bounds)"

function dir_loop :: "room \<Rightarrow> byte list \<Rightarrow> nat \<Rightarrow> nat \<Rightarrow> strv \<Rightarrow> strv res" where
  "dir_loop M buf start stop array =
     bind_res (get_byte buf start) (\<lambda>s.
       if s = 0 then Inr array
       else if s = 32 then dir_loop M buf (start + 1) (start + 1) array
       else bind_res (get_byte buf stop) (\<lambda>e.
         if e = 46 \<or> e = 0
         then if e = 0 then bind_res (c_str (drop start buf)) (\<lambda>t. bind_res (slash_cat t) (array_push M array))
              else bind_res (put_byte buf stop 0) (\<lambda>buf'.
                bind_res (c_str (drop start buf')) (\<lambda>t.
                bind_res (slash_cat t) (\<lambda>u.
                bind_res (array_push M array u) (\<lambda>array'.
                  dir_loop M buf' (stop + 1) (stop + 1) array'))))
         else dir_loop M buf start (stop + 1) array))"
  by pat_completeness auto
termination
  by (relation "measures [\<lambda>(M, buf, start, stop, a). length (filter (\<lambda>b. b \<noteq> 0) buf),
        \<lambda>(M, buf, start, stop, a). length buf - start,
        \<lambda>(M, buf, start, stop, a). length buf - stop]")
    (auto simp: get_byte_Inr put_byte_Inr intro!: filter_update_less)

declare dir_loop.simps [simp del]

definition dir_array :: "room \<Rightarrow> strv \<Rightarrow> byte list \<Rightarrow> strv res" where
  "dir_array M array dir =
     (if \<not> M (length dir + 1) then Inl Null_Deref
      else dir_loop M (dir @ [0]) 0 0 array)"

section \<open>Environment files\<close>

text \<open>
  \<open>fgets(buffer, n, f)\<close> on the bytes that are left: at most \<open>n - 1\<close> bytes, up to and with the
  first newline.
\<close>

definition fgets :: "nat \<Rightarrow> byte list \<Rightarrow> (byte list \<times> byte list) option" where
  "fgets n input =
     (if input = [] then None
      else let line = takeWhile (\<lambda>b. b \<noteq> 10) (take (n - 1) input);
               k = (if length line < n - 1 \<and> length line < length input then length line + 1 else length line)
           in Some (take k input, drop k input))"

text \<open>The characters of \<open>%1023[A-z0-9/:_=" -]\<close>.\<close>

definition env_char :: "byte \<Rightarrow> bool" where
  "env_char b \<longleftrightarrow> (65 \<le> b \<and> b \<le> 122) \<or> (48 \<le> b \<and> b \<le> 57) \<or> b \<in> {47, 58, 95, 61, 34, 32, 45}"

text \<open>
  \<open>sscanf\<close> of one line: \<open>None\<close> for a matching failure (0). An empty string gives EOF, which is not
  0, so the cleared \<open>line\<close> is pushed.
\<close>

definition env_scan :: "byte list \<Rightarrow> byte list option" where
  "env_scan buffer =
     (if buffer = [] then Some []
      else let line = take 1023 (takeWhile env_char buffer) in if line = [] then None else Some line)"

lemma fgets_shrinks: "fgets n input = Some (line, rest) \<Longrightarrow> 2 \<le> n \<Longrightarrow> length rest < length input"
  by (cases input) (auto simp: fgets_def Let_def take_Cons' split: if_splits)

function env_loop :: "room \<Rightarrow> byte list \<Rightarrow> strv \<Rightarrow> strv res" where
  "env_loop M input array =
     (case fgets MAX_BUFFER input of
        None \<Rightarrow> Inr array
      | Some (line, rest) \<Rightarrow>
          (case env_scan (takeWhile (\<lambda>b. b \<noteq> 0) line) of
             None \<Rightarrow> env_loop M rest array
           | Some s \<Rightarrow> bind_res (array_push M array s) (\<lambda>array'. env_loop M rest array')))"
  by pat_completeness auto
termination
  by (relation "measure (\<lambda>(M, input, a). length input)") (auto simp: MAX_BUFFER_def dest!: fgets_shrinks)

declare env_loop.simps [simp del]

text \<open>\<open>file\<close> is \<open>None\<close> when the file cannot be opened; then the result is NULL, not the array.\<close>

definition env_array :: "room \<Rightarrow> strv \<Rightarrow> byte list option \<Rightarrow> strv res" where
  "env_array M array input = (case input of None \<Rightarrow> Inr None | Some bytes \<Rightarrow> env_loop M bytes array)"

section \<open>Legal names\<close>

text \<open>\<open>isalnum\<close> in the C locale, which the programs never leave.\<close>

definition isdigit :: "byte \<Rightarrow> bool" where
  "isdigit b \<longleftrightarrow> 48 \<le> b \<and> b \<le> 57"

definition isalnum :: "byte \<Rightarrow> bool" where
  "isalnum b \<longleftrightarrow> isdigit b \<or> (65 \<le> b \<and> b \<le> 90) \<or> (97 \<le> b \<and> b \<le> 122)"

definition name_char :: "c_int \<Rightarrow> byte \<Rightarrow> bool" where
  "name_char l b \<longleftrightarrow> isalnum b \<or> b = 95 \<or> b = 46 \<and> l \<noteq> 46"

definition string_char :: "c_int \<Rightarrow> byte \<Rightarrow> bool" where
  "string_char l b \<longleftrightarrow> isalnum b \<or> b = 95 \<or> b = 45 \<or> b = 46 \<and> l \<noteq> 46 \<or> b = 32 \<and> l \<noteq> 32"

text \<open>
  The loop of both filters over the next \<open>n\<close> bytes. \<open>c\<close> is reset after every round but never
  set before the first one, so in the first round it holds what was on the stack.
\<close>

fun legal_loop ::
  "(c_int \<Rightarrow> byte \<Rightarrow> bool) \<Rightarrow> byte list \<Rightarrow> nat \<Rightarrow> nat \<Rightarrow> c_int \<Rightarrow> c_int \<Rightarrow> byte list \<Rightarrow> byte list res" where
  "legal_loop ok name i 0 c l new_name = Inr new_name"
| "legal_loop ok name i (Suc n) c l new_name =
     bind_res (get_byte name i) (\<lambda>b.
       if ok l b then legal_loop ok name (i + 1) n 0 (scast b) (new_name @ [b])
       else if b = 0 then Inr new_name
       else if c \<noteq> 0 then legal_loop ok name (i + 1) n 0 c (new_name @ [ucast c])
       else legal_loop ok name (i + 1) n 0 l new_name)"

definition legalize ::
  "(c_int \<Rightarrow> byte \<Rightarrow> bool) \<Rightarrow> room \<Rightarrow> c_int \<Rightarrow> byte list \<Rightarrow> nat \<Rightarrow> byte list option res" where
  "legalize ok M stack name len =
     (if \<not> M len then Inr None
      else bind_res (legal_loop ok name 0 len stack 0 []) (\<lambda>new_name.
        if len \<le> length name
        then Inr (Some (new_name @ replicate (len - length new_name) 0 @ drop len name))
        else Inl Out_Of_Bounds))"

text \<open>\<open>None\<close> is the NULL of a failed \<open>malloc\<close>, otherwise the new contents of the buffer.\<close>

definition legal_name :: "room \<Rightarrow> c_int \<Rightarrow> byte list \<Rightarrow> nat \<Rightarrow> byte list option res" where
  "legal_name = legalize name_char"

definition legal_string :: "room \<Rightarrow> c_int \<Rightarrow> byte list \<Rightarrow> nat \<Rightarrow> byte list option res" where
  "legal_string = legalize string_char"

section \<open>Byte order\<close>

text \<open>The loop of \<open>swap\<close>: \<open>a\<close> and \<open>b\<close> as offsets, both moved before the next test.\<close>

function swap_loop :: "byte list \<Rightarrow> nat \<Rightarrow> nat \<Rightarrow> byte list res" where
  "swap_loop bs a b =
     (if a < b
      then bind_res (get_byte bs a) (\<lambda>tmp.
        bind_res (get_byte bs (b - 1)) (\<lambda>x.
          swap_loop (bs[a := x, b - 1 := tmp]) (a + 1) (b - 1)))
      else Inr bs)"
  by pat_completeness auto
termination
  by (relation "measure (\<lambda>(bs, a, b). b - a)") auto

declare swap_loop.simps [simp del]

definition swap :: "byte list \<Rightarrow> nat \<Rightarrow> byte list res" where
  "swap src len = swap_loop src 0 len"

section \<open>Output\<close>

record suva_config =
  log_level :: c_int
  log_facility :: c_int
  cfg_flags :: c_uint

abbreviation SCF_DEBUG :: c_uint where "SCF_DEBUG \<equiv> 0x004"
abbreviation SCF_SUVAD :: c_uint where "SCF_SUVAD \<equiv> 0x010"
abbreviation SCF_SUVLET :: c_uint where "SCF_SUVLET \<equiv> 0x100"
abbreviation SCF_QUIET :: c_uint where "SCF_QUIET \<equiv> 0x200"

definition has_flag :: "suva_config \<Rightarrow> c_uint \<Rightarrow> bool" where
  "has_flag cfg f \<longleftrightarrow> cfg_flags cfg AND f \<noteq> 0"

datatype effect =
    Stdout "byte list"
  | Stderr "byte list"
  | Log_File "byte list" "byte list"  \<comment> \<open>the path and what is appended\<close>
  | Syslog c_int "byte list"

fun dec :: "nat \<Rightarrow> byte list" where
  "dec n = (if n < 10 then [of_nat (48 + n)] else dec (n div 10) @ [of_nat (48 + n mod 10)])"

declare dec.simps [simp del]

definition append_log :: "(byte list \<Rightarrow> bool) \<Rightarrow> byte list \<Rightarrow> byte list \<Rightarrow> effect list" where
  "append_log can_open log text =
     (if can_open log then [Log_File log text, Log_File log [10]] else [])"

text \<open>
  \<open>output\<close>: \<open>msg\<close> is the formatted message; the result is what is written and the static
  \<open>output_buffer\<close> afterwards.
\<close>

definition suva_output ::
  "suva_config \<Rightarrow> nat \<Rightarrow> (byte list \<Rightarrow> bool) \<Rightarrow> c_int \<Rightarrow> byte list \<Rightarrow> byte list \<Rightarrow> effect list \<times> byte list" where
  "suva_output cfg pid can_open level msg buffer =
     (if log_level cfg <s level \<and> level \<noteq> 100 \<and> level \<noteq> 1024 then ([], buffer)
      else let text = take (MAX_BUFFER - 1) msg;
               buffer' = text @ 0 # drop (length text + 1) buffer
           in (if level <s 0 \<and> \<not> has_flag cfg SCF_SUVLET then [Stdout (text @ [10])]
               else if level = 100 then append_log can_open (str ''/tmp/suva-debug.'' @ dec pid) text
               else if level = 1024 \<and> \<not> has_flag cfg SCF_SUVLET
                    then if has_flag cfg SCF_QUIET then [] else [Stdout (text @ [10])]
               else if has_flag cfg SCF_DEBUG
                    then if has_flag cfg SCF_SUVAD
                         then [Stderr (str ''['' @ dec pid @ str ''] '' @ text @ [10])]
                         else [Stderr (text @ [10])]
               else if has_flag cfg SCF_SUVLET then append_log can_open (str ''/tmp/suvlet.'' @ dec pid) text
               else [Syslog (log_facility cfg) text], buffer'))"

text \<open>\<open>get_output\<close> cuts the buffer at the first newline: the string and the buffer.\<close>

definition get_output :: "byte list \<Rightarrow> (byte list \<times> byte list) res" where
  "get_output buffer =
     (let k = length (takeWhile (\<lambda>b. b \<noteq> 10) (take (MAX_BUFFER - 1) buffer));
          buffer' = (if k < min (MAX_BUFFER - 1) (length buffer) then buffer[k := 0] else buffer)
      in bind_res (c_str buffer') (\<lambda>s. Inr (s, buffer')))"

section \<open>Users and groups\<close>

record passwd =
  pw_uid :: c_uint
  pw_gid :: c_uint

text \<open>\<open>atoi\<close> of a string that starts with a digit: \<open>strtol\<close> saturates, the cast to \<open>int\<close> wraps.\<close>

definition atoi :: "byte list \<Rightarrow> c_int" where
  "atoi s = of_nat (min (2 ^ 63 - 1) (foldl (\<lambda>n b. 10 * n + unat (b - 48)) 0 (takeWhile isdigit s)))"

definition starts_digit :: "byte list \<Rightarrow> bool" where
  "starts_digit s \<longleftrightarrow> (case s of [] \<Rightarrow> False | b # _ \<Rightarrow> isdigit b)"

definition get_pw ::
  "(c_uint \<Rightarrow> passwd option) \<Rightarrow> (byte list \<Rightarrow> passwd option) \<Rightarrow> byte list \<Rightarrow> passwd option" where
  "get_pw getpwuid getpwnam name =
     (case (if starts_digit name then getpwuid (atoi name) else None) of
        Some p \<Rightarrow> Some p | None \<Rightarrow> getpwnam name)"

definition get_uid ::
  "(c_uint \<Rightarrow> passwd option) \<Rightarrow> (byte list \<Rightarrow> passwd option) \<Rightarrow> byte list option \<Rightarrow> c_uint" where
  "get_uid getpwuid getpwnam user_id =
     (case user_id of None \<Rightarrow> -1
      | Some name \<Rightarrow> (case get_pw getpwuid getpwnam name of None \<Rightarrow> -1 | Some p \<Rightarrow> pw_uid p))"

text \<open>\<open>getgrgid\<close> and \<open>getgrnam\<close> give the identifier of the group they find.\<close>

definition get_gid ::
  "(c_uint \<Rightarrow> passwd option) \<Rightarrow> (byte list \<Rightarrow> passwd option) \<Rightarrow>
   (c_uint \<Rightarrow> c_uint option) \<Rightarrow> (byte list \<Rightarrow> c_uint option) \<Rightarrow> byte list option \<Rightarrow> c_uint" where
  "get_gid getpwuid getpwnam getgrgid getgrnam group_id =
     (case group_id of None \<Rightarrow> -1
      | Some name \<Rightarrow>
          (case get_pw getpwuid getpwnam name of None \<Rightarrow> -1
           | Some p \<Rightarrow>
               (case (case (if starts_digit name then getgrgid (atoi name) else None) of
                        Some g \<Rightarrow> Some g | None \<Rightarrow> getgrnam name) of
                  None \<Rightarrow> -1
                | Some g \<Rightarrow> if pw_gid p \<noteq> g then -1 else pw_gid p)))"

section \<open>Lock files\<close>

text \<open>The lock files by the process identifier in their name, each with the process that has a write lock on it.\<close>

record lock_file =
  lf_data :: "byte list"
  lf_holder :: "c_int option"

type_synonym lock_dir = "c_int \<rightharpoonup> lock_file"

text \<open>
  \<open>pid_lock\<close>, called by the process \<open>self\<close>; \<open>open_ok\<close> and \<open>written\<close> are the results of \<open>open\<close> and
  \<open>write\<close>. \<open>True\<close> stands for the descriptor, \<open>False\<close> for \<open>-1\<close>. \<open>open\<close> truncates the file
  before the lock is tried, and every failure after it unlinks the file.
\<close>

definition pid_lock :: "c_int \<Rightarrow> bool \<Rightarrow> nat \<Rightarrow> lock_dir \<Rightarrow> c_int \<Rightarrow> bool \<times> lock_dir" where
  "pid_lock self open_ok written dir pid =
     (if \<not> open_ok then (False, dir)
      else let holder = (case dir pid of None \<Rightarrow> None | Some f \<Rightarrow> lf_holder f)
           in if holder \<noteq> None \<and> holder \<noteq> Some self then (False, dir(pid := None))
              else if written \<noteq> 4 then (False, dir(pid := None))
              else (True, dir(pid \<mapsto> \<lparr>lf_data = le4 pid, lf_holder = Some self\<rparr>)))"

definition pid_unlock :: "lock_dir \<Rightarrow> c_int \<Rightarrow> lock_dir" where
  "pid_unlock dir pid = dir(pid := None)"

abbreviation PID_RUN :: int where "PID_RUN \<equiv> 0"
abbreviation PID_STALE :: int where "PID_STALE \<equiv> 1"

text \<open>
  \<open>pid_status\<close>: \<open>F_GETLK\<close> reports the lock of another process and leaves \<open>l_pid\<close> at 0
  otherwise. \<open>close\<close> gives up the locks the process itself has on the file.
\<close>

definition pid_status :: "c_int \<Rightarrow> bool \<Rightarrow> bool \<Rightarrow> bool \<Rightarrow> lock_dir \<Rightarrow> c_int \<Rightarrow> int \<times> lock_dir" where
  "pid_status self open_ok getlk_ok stat_ok dir pid =
     (case dir pid of
        None \<Rightarrow> (PID_STALE, dir)
      | Some f \<Rightarrow>
          if \<not> open_ok then (-1, dir)
          else let l_pid = (if getlk_ok then case lf_holder f of None \<Rightarrow> 0 | Some h \<Rightarrow> if h = self then 0 else h else 0);
                   dir' = (if lf_holder f = Some self then dir(pid \<mapsto> f\<lparr>lf_holder := None\<rparr>) else dir)
               in if \<not> stat_ok then (-1, dir') else if l_pid \<noteq> 0 then (PID_RUN, dir') else (PID_STALE, dir'))"

end
