(* ===== verification/Sutil_Props.thy ===== *)
theory Sutil_Props
  imports Sutil
begin

text \<open>
  Properties of the routines of sutil.c: what the parsers of command lines, directories and
  environment files return, what the name filter leaves, the byte swapper, the routing of
  messages, group lookup and lock files.
\<close>

unbundle bit_operations_syntax

section \<open>Lemmas\<close>

lemma get_byte_mid [simp]: "get_byte (pre @ b # rest) (length pre) = Inr b"
  by (simp add: get_byte_def)

lemma get_byte_mid2: "length pre = n \<Longrightarrow> get_byte (pre @ b # rest) n = Inr b"
  by auto

lemma put_byte_mid: "length pre = n \<Longrightarrow> put_byte (pre @ b # rest) n x = Inr (pre @ x # rest)"
  by (auto simp: put_byte_def)

lemma elems_Some [simp]: "elems (Some xs) = xs" and elems_None [simp]: "elems None = []"
  by (simp_all add: elems_def)

definition roomy :: room where "roomy n = True"

lemma array_push_roomy [simp]: "array_push roomy array s = Inr (Some (elems array @ [s]))"
  by (simp add: array_push_def Let_def roomy_def)

subsection \<open>Splitting a line\<close>

lemma arg_advance:
  "get_byte buf start = Inr s \<Longrightarrow> s \<notin> {0, 32, 34} \<Longrightarrow> get_byte buf stop = Inr e \<Longrightarrow>
   \<not> (((e = 32 \<or> e = 0) \<and> \<not> q) \<or> (e = 34 \<and> q)) \<Longrightarrow>
   arg_loop M buf start stop q array = arg_loop M buf start (stop + 1) q array"
  by (subst arg_loop.simps) auto

lemma arg_close:
  "get_byte buf start = Inr s \<Longrightarrow> s \<notin> {0, 32, 34} \<Longrightarrow> get_byte buf stop = Inr (if q then 34 else 32) \<Longrightarrow>
   put_byte buf stop 0 = Inr buf' \<Longrightarrow> c_str (drop start buf') = Inr t \<Longrightarrow>
   arg_loop M buf start stop q array =
     bind_res (array_push M array t) (\<lambda>a. arg_loop M buf' (stop + 1) (stop + 1) False a)"
  by (subst arg_loop.simps) auto

text \<open>The scan of \<open>arg_end\<close> over a token, up to the byte \<open>d\<close> that ends it.\<close>

lemma arg_scan:
  assumes t: "t = t1 @ t2" "t \<noteq> []" "hd t \<notin> {0, 32, 34}"
    and ends: "\<forall>b \<in> set t. \<not> (((b = 32 \<or> b = 0) \<and> \<not> q) \<or> (b = 34 \<and> q))"
  shows "arg_loop M (pre @ t @ d # rest) (length pre) (length pre + length t1) q array =
    arg_loop M (pre @ t @ d # rest) (length pre) (length pre + length t) q array"
  using t(1)
proof (induction t2 arbitrary: t1)
  case Nil
  then show ?case by simp
next
  case (Cons b t2)
  obtain h t' where h: "t = h # t'" using t(2) by (cases t) auto
  have "get_byte (pre @ t @ d # rest) (length pre) = Inr h" by (simp add: h)
  moreover have "get_byte (pre @ t @ d # rest) (length pre + length t1) = Inr b"
    unfolding Cons.prems using get_byte_mid2 [of "pre @ t1"] by simp
  moreover have "b \<in> set t" using Cons.prems by simp
  then have "\<not> (((b = 32 \<or> b = 0) \<and> \<not> q) \<or> (b = 34 \<and> q))" using ends by blast
  moreover from h t(3) have "h \<notin> {0, 32, 34}" by simp
  ultimately have "arg_loop M (pre @ t @ d # rest) (length pre) (length pre + length t1) q array =
      arg_loop M (pre @ t @ d # rest) (length pre) (length pre + length t1 + 1) q array"
    by (intro arg_advance)
  with Cons.IH [of "t1 @ [b]"] Cons.prems show ?case by simp
qed

text \<open>A token that is ended by a byte of the line is pushed, and the loop goes on behind it.\<close>

lemma arg_token:
  assumes t: "t \<noteq> []" "hd t \<notin> {0, 32, 34}" "0 \<notin> set t"
    and ends: "\<forall>b \<in> set t. \<not> ((b = 32 \<and> \<not> q) \<or> (b = 34 \<and> q))" and d: "d = (if q then 34 else 32)"
  shows "arg_loop M (pre @ t @ d # rest) (length pre) (length pre) q array =
    bind_res (array_push M array t) (\<lambda>a.
      arg_loop M (pre @ t @ 0 # rest) (length (pre @ t @ [0])) (length (pre @ t @ [0])) False a)"
proof -
  have ends': "\<forall>b \<in> set t. \<not> (((b = 32 \<or> b = 0) \<and> \<not> q) \<or> (b = 34 \<and> q))"
    using ends t(3) by auto
  obtain h t' where h: "t = h # t'" using t(1) by (cases t) auto
  have 1: "get_byte (pre @ t @ d # rest) (length pre) = Inr h" by (simp add: h)
  have 2: "get_byte (pre @ t @ d # rest) (length pre + length t) = Inr d"
    using get_byte_mid2 [of "pre @ t"] by simp
  have 3: "put_byte (pre @ t @ d # rest) (length pre + length t) 0 = Inr (pre @ t @ 0 # rest)"
    using put_byte_mid [of "pre @ t"] by simp
  have 4: "c_str (drop (length pre) (pre @ t @ 0 # rest)) = Inr t" using t(3) by simp
  from h t(2) have h': "h \<notin> {0, 32, 34}" by simp
  have "arg_loop M (pre @ t @ d # rest) (length pre) (length pre + length t) q array =
      bind_res (array_push M array t) (\<lambda>a.
        arg_loop M (pre @ t @ 0 # rest) (length pre + length t + 1) (length pre + length t + 1) False a)"
    by (rule arg_close [OF 1 h' _ 3 4]) (use 2 in \<open>simp only: d\<close>)
  with arg_scan [of t "[]" t q M pre d rest array, OF _ t(1,2) ends'] show ?thesis by simp
qed

lemma arg_last:
  assumes t: "t \<noteq> []" "hd t \<notin> {0, 32, 34}" "0 \<notin> set t" "32 \<notin> set t"
  shows "arg_loop M (pre @ t @ [0]) (length pre) (length pre) False array = array_push M array t"
proof -
  have ends': "\<forall>b \<in> set t. \<not> (((b = 32 \<or> b = 0) \<and> \<not> False) \<or> (b = 34 \<and> False))"
    using t by auto
  obtain h t' where h: "t = h # t'" using t(1) by (cases t) auto
  have 1: "get_byte (pre @ t @ [0]) (length pre) = Inr h" by (simp add: h)
  have 2: "get_byte (pre @ t @ [0]) (length pre + length t) = Inr 0"
    using get_byte_mid2 [of "pre @ t" _ 0 "[]"] by simp
  have 4: "c_str (drop (length pre) (pre @ t @ [0])) = Inr t" using t(3) by simp
  from h t(2) have "h \<noteq> 0" "h \<noteq> 32" "h \<noteq> 34" by auto
  then have "arg_loop M (pre @ t @ [0]) (length pre) (length pre + length t) False array = array_push M array t"
    by (subst arg_loop.simps) (simp add: 1 2 4 del: drop_append append_assoc)
  with arg_scan [of t "[]" t False M pre 0 "[]" array, OF _ t(1,2) ends'] show ?thesis by simp
qed

lemma arg_blank:
  "arg_loop M (pre @ 32 # rest) (length pre) (length pre) q array =
   arg_loop M (pre @ 32 # rest) (length (pre @ [32])) (length (pre @ [32])) q array"
  by (subst arg_loop.simps) simp

lemma arg_quote:
  "arg_loop M (pre @ 34 # rest) (length pre) (length pre) q array =
   arg_loop M (pre @ 34 # rest) (length (pre @ [34])) (length (pre @ [34])) True array"
  by (subst arg_loop.simps) simp

lemma arg_end: "arg_loop M (pre @ [0]) (length pre) (length pre) q array = Inr array"
  by (subst arg_loop.simps) simp

text \<open>A command line as a list of arguments, and its text.\<close>

datatype arg = Bare "byte list" | Quoted "byte list"

fun arg_text :: "arg \<Rightarrow> byte list" where
  "arg_text (Bare t) = t"
| "arg_text (Quoted t) = t"

text \<open>
  What \<open>arg_array\<close> can carry: an argument is not empty and starts with neither a blank nor a
  quote; a bare one has no blanks, a quoted one no quotes.
\<close>

fun arg_ok :: "arg \<Rightarrow> bool" where
  "arg_ok (Bare t) \<longleftrightarrow> t \<noteq> [] \<and> hd t \<noteq> 34 \<and> 0 \<notin> set t \<and> 32 \<notin> set t"
| "arg_ok (Quoted t) \<longleftrightarrow> t \<noteq> [] \<and> hd t \<noteq> 32 \<and> 0 \<notin> set t \<and> 34 \<notin> set t"

fun show_arg :: "arg \<Rightarrow> byte list" where
  "show_arg (Bare t) = t"
| "show_arg (Quoted t) = 34 # t @ [34]"

fun show_args :: "arg list \<Rightarrow> byte list" where
  "show_args [] = []"
| "show_args [x] = show_arg x"
| "show_args (x # xs) = show_arg x @ 32 # show_args xs"

lemma arg_loop_show:
  "\<forall>x \<in> set xs. arg_ok x \<Longrightarrow>
   arg_loop roomy (pre @ show_args xs @ [0]) (length pre) (length pre) False array =
     Inr (if xs = [] then array else Some (elems array @ map arg_text xs))"
proof (induction xs arbitrary: pre array rule: show_args.induct)
  case 1
  then show ?case by (simp add: arg_end)
next
  case (2 x)
  show ?case
  proof (cases x)
    case (Bare t)
    with 2 have "t \<noteq> []" "hd t \<notin> {0, 32, 34}" "0 \<notin> set t" "32 \<notin> set t" by (auto dest: hd_in_set)
    from arg_last [OF this] show ?thesis by (simp add: Bare)
  next
    case (Quoted t)
    with 2 have t: "t \<noteq> []" "hd t \<notin> {0, 32, 34}" "0 \<notin> set t"
      "\<forall>b \<in> set t. \<not> ((b = 32 \<and> \<not> True) \<or> (b = 34 \<and> True))" by (auto dest: hd_in_set)
    have "arg_loop roomy (pre @ show_args [x] @ [0]) (length pre) (length pre) False array =
        arg_loop roomy ((pre @ [34]) @ t @ 34 # [0]) (length (pre @ [34])) (length (pre @ [34])) True array"
      using arg_quote [of roomy pre "t @ [34, 0]" False array] by (simp add: Quoted)
    also have "\<dots> = Inr (Some (elems array @ [t]))"
      by (subst arg_token [OF t]) (use arg_end [of roomy "pre @ 34 # t @ [0]" False] in simp_all)
    finally show ?thesis by (simp add: Quoted)
  qed
next
  case (3 x y ys)
  let ?rest = "show_args (y # ys) @ [0]"
  have IH: "arg_loop roomy (p @ ?rest) (length p) (length p) False a =
      Inr (Some (elems a @ map arg_text (y # ys)))" for p a
    using 3 by simp
  show ?case
  proof (cases x)
    case (Bare t)
    with 3 have t: "t \<noteq> []" "hd t \<notin> {0, 32, 34}" "0 \<notin> set t"
      "\<forall>b \<in> set t. \<not> ((b = 32 \<and> \<not> False) \<or> (b = 34 \<and> False))" by (auto dest: hd_in_set)
    have "arg_loop roomy (pre @ t @ 32 # ?rest) (length pre) (length pre) False array =
        Inr (Some (elems array @ t # map arg_text (y # ys)))"
      by (subst arg_token [OF t]) (use IH [of "pre @ t @ [0]"] in simp_all)
    then show ?thesis by (simp add: Bare)
  next
    case (Quoted t)
    with 3 have t: "t \<noteq> []" "hd t \<notin> {0, 32, 34}" "0 \<notin> set t"
      "\<forall>b \<in> set t. \<not> ((b = 32 \<and> \<not> True) \<or> (b = 34 \<and> True))" by (auto dest: hd_in_set)
    have "arg_loop roomy (pre @ 34 # t @ 34 # 32 # ?rest) (length pre) (length pre) False array =
        arg_loop roomy ((pre @ [34]) @ t @ 34 # 32 # ?rest) (length (pre @ [34])) (length (pre @ [34])) True array"
      using arg_quote [of roomy pre "t @ 34 # 32 # ?rest" False array] by simp
    also have "\<dots> = arg_loop roomy ((pre @ 34 # t @ [0]) @ 32 # ?rest) (length (pre @ 34 # t @ [0]))
        (length (pre @ 34 # t @ [0])) False (Some (elems array @ [t]))"
      by (subst arg_token [OF t]) simp_all
    also have "\<dots> = Inr (Some (elems array @ t # map arg_text (y # ys)))"
      unfolding arg_blank using IH [of "pre @ 34 # t @ [0, 32]"] by simp
    finally show ?thesis by (simp add: Quoted)
  qed
qed

subsection \<open>Dotted directories\<close>

lemma slash_cat_fits:
  assumes "length t \<le> 511"
  shows "slash_cat t = Inr (47 # t)"
proof -
  have "unat ((1024 :: 64 word) - of_nat (length t) - 2) = 1022 - length t"
  proof -
    have "(1024 :: 64 word) - of_nat (length t) - 2 = of_nat (1022 - length t)"
      using assms by (simp add: of_nat_diff)
    then show ?thesis by (simp add: unat_of_nat)
  qed
  with assms show ?thesis by (simp add: slash_cat_def Let_def MAX_BUFFER_def)
qed

lemma slash_cat_overflow:
  assumes "1023 \<le> length t" "length t < 2 ^ 63"
  shows "slash_cat t = Inl Out_Of_Bounds"
proof -
  have "unat ((1024 :: 64 word) - of_nat (length t) - 2) \<ge> length t"
  proof -
    have "uint ((1024 :: 64 word) - of_nat (length t) - 2) = (1022 - int (length t)) mod 2 ^ 64"
    proof -
      have "(1024 :: 64 word) - of_nat (length t) - 2 = word_of_int (1022 - int (length t))"
        by (simp add: algebra_simps)
      then show ?thesis by (simp only: uint_word_of_int) simp
    qed
    also have "\<dots> = 1022 - int (length t) + 2 ^ 64"
    proof -
      have "(1022 - int (length t)) mod 2 ^ 64 = (1022 - int (length t) + 2 ^ 64) mod 2 ^ 64"
        by (rule mod_add_self2 [symmetric])
      also have "\<dots> = 1022 - int (length t) + 2 ^ 64"
        using assms by (intro mod_pos_pos_trivial) auto
      finally show ?thesis .
    qed
    finally show ?thesis using assms by (simp add: unat_eq_nat_uint)
  qed
  with assms show ?thesis by (simp add: slash_cat_def Let_def MAX_BUFFER_def)
qed

lemma dir_advance:
  "get_byte buf start = Inr s \<Longrightarrow> s \<notin> {0, 32} \<Longrightarrow> get_byte buf stop = Inr e \<Longrightarrow> e \<notin> {0, 46} \<Longrightarrow>
   dir_loop M buf start stop array = dir_loop M buf start (stop + 1) array"
  by (subst dir_loop.simps) auto

lemma dir_close:
  "get_byte buf start = Inr s \<Longrightarrow> s \<notin> {0, 32} \<Longrightarrow> get_byte buf stop = Inr 46 \<Longrightarrow>
   put_byte buf stop 0 = Inr buf' \<Longrightarrow> c_str (drop start buf') = Inr t \<Longrightarrow> slash_cat t = Inr u \<Longrightarrow>
   dir_loop M buf start stop array =
     bind_res (array_push M array u) (\<lambda>a. dir_loop M buf' (stop + 1) (stop + 1) a)"
  by (subst dir_loop.simps) auto

lemma dir_scan:
  assumes t: "t = t1 @ t2" "t \<noteq> []" "hd t \<noteq> 32" and ends: "0 \<notin> set t" "46 \<notin> set t"
  shows "dir_loop M (pre @ t @ d # rest) (length pre) (length pre + length t1) array =
    dir_loop M (pre @ t @ d # rest) (length pre) (length pre + length t) array"
  using t(1)
proof (induction t2 arbitrary: t1)
  case Nil
  then show ?case by simp
next
  case (Cons b t2)
  obtain h t' where h: "t = h # t'" using t(2) by (cases t) auto
  have "get_byte (pre @ t @ d # rest) (length pre) = Inr h" by (simp add: h)
  moreover have "get_byte (pre @ t @ d # rest) (length pre + length t1) = Inr b"
    unfolding Cons.prems using get_byte_mid2 [of "pre @ t1"] by simp
  moreover have "b \<in> set t" using Cons.prems by simp
  then have "b \<notin> {0, 46}" using ends by auto
  moreover from h t(3) ends have "h \<notin> {0, 32}" by auto
  ultimately have "dir_loop M (pre @ t @ d # rest) (length pre) (length pre + length t1) array =
      dir_loop M (pre @ t @ d # rest) (length pre) (length pre + length t1 + 1) array"
    by (intro dir_advance)
  with Cons.IH [of "t1 @ [b]"] Cons.prems show ?case by simp
qed

text \<open>A component \<open>dir_array\<close> can carry.\<close>

definition dir_ok :: "byte list \<Rightarrow> bool" where
  "dir_ok t \<longleftrightarrow> t \<noteq> [] \<and> hd t \<noteq> 32 \<and> 0 \<notin> set t \<and> 46 \<notin> set t \<and> length t \<le> 511"

fun show_dirs :: "byte list list \<Rightarrow> byte list" where
  "show_dirs [] = []"
| "show_dirs [t] = t"
| "show_dirs (t # ts) = t @ 46 # show_dirs ts"

lemma dir_loop_show:
  "\<forall>t \<in> set ts. dir_ok t \<Longrightarrow>
   dir_loop roomy (pre @ show_dirs ts @ [0]) (length pre) (length pre) array =
     Inr (if ts = [] then array else Some (elems array @ map ((#) 47) ts))"
proof (induction ts arbitrary: pre array rule: show_dirs.induct)
  case 1
  show ?case by (subst dir_loop.simps) simp
next
  case (2 t)
  then have t: "t \<noteq> []" "hd t \<noteq> 32" "0 \<notin> set t" "46 \<notin> set t" "length t \<le> 511" by (simp_all add: dir_ok_def)
  obtain h t' where h: "t = h # t'" using t(1) by (cases t) auto
  have 1: "get_byte (pre @ t @ [0]) (length pre) = Inr h" by (simp add: h)
  have 2: "get_byte (pre @ t @ [0]) (length pre + length t) = Inr 0"
    using get_byte_mid2 [of "pre @ t" _ 0 "[]"] by simp
  have 3: "c_str (drop (length pre) (pre @ t @ [0])) = Inr t" using t(3) by simp
  from h t have "h \<noteq> 0" "h \<noteq> 32" by auto
  then have "dir_loop roomy (pre @ t @ [0]) (length pre) (length pre + length t) array =
      Inr (Some (elems array @ [47 # t]))"
    by (subst dir_loop.simps) (simp add: 1 2 3 slash_cat_fits [OF t(5)] del: drop_append append_assoc)
  with dir_scan [of t "[]" t roomy pre 0 "[]" array, OF _ t(1,2,3,4)] show ?case by simp
next
  case (3 t u us)
  then have t: "t \<noteq> []" "hd t \<noteq> 32" "0 \<notin> set t" "46 \<notin> set t" "length t \<le> 511" by (simp_all add: dir_ok_def)
  let ?rest = "show_dirs (u # us) @ [0]"
  obtain h t' where h: "t = h # t'" using t(1) by (cases t) auto
  have 1: "get_byte (pre @ t @ 46 # ?rest) (length pre) = Inr h" by (simp add: h)
  have 2: "get_byte (pre @ t @ 46 # ?rest) (length pre + length t) = Inr 46"
    using get_byte_mid2 [of "pre @ t"] by simp
  have 4: "put_byte (pre @ t @ 46 # ?rest) (length pre + length t) 0 = Inr (pre @ t @ 0 # ?rest)"
    using put_byte_mid [of "pre @ t"] by simp
  have 5: "c_str (drop (length pre) (pre @ t @ 0 # ?rest)) = Inr t" using t(3) by simp
  from h t have "h \<notin> {0, 32}" by auto
  from dir_close [OF 1 this 2 4 5 slash_cat_fits [OF t(5)]]
  have "dir_loop roomy (pre @ t @ 46 # ?rest) (length pre) (length pre + length t) array =
      dir_loop roomy ((pre @ t @ [0]) @ ?rest) (length (pre @ t @ [0])) (length (pre @ t @ [0]))
        (Some (elems array @ [47 # t]))" by simp
  also have "\<dots> = Inr (Some (elems array @ (47 # t) # map ((#) 47) (u # us)))"
    using 3 by (subst "3.IH") simp_all
  finally show ?case
    using dir_scan [of t "[]" t roomy pre 46 ?rest array, OF _ t(1,2,3,4)] by simp
qed

subsection \<open>Legal names\<close>

text \<open>What both filters do to the text of a name: characters that are not legal go.\<close>

fun sanitize :: "(c_int \<Rightarrow> byte \<Rightarrow> bool) \<Rightarrow> c_int \<Rightarrow> byte list \<Rightarrow> byte list" where
  "sanitize ok l [] = []"
| "sanitize ok l (b # bs) = (if ok l b then b # sanitize ok (scast b) bs else sanitize ok l bs)"

lemma length_sanitize: "length (sanitize ok l bs) \<le> length bs"
  by (induction ok l bs rule: sanitize.induct) auto

lemma legal_loop_sanitize:
  assumes "i + n \<le> length name" and "\<And>l. \<not> ok l 0"
  shows "legal_loop ok name i n 0 l new =
    Inr (new @ sanitize ok l (takeWhile (\<lambda>b. b \<noteq> 0) (take n (drop i name))))"
  using assms(1)
proof (induction n arbitrary: i l new)
  case 0
  then show ?case by simp
next
  case (Suc n)
  then have i: "i < length name" by simp
  then have "take (Suc n) (drop i name) = name ! i # take n (drop (Suc i) name)"
    by (simp flip: Cons_nth_drop_Suc)
  with Suc i assms(2) show ?case
    by (auto simp: get_byte_def)
qed

lemma name_char_0 [simp]: "\<not> name_char l 0" and string_char_0 [simp]: "\<not> string_char l 0"
  by (simp_all add: name_char_def string_char_def isalnum_def isdigit_def)

lemma sanitize_idem: "sanitize ok l (sanitize ok l bs) = sanitize ok l bs"
  by (induction ok l bs rule: sanitize.induct) auto

lemma sanitize_set: "b \<in> set (sanitize ok l bs) \<Longrightarrow> b \<in> set bs \<and> (\<exists>l. ok l b)"
  by (induction ok l bs rule: sanitize.induct) (auto split: if_splits)

lemma scast_46: "(scast b :: c_int) = 46 \<longleftrightarrow> b = (46 :: byte)"
proof
  assume "(scast b :: c_int) = 46"
  then have "sint b = sint (46 :: byte)" using sint_up_scast [where 'b = 32, of b] by (simp add: is_up)
  then show "b = 46" by (simp only: signed_word_eqI)
qed simp

lemma sanitize_dots:
  assumes "\<And>l b. ok l b \<Longrightarrow> b = 46 \<Longrightarrow> l \<noteq> 46"
  shows "successively (\<lambda>a b. \<not> (a = 46 \<and> b = 46)) (sanitize ok l bs) \<and>
    (l = 46 \<longrightarrow> sanitize ok l bs = [] \<or> hd (sanitize ok l bs) \<noteq> 46)"
proof (induction bs arbitrary: l)
  case (Cons b bs)
  show ?case
  proof (cases "ok l b")
    case True
    with assms [OF True] Cons [of "scast b"] show ?thesis
      by (cases "sanitize ok (scast b) bs") (auto simp: scast_46)
  next
    case False
    with Cons [of l] show ?thesis by auto
  qed
qed simp

subsection \<open>Byte order\<close>

lemma swap_loop_rev:
  "length xs = a \<Longrightarrow> b = a + length ys \<Longrightarrow> swap_loop (xs @ ys @ zs) a b = Inr (xs @ rev ys @ zs)"
proof (induction "length ys" arbitrary: xs ys zs a b rule: less_induct)
  case less
  show ?case
  proof (cases "length ys < 2")
    case True
    then consider "ys = []" | y where "ys = [y]" by (cases ys; cases "tl ys") auto
    then show ?thesis
    proof cases
      case 1
      with less show ?thesis by (simp add: swap_loop.simps)
    next
      case 2
      with less(2,3) have b: "b = Suc a" by simp
      have *: "get_byte (xs @ y # zs) a = Inr y" using less(2) by auto
      have "(xs @ y # zs)[a := y] = xs @ y # zs" using less(2) by auto
      then have "swap_loop (xs @ y # zs) a (Suc a) = swap_loop (xs @ y # zs) (Suc a) a"
        by (subst swap_loop.simps) (simp add: *)
      also have "\<dots> = Inr (xs @ y # zs)" by (simp add: swap_loop.simps)
      finally show ?thesis using 2 b by simp
    qed
  next
    case False
    then obtain h m t where ys: "ys = h # m @ [t]"
      by (cases ys; cases "tl ys" rule: rev_cases) auto
    have g1: "get_byte (xs @ h # m @ t # zs) a = Inr h" using less(2) by auto
    have g2: "get_byte (xs @ h # m @ t # zs) (b - 1) = Inr t"
      using get_byte_mid2 [of "xs @ h # m" "b - 1" t zs] less(2,3) ys by simp
    have u: "(xs @ h # m @ t # zs)[a := t, b - 1 := h] = (xs @ [t]) @ m @ h # zs"
      using less(2,3) ys by (simp add: list_update_append)
    have shape: "xs @ ys @ zs = xs @ h # m @ t # zs" by (simp add: ys)
    have "swap_loop (xs @ ys @ zs) a b = swap_loop ((xs @ [t]) @ m @ h # zs) (a + 1) (b - 1)"
    proof -
      have "a < b" using less(2,3) ys by simp
      then show ?thesis
        unfolding shape by (subst swap_loop.simps) (simp only: g1 g2 bind_res.simps u if_True)
    qed
    also have "\<dots> = Inr ((xs @ [t]) @ rev m @ h # zs)"
      using less ys by (intro less(1)) simp_all
    finally show ?thesis by (simp add: ys)
  qed
qed

subsection \<open>Reversing an array\<close>

lemma reverse_loop_roomy:
  "len \<le> length xs \<Longrightarrow>
   reverse_loop roomy a xs len = Inr (if len = 0 then a else Some (elems a @ rev (take len xs)))"
  by (induction len arbitrary: a) (simp_all add: take_Suc_conv_app_nth)

section \<open>Properties\<close>

text \<open>C38: \<open>arg_array\<close> reads back every command line that is written as blank-separated arguments, bare
  ones without blanks and quoted ones without quotes, in order, behind the strings the array had, and
  stays inside its copy of the line.\<close>

theorem arg_array_splits:
  assumes "\<forall>x \<in> set args. arg_ok x"
  shows "arg_array roomy array (show_args args) =
    Inr (if args = [] then array else Some (elems array @ map arg_text args))"
  using arg_loop_show [of args "[]" array] assms by (simp add: arg_array_def roomy_def)

lemma arg_array_splits_witness:
  "arg_array roomy None (show_args [Bare (str ''ls''), Quoted (str ''a b''), Bare (str ''c'')]) =
    Inr (Some [str ''ls'', str ''a b'', str ''c''])"
  by (subst arg_array_splits) (simp_all add: str_def)

text \<open>A quote that is opened in front of an argument and never closed runs the scan of
  \<open>arg_array\<close> past the end of its copy of the line.\<close>

theorem arg_array_open_quote:
  assumes "t \<noteq> []" and "hd t \<notin> {0, 32}" and "34 \<notin> set t"
  shows "arg_array roomy array (34 # t) = Inl Out_Of_Bounds"
proof -
  obtain h t' where h: "t = h # t'" using assms(1) by (cases t) auto
  with assms have h': "h \<notin> {0, 32, 34}" by auto
  have "arg_loop roomy (34 # t @ [0]) 1 (length u + 1) True array = Inl Out_Of_Bounds"
    if "t @ [0] = u @ v" for u v
    using that
  proof (induction v arbitrary: u)
    case Nil
    then have "get_byte (34 # t @ [0]) (length u + 1) = Inl Out_Of_Bounds" by (simp add: get_byte_def)
    moreover have "get_byte (34 # t @ [0]) 1 = Inr h" by (simp add: get_byte_def h)
    ultimately show ?case using h' by (subst arg_loop.simps) auto
  next
    case (Cons b v)
    have "get_byte (34 # t @ [0]) 1 = Inr h" by (simp add: get_byte_def h)
    moreover have "get_byte (34 # t @ [0]) (length u + 1) = Inr b"
      using Cons.prems get_byte_mid2 [of "34 # u" "length u + 1" b v] by simp
    moreover have "b \<in> set (t @ [0])" unfolding Cons.prems by simp
    then have "b \<noteq> 34" using assms(3) by auto
    ultimately have "arg_loop roomy (34 # t @ [0]) 1 (length u + 1) True array =
        arg_loop roomy (34 # t @ [0]) 1 (length u + 1 + 1) True array"
      using h' by (intro arg_advance) auto
    with Cons.IH [of "u @ [b]"] Cons.prems show ?case by simp
  qed
  from this [of "[]"] have "arg_loop roomy (34 # t @ [0]) 1 1 True array = Inl Out_Of_Bounds" by simp
  with arg_quote [of roomy "[]" "t @ [0]" False array] show ?thesis
    by (simp add: arg_array_def roomy_def)
qed

lemma arg_array_open_quote_witness: "arg_array roomy None (34 # [97]) = Inl Out_Of_Bounds"
  by (rule arg_array_open_quote) simp_all

text \<open>\<open>dir_array\<close> splits a dotted name into its components, each with a slash in front, when no
  component is longer than 511 bytes.\<close>

theorem dir_array_splits:
  "(\<forall>t \<in> set ts. dir_ok t) \<Longrightarrow>
     dir_array roomy array (show_dirs ts) = Inr (if ts = [] then array else Some (elems array @ map ((#) 47) ts))"
  using dir_loop_show [of ts "[]" array] by (simp add: dir_array_def roomy_def)

lemma dir_array_splits_witness:
  "dir_array roomy None (show_dirs [str ''usr'', str ''lib'']) = Inr (Some [str ''/usr'', str ''/lib''])"
  by (subst dir_array_splits) (simp_all add: str_def dir_ok_def)

lemma name_char_legal: "name_char l b \<Longrightarrow> isalnum b \<or> b = 95 \<or> b = 46"
  and name_char_46: "name_char l b \<Longrightarrow> b = 46 \<Longrightarrow> l \<noteq> 46"
  by (auto simp: name_char_def isalnum_def isdigit_def)

lemma legal_loop_stack:
  assumes "ok l b \<or> b = 0 \<or> stack = 0" and "name = b # rest"
  shows "legal_loop ok name 0 (Suc n) stack l new = legal_loop ok name 0 (Suc n) 0 l new"
  using assms by (auto simp: get_byte_def)

lemma legalize_sanitize:
  assumes len: "len \<le> length name" and first: "len = 0 \<or> ok 0 (hd (name @ [0])) \<or> hd (name @ [0]) = 0 \<or> stack = 0"
    and ok0: "\<And>l. \<not> ok l 0"
  defines "t \<equiv> sanitize ok 0 (takeWhile (\<lambda>b. b \<noteq> 0) (take len name))"
  shows "legalize ok roomy stack name len = Inr (Some (t @ replicate (len - length t) 0 @ drop len name))"
proof -
  have "legal_loop ok name 0 len stack 0 [] = legal_loop ok name 0 len 0 0 []"
  proof (cases len)
    case (Suc n)
    with len obtain b rest where "name = b # rest" by (cases name) auto
    with first Suc show ?thesis using legal_loop_stack [of ok 0 b stack name rest n "[]"] by simp
  qed simp
  also have "\<dots> = Inr t"
    using legal_loop_sanitize [of 0 len name ok 0 "[]", OF _ ok0] len by (simp add: t_def)
  finally show ?thesis using len by (simp add: legalize_def roomy_def)
qed

lemma sanitize_facts:
  assumes "\<And>l. \<not> ok l 0"
  shows "0 \<notin> set (sanitize ok l bs)" and "t = sanitize ok l bs \<Longrightarrow> t \<noteq> [] \<Longrightarrow> ok l (hd t)"
proof -
  show "0 \<notin> set (sanitize ok l bs)" using assms sanitize_set by metis
  show "ok l (hd t)" if "t = sanitize ok l bs" "t \<noteq> []"
    using that by (induction ok l bs arbitrary: t rule: sanitize.induct) (auto split: if_splits)
qed

lemma takeWhile_padded:
  "0 \<notin> set t \<Longrightarrow> length t \<le> n \<Longrightarrow> takeWhile (\<lambda>b. b \<noteq> 0) (take n (t @ replicate (n - length t) 0 @ u)) = t"
  by (cases "n - length t") (auto simp: takeWhile_append)

lemma legalize_again:
  assumes "0 \<notin> set t" and "length t \<le> len" and "sanitize ok 0 t = t" and "t = [] \<or> ok 0 (hd t)"
    and "\<And>l. \<not> ok l 0"
  shows "legalize ok roomy stack (t @ replicate (len - length t) 0 @ u) len =
    Inr (Some (t @ replicate (len - length t) 0 @ u))"
proof -
  let ?b = "t @ replicate (len - length t) 0 @ u"
  have "len = 0 \<or> ok 0 (hd (?b @ [0])) \<or> hd (?b @ [0]) = 0 \<or> stack = 0"
  proof (cases t)
    case Nil
    then show ?thesis by (cases len) simp_all
  qed (use assms(4) in simp)
  moreover have "len \<le> length ?b" using assms(2) by simp
  ultimately have "legalize ok roomy stack ?b len =
      Inr (Some (sanitize ok 0 (takeWhile (\<lambda>b. b \<noteq> 0) (take len ?b)) @
        replicate (len - length (sanitize ok 0 (takeWhile (\<lambda>b. b \<noteq> 0) (take len ?b)))) 0 @ drop len ?b))"
    using assms(5) by (intro legalize_sanitize)
  moreover have "drop len ?b = u" using assms(2) by simp
  ultimately show ?thesis
    using takeWhile_padded [OF assms(1,2)] assms(3) by simp
qed

text \<open>C39: When the first byte of the buffer is legal or the terminator, or the uninitialised \<open>c\<close> happens to be 0,
  \<open>legal_name\<close> leaves in the buffer the text with its illegal characters taken out, padded with
  zeros: letters, digits, underscores and dots, never two dots in a row, so neither a slash nor
  \<open>..\<close> survives; and a second call changes nothing, whatever \<open>c\<close> holds then.\<close>

theorem legal_name_legal:
  assumes "len \<le> length name" and "name_char 0 (hd (name @ [0])) \<or> hd (name @ [0]) = 0 \<or> stack = 0"
  shows "\<exists>t. legal_name roomy stack name len = Inr (Some (t @ replicate (len - length t) 0 @ drop len name)) \<and>
    t = sanitize name_char 0 (takeWhile (\<lambda>b. b \<noteq> 0) (take len name)) \<and> length t \<le> len \<and>
    (\<forall>b \<in> set t. isalnum b \<or> b = 95 \<or> b = 46) \<and> successively (\<lambda>a b. \<not> (a = 46 \<and> b = 46)) t \<and>
    (\<forall>stack'. legal_name roomy stack' (t @ replicate (len - length t) 0 @ drop len name) len =
       Inr (Some (t @ replicate (len - length t) 0 @ drop len name)))"
proof -
  let ?s = "takeWhile (\<lambda>b. b \<noteq> 0) (take len name)"
  let ?t = "sanitize name_char 0 ?s"
  let ?b = "?t @ replicate (len - length ?t) 0 @ drop len name"
  have len: "length ?t \<le> len"
    using length_sanitize [of name_char 0 ?s] length_takeWhile_le [of "\<lambda>b. b \<noteq> 0" "take len name"] by simp
  have run: "legal_name roomy stack name len = Inr (Some ?b)"
    unfolding legal_name_def using assms by (intro legalize_sanitize) simp_all
  have z: "0 \<notin> set ?t" by (rule sanitize_facts) simp
  have "?t = [] \<or> name_char 0 (hd ?t)"
    using sanitize_facts(2) [of name_char ?t 0 ?s] by auto
  then have "legal_name roomy stack' ?b len = Inr (Some ?b)" for stack'
    unfolding legal_name_def using z len by (intro legalize_again) (simp_all add: sanitize_idem)
  moreover have "successively (\<lambda>a b. \<not> (a = 46 \<and> b = 46)) ?t"
    using sanitize_dots [of name_char 0 ?s] name_char_46 by blast
  moreover have "\<forall>b \<in> set ?t. isalnum b \<or> b = 95 \<or> b = 46"
    using sanitize_set [of _ name_char 0 ?s] name_char_legal by blast
  ultimately show ?thesis using run len by blast
qed

lemma legal_name_legal_witness:
  "legal_name roomy 7 (str ''a/../b'' @ [0, 0]) 8 = Inr (Some (str ''a.b'' @ [0, 0, 0, 0, 0]))"
proof -
  have "sanitize name_char 0 (takeWhile (\<lambda>b. b \<noteq> 0) (take 8 (str ''a/../b'' @ [0, 0]))) = str ''a.b''"
    by (simp add: str_def name_char_def isalnum_def isdigit_def)
  moreover have "\<exists>t. legal_name roomy 7 (str ''a/../b'' @ [0, 0]) 8 =
      Inr (Some (t @ replicate (8 - length t) 0 @ drop 8 (str ''a/../b'' @ [0, 0]))) \<and>
      t = sanitize name_char 0 (takeWhile (\<lambda>b. b \<noteq> 0) (take 8 (str ''a/../b'' @ [0, 0])))"
    using legal_name_legal [of 8 "str ''a/../b'' @ [0, 0]" 7]
    by (simp add: str_def name_char_def isalnum_def isdigit_def)
  ultimately show ?thesis by (simp add: str_def numeral_eq_Suc)
qed

text \<open>When the first byte of the buffer is illegal, the stack byte left in the uninitialised \<open>c\<close> takes
  its place in the name, legal or not: \<open>legal_name\<close> can leave a slash in front.\<close>

theorem legal_name_first_byte:
  assumes "\<not> name_char 0 b" and "b \<noteq> 0" and "stack \<noteq> 0" and "0 < len" and "len \<le> length (b # rest)"
  shows "\<exists>t. legal_name roomy stack (b # rest) len = Inr (Some (ucast stack # t)) \<and> length (ucast stack # t) = length (b # rest)"
proof -
  obtain n where n: "len = Suc n" using assms(4) by (cases len) auto
  have "legal_loop name_char (b # rest) 0 len stack 0 [] = legal_loop name_char (b # rest) 1 n 0 stack [ucast stack]"
    using assms(1,2,3) by (simp add: n get_byte_def)
  also have "\<dots> = Inr (ucast stack # sanitize name_char stack (takeWhile (\<lambda>b. b \<noteq> 0) (take n rest)))"
    using legal_loop_sanitize [of 1 n "b # rest" name_char stack "[ucast stack]"] assms(5) n by simp
  finally show ?thesis
    using assms(5) n length_sanitize [of name_char stack "takeWhile (\<lambda>b. b \<noteq> 0) (take n rest)"]
      length_takeWhile_le [of "\<lambda>b. b \<noteq> 0" "take n rest"]
    by (simp add: legal_name_def legalize_def roomy_def)
qed

lemma legal_name_first_byte_witness:
  "\<exists>t. legal_name roomy 47 (str '' etc'' @ [0]) 5 = Inr (Some (47 # t))"
  using legal_name_first_byte [of 32 47 5 "str ''etc'' @ [0]"]
  by (auto simp: str_def name_char_def isalnum_def isdigit_def)

text \<open>\<open>swap\<close> reverses the first \<open>len\<close> bytes of a block that has them and touches no other; so it is its
  own inverse.\<close>

theorem swap_reverses:
  "len \<le> length src \<Longrightarrow> swap src len = Inr (rev (take len src) @ drop len src) \<and>
     swap (rev (take len src) @ drop len src) len = Inr src"
  using swap_loop_rev [of "[]" 0 len "take len src" "drop len src"]
    swap_loop_rev [of "[]" 0 len "rev (take len src)" "drop len src"]
  by (simp add: swap_def)

lemma swap_reverses_witness: "swap [1, 2, 3, 4, 5] 3 = Inr [3, 2, 1, 4, 5]"
  using swap_reverses [of 3 "[1, 2, 3, 4, 5]"] by (simp add: numeral_eq_Suc)

text \<open>\<open>array_reverse\<close> of an array that was built by pushing strings gives the strings in reverse
  order, and twice gives the array back.\<close>

theorem array_reverse_rev:
  "array_reverse roomy (Some xs) = Inr (Some (rev xs)) \<and>
   bind_res (array_reverse roomy (Some xs)) (array_reverse roomy) = Inr (Some xs)"
  by (simp add: array_reverse_def Let_def reverse_loop_roomy)

text \<open>A process that runs as a suvlet, whose standard output is its connection, never writes a
  message there: whatever the level, \<open>output\<close> goes to a log file or, when debugging, to standard error.\<close>

theorem output_keeps_stdout:
  assumes "has_flag cfg SCF_SUVLET"
  shows "list_all (\<lambda>e. case e of Stdout _ \<Rightarrow> False | Syslog _ _ \<Rightarrow> False | _ \<Rightarrow> True)
    (fst (suva_output cfg pid can_open level msg buffer))"
  using assms by (simp add: suva_output_def Let_def append_log_def)

lemma output_keeps_stdout_witness:
  "list_all (\<lambda>e. case e of Stdout _ \<Rightarrow> False | Syslog _ _ \<Rightarrow> False | _ \<Rightarrow> True)
    (fst (suva_output \<lparr>log_level = 5, log_facility = 0, cfg_flags = 0x100\<rparr> 1 (\<lambda>_. True) (- 1) [104] []))"
  by (rule output_keeps_stdout) (simp add: has_flag_def)

lemma update_behind:
  "length xs < k \<Longrightarrow> \<exists>zs. (xs @ x # ys)[k := y] = xs @ x # zs"
  by (cases "k - length xs") (auto simp: list_update_append)

text \<open>After a message that is not filtered, \<open>get_output\<close> returns its first line, cut to the buffer.\<close>

theorem get_output_last_line:
  assumes "\<not> log_level cfg <s level" and "0 \<notin> set msg" and "length buffer = MAX_BUFFER"
  shows "\<exists>b. get_output (snd (suva_output cfg pid can_open level msg buffer)) =
    Inr (takeWhile (\<lambda>b. b \<noteq> 10) (take (MAX_BUFFER - 1) msg), b) \<and> length b = MAX_BUFFER"
proof -
  let ?text = "take (MAX_BUFFER - 1) msg"
  let ?line = "takeWhile (\<lambda>b. b \<noteq> 10) ?text"
  let ?buf = "?text @ 0 # drop (length ?text + 1) buffer"
  have buf: "snd (suva_output cfg pid can_open level msg buffer) = ?buf"
    using assms(1) by (simp add: suva_output_def Let_def)
  have len: "length ?buf = MAX_BUFFER" using assms(3) by (simp add: MAX_BUFFER_def)
  have z: "0 \<notin> set ?text" "0 \<notin> set ?line"
    using assms(2) by (auto dest: in_set_takeD set_takeWhileD)
  show ?thesis
  proof (cases "10 \<in> set ?text")
    case True
    then obtain u v where uv: "?text = u @ 10 # v" "10 \<notin> set u" by (meson split_list_first)
    then have line: "?line = u" by (auto simp: takeWhile_append)
    have u: "length u < MAX_BUFFER - 1"
      using arg_cong [OF uv(1), of length] by (simp add: MAX_BUFFER_def)
    have "takeWhile (\<lambda>b. b \<noteq> 10) (take (MAX_BUFFER - 1) ?buf) = u"
    proof -
      have "take (MAX_BUFFER - 1) ?buf = u @ 10 # take (MAX_BUFFER - 1 - Suc (length u)) (v @ 0 # drop (length ?text + 1) buffer)"
        using u unfolding uv(1) by (simp add: MAX_BUFFER_def take_Cons')
      with uv(2) show ?thesis by (auto simp: takeWhile_append)
    qed
    moreover have upd: "?buf[length u := 0] = u @ 0 # v @ 0 # drop (length ?text + 1) buffer"
      unfolding uv(1) by simp
    moreover have "length u < min (MAX_BUFFER - 1) (length ?buf)"
      unfolding len using u by (simp add: MAX_BUFFER_def)
    moreover have "0 \<notin> set u" using z uv(1) by simp
    moreover have "length (u @ 0 # v @ 0 # drop (length ?text + 1) buffer) = MAX_BUFFER"
      using len unfolding upd [symmetric] by (simp del: length_append)
    ultimately show ?thesis
      unfolding buf line get_output_def Let_def by (simp del: length_append length_Cons)
  next
    case False
    then have line: "?line = ?text" by (auto simp: takeWhile_eq_all_conv)
    let ?k = "length (takeWhile (\<lambda>b. b \<noteq> 10) (take (MAX_BUFFER - 1) ?buf))"
    have k: "length ?text < ?k \<or> MAX_BUFFER - 1 \<le> ?k"
    proof (cases "length msg < MAX_BUFFER - 1")
      case True
      then have "take (MAX_BUFFER - 1) ?buf = ?text @ 0 # take (MAX_BUFFER - 2 - length msg) (drop (length msg + 1) buffer)"
        by (simp add: MAX_BUFFER_def take_Cons')
      with \<open>10 \<notin> set ?text\<close> show ?thesis by (auto simp: takeWhile_append)
    next
      case False
      then have eq: "take (MAX_BUFFER - 1) ?buf = ?text" by (simp add: MAX_BUFFER_def)
      show ?thesis unfolding eq line using False by simp
    qed
    have "\<exists>ys. (if ?k < min (MAX_BUFFER - 1) (length ?buf) then ?buf[?k := 0] else ?buf) = ?text @ 0 # ys"
    proof (cases "?k < min (MAX_BUFFER - 1) (length ?buf)")
      case True
      with k have "length ?text < ?k" by simp
      from update_behind [OF this, of 0 "drop (length ?text + 1) buffer" 0] True show ?thesis by simp
    qed auto
    then obtain ys where ys: "(if ?k < min (MAX_BUFFER - 1) (length ?buf) then ?buf[?k := 0] else ?buf) = ?text @ 0 # ys" ..
    then have "length (?text @ 0 # ys) = MAX_BUFFER" using len by (metis length_list_update)
    then show ?thesis
      unfolding buf get_output_def Let_def ys line using z(1) by simp
  qed
qed

lemma get_output_last_line_witness:
  "\<exists>b. get_output (snd (suva_output \<lparr>log_level = 5, log_facility = 0, cfg_flags = 0\<rparr> 1 (\<lambda>_. True) 1
      [104, 105, 10, 120] (replicate MAX_BUFFER 0))) = Inr ([104, 105], b)"
  using get_output_last_line [of "\<lparr>log_level = 5, log_facility = 0, cfg_flags = 0\<rparr>" 1 "[104, 105, 10, 120]"
      "replicate MAX_BUFFER 0" 1 "\<lambda>_. True"]
  by (auto simp: MAX_BUFFER_def word_sless_alt)

text \<open>\<open>get_gid\<close> gives a group away only when the name stands for both a user and a group and the
  group is the user's own.\<close>

theorem get_gid_agrees:
  "get_gid getpwuid getpwnam getgrgid getgrnam group_id = g \<Longrightarrow> g \<noteq> -1 \<Longrightarrow>
   \<exists>name p. group_id = Some name \<and> get_pw getpwuid getpwnam name = Some p \<and> pw_gid p = g \<and>
     (getgrnam name = Some g \<or> starts_digit name \<and> getgrgid (atoi name) = Some g)"
  by (auto simp: get_gid_def split: option.splits if_splits)

lemma get_gid_agrees_witness:
  "\<exists>name p. Some (str ''12'') = Some name \<and> get_pw (\<lambda>_. None) (\<lambda>_. Some \<lparr>pw_uid = 1, pw_gid = 12\<rparr>) name = Some p \<and>
     pw_gid p = 12 \<and> ((\<lambda>_. None) name = Some (12 :: c_uint) \<or> starts_digit name \<and> Some (atoi name) = Some 12)"
  by (rule get_gid_agrees [where getgrgid = Some and getgrnam = "\<lambda>_. None"])
    (simp_all add: get_gid_def get_pw_def starts_digit_def isdigit_def atoi_def str_def)

text \<open>C40: A lock taken by one process shows to every other as a running process until it is unlocked,
  and no other process gets it; but the attempt of the other unlinks the file, after which the process
  shows as stale although it still runs.\<close>

theorem pid_lock_observed:
  assumes "pid_lock self True 4 dir pid = (True, dir1)" and "other \<noteq> self" and "self \<noteq> 0"
  shows "pid_status other True True True dir1 pid = (PID_RUN, dir1) \<and>
    fst (pid_lock other True 4 dir1 pid) = False \<and>
    fst (pid_status other True True True (snd (pid_lock other True 4 dir1 pid)) pid) = PID_STALE \<and>
    fst (pid_status other True True True (pid_unlock dir1 pid) pid) = PID_STALE"
proof -
  have "dir1 = dir(pid \<mapsto> \<lparr>lf_data = le4 pid, lf_holder = Some self\<rparr>)"
    using assms(1) by (auto simp: pid_lock_def Let_def split: if_splits)
  with assms(2,3) show ?thesis
    by (simp add: pid_status_def pid_lock_def pid_unlock_def)
qed

lemma pid_lock_observed_witness:
  "\<exists>dir. pid_status 2 True True True dir 9 = (PID_RUN, dir) \<and> fst (pid_lock 2 True 4 dir 9) = False"
proof -
  have "pid_lock 1 True 4 (\<lambda>_. None) 9 = (True, [9 \<mapsto> \<lparr>lf_data = le4 9, lf_holder = Some 1\<rparr>])"
    by (simp add: pid_lock_def)
  from pid_lock_observed [OF this, of 2] show ?thesis by auto
qed

lemma env_loop_strings:
  "\<exists>array' new. env_loop roomy input array = Inr array' \<and> elems array' = elems array @ new \<and>
     (\<forall>s \<in> set new. length s \<le> 1023 \<and> list_all env_char s)"
proof (induction "length input" arbitrary: input array rule: less_induct)
  case less
  show ?case
  proof (cases "fgets MAX_BUFFER input")
    case None
    then show ?thesis by (subst env_loop.simps) auto
  next
    case (Some lr)
    obtain line rest where lr: "lr = (line, rest)" by (cases lr)
    with Some have "length rest < length input"
      by (auto intro: fgets_shrinks simp: MAX_BUFFER_def)
    note IH = less [OF this]
    show ?thesis
    proof (cases "env_scan (takeWhile (\<lambda>b. b \<noteq> 0) line)")
      case None
      with IH [of array] Some lr show ?thesis by (subst env_loop.simps) simp
    next
      case s: (Some s)
      then have "length s \<le> 1023 \<and> list_all env_char s"
        by (auto simp: env_scan_def Let_def list_all_iff dest!: in_set_takeD set_takeWhileD split: if_splits)
      moreover obtain array' new where "env_loop roomy rest (Some (elems array @ [s])) = Inr array'"
          "elems array' = (elems array @ [s]) @ new" "\<forall>s \<in> set new. length s \<le> 1023 \<and> list_all env_char s"
        using IH [of "Some (elems array @ [s])"] by auto
      ultimately show ?thesis
        using Some lr s by (subst env_loop.simps) (auto intro!: exI [of _ "s # new"])
    qed
  qed
qed

text \<open>\<open>env_array\<close> on a file that can be opened returns, keeps the strings the array had, and adds
  only runs of at most 1023 characters of the set its scan accepts.\<close>

theorem env_array_strings:
  "\<exists>array' new. env_array roomy array (Some input) = Inr array' \<and> elems array' = elems array @ new \<and>
     list_all (\<lambda>s. length s \<le> 1023 \<and> list_all env_char s) new"
  using env_loop_strings [of input array] by (simp add: env_array_def list_all_iff)

end
