(* ===== verification/C_Text.thy ===== *)
theory C_Text
  imports Suva_Prelude
begin

text \<open>
  The text functions of the C library that the suvlets use: lines of a file by \<open>fgets\<close>, tokens by \<open>strtok\<close>,
  words by the \<open>%s\<close> of \<open>sscanf\<close>, the format of \<open>printf\<close>. A string is the list of its bytes without the
  terminator.
\<close>

section \<open>Lines\<close>

text \<open>\<open>fgets\<close> with room for \<open>k\<close> bytes: up to the end of a line, and the position after it.\<close>

fun take_line :: "nat \<Rightarrow> byte list \<Rightarrow> byte list" where
  "take_line 0 bs = []"
| "take_line (Suc k) [] = []"
| "take_line (Suc k) (b # bs) = b # (if b = 10 then [] else take_line k bs)"

definition fgets :: "nat \<Rightarrow> byte list \<Rightarrow> nat \<Rightarrow> (byte list \<times> nat) option" where
  "fgets n content pos =
     (let rest = drop pos content; l = take_line (n - 1) rest
      in if rest = [] then None else Some (l, pos + length l))"

text \<open>What a buffer with a line holds as a C string, and the line without its newline.\<close>

definition text_upto0 :: "byte list \<Rightarrow> byte list" where
  "text_upto0 bs = takeWhile (\<lambda>b. b \<noteq> 0) bs"

definition chop :: "byte list \<Rightarrow> byte list" where
  "chop s = (if s \<noteq> [] \<and> last s = 10 then butlast s else s)"

text \<open>All lines of a stream in order, as a loop over \<open>fgets\<close> sees them.\<close>

function lines_of :: "nat \<Rightarrow> byte list \<Rightarrow> byte list list" where
  "lines_of n bs = (if bs = [] \<or> n < 2 then [] else take_line (n - 1) bs # lines_of n (drop (length (take_line (n - 1) bs)) bs))"
  by pat_completeness auto

lemma take_line_nil: "take_line k bs = [] \<longleftrightarrow> k = 0 \<or> bs = []"
  by (cases "(k, bs)" rule: take_line.cases) auto

termination lines_of
  by (relation "measure (\<lambda>(n, bs). length bs)") (auto simp: take_line_nil)

declare lines_of.simps [simp del]

lemma lines_of_nil [simp]: "lines_of n [] = []"
  by (simp add: lines_of.simps)

lemma lines_of_step: "bs \<noteq> [] \<Longrightarrow> 2 \<le> n \<Longrightarrow>
   lines_of n bs = take_line (n - 1) bs # lines_of n (drop (length (take_line (n - 1) bs)) bs)"
  by (subst lines_of.simps) simp

lemma take_line_prefix: "take_line k bs @ drop (length (take_line k bs)) bs = bs"
  by (induction k bs rule: take_line.induct) auto

lemma take_line_numeral: "take_line (numeral k) (b # bs) = b # (if b = 10 then [] else take_line (pred_numeral k) bs)"
  by (simp add: numeral_eq_Suc)

lemma length_take_line: "length (take_line k bs) \<le> k"
  by (induction k bs rule: take_line.induct) auto

lemma set_take_line: "set (take_line k bs) \<subseteq> set bs"
  by (induction k bs rule: take_line.induct) auto

lemma concat_lines_of: "2 \<le> n \<Longrightarrow> concat (lines_of n bs) = bs"
proof (induction n bs rule: lines_of.induct)
  case (1 n bs)
  then show ?case by (cases "bs = []") (simp_all add: lines_of_step take_line_prefix)
qed

text \<open>A text of lines, and the loop over it when they are short enough.\<close>

definition line_text :: "byte list list \<Rightarrow> byte list" where
  "line_text ls = concat (map (\<lambda>l. l @ [10]) ls)"

lemma take_line_whole: "length l < k \<Longrightarrow> 10 \<notin> set l \<Longrightarrow> take_line k (l @ 10 # s) = l @ [10]"
proof (induction l arbitrary: k)
  case Nil
  then show ?case by (cases k) simp_all
next
  case (Cons b l)
  then show ?case by (cases k) auto
qed

lemma lines_of_text:
  "2 \<le> n \<Longrightarrow> \<forall>l \<in> set ls. length l + 1 < n \<and> 10 \<notin> set l \<Longrightarrow> lines_of n (line_text ls) = map (\<lambda>l. l @ [10]) ls"
proof (induction ls)
  case Nil
  then show ?case by (simp add: line_text_def)
next
  case (Cons l ls)
  have "line_text (l # ls) = l @ 10 # line_text ls" by (simp add: line_text_def)
  moreover have "take_line (n - 1) (l @ 10 # line_text ls) = l @ [10]" using Cons.prems by (intro take_line_whole) auto
  ultimately show ?case using Cons by (simp add: lines_of_step)
qed

section \<open>Tokens and words\<close>

text \<open>\<open>strtok\<close>: the next token of what is left, which begins after it; separators in a row are one.\<close>

definition strtok :: "(byte \<Rightarrow> bool) \<Rightarrow> byte list \<Rightarrow> (byte list \<times> byte list) option" where
  "strtok seps s =
     (let s' = dropWhile (\<lambda>b. seps b) s
      in if s' = [] then None
         else Some (takeWhile (\<lambda>b. \<not> seps b) s', drop 1 (dropWhile (\<lambda>b. \<not> seps b) s')))"

function tokens :: "(byte \<Rightarrow> bool) \<Rightarrow> byte list \<Rightarrow> byte list list" where
  "tokens seps s = (case strtok seps s of None \<Rightarrow> [] | Some (t, rest) \<Rightarrow> t # tokens seps rest)"
  by pat_completeness auto

lemma strtok_shorter: "strtok seps s = Some (t, rest) \<Longrightarrow> length rest < length s"
proof -
  assume a: "strtok seps s = Some (t, rest)"
  let ?s = "dropWhile (\<lambda>b. seps b) s"
  from a have "?s \<noteq> []" "rest = drop 1 (dropWhile (\<lambda>b. \<not> seps b) ?s)" by (auto simp: strtok_def Let_def split: if_splits)
  moreover have "length (dropWhile (\<lambda>b. \<not> seps b) ?s) \<le> length ?s" by (rule length_dropWhile_le)
  moreover have "length ?s \<le> length s" by (rule length_dropWhile_le)
  moreover have "0 < length ?s" using \<open>?s \<noteq> []\<close> by simp
  ultimately show ?thesis by (cases "dropWhile (\<lambda>b. \<not> seps b) ?s") auto
qed

termination tokens
  by (relation "measure (\<lambda>(seps, s). length s)") (auto dest: strtok_shorter)

declare tokens.simps [simp del]

definition blank :: "byte \<Rightarrow> bool" where
  "blank b \<longleftrightarrow> b \<in> {9, 10, 11, 12, 13, 32}"

text \<open>The words of a line, as a sequence of \<open>%s\<close> takes them.\<close>

definition words :: "byte list \<Rightarrow> byte list list" where
  "words s = tokens blank s"

text \<open>A word into an array of \<open>n\<close> bytes, with its terminator.\<close>

definition fits :: "nat \<Rightarrow> byte list \<Rightarrow> byte list res" where
  "fits n s = (if length s < n then Inr s else Inl Out_Of_Bounds)"

section \<open>Formats\<close>

text \<open>\<open>printf\<close> of a string as its own format, without arguments: every conversion but \<open>%%\<close> takes one that is not there.\<close>

fun format_alone :: "byte list \<Rightarrow> byte list res" where
  "format_alone [] = Inr []"
| "format_alone (b # s) =
     (if b \<noteq> of_char CHR ''%'' then bind_res (format_alone s) (\<lambda>r. Inr (b # r))
      else case s of
        [] \<Rightarrow> Inl Out_Of_Bounds
      | c # s' \<Rightarrow> if c = of_char CHR ''%'' then bind_res (format_alone s') (\<lambda>r. Inr (b # r)) else Inl Out_Of_Bounds)"

lemma format_alone_plain: "of_char CHR ''%'' \<notin> set s \<Longrightarrow> format_alone s = Inr s"
  by (induction s) auto

section \<open>Scanning\<close>

text \<open>
  The directives of \<open>sscanf\<close> the programs use: white space, a literal, \<open>%s\<close> into an array of \<open>n\<close> bytes and
  \<open>%*s\<close>, \<open>%i\<close> or \<open>%li\<close> and \<open>%*i\<close>, and \<open>%[^\n]\<close> into an array. A number with the prefix \<open>0x\<close> or \<open>0\<close> is
  hexadecimal or octal. The result is what was assigned, up to the first directive that did not match.
\<close>

datatype directive =
    White | Lit byte | Word nat | Skip_Word | Num | Skip_Num | Rest nat

datatype scanned = Text "byte list" | Number int

definition lits :: "string \<Rightarrow> directive list" where
  "lits s = map (\<lambda>c. if c = CHR '' '' then White else Lit (of_char c)) s"

definition digit :: "byte \<Rightarrow> nat option" where
  "digit b = (if 48 \<le> b \<and> b \<le> 57 then Some (unat (b - 48))
              else if 97 \<le> b \<and> b \<le> 102 then Some (unat (b - 87))
              else if 65 \<le> b \<and> b \<le> 70 then Some (unat (b - 55)) else None)"

definition digit_of :: "nat \<Rightarrow> byte \<Rightarrow> bool" where
  "digit_of base b \<longleftrightarrow> (case digit b of None \<Rightarrow> False | Some d \<Rightarrow> d < base)"

definition number_of :: "nat \<Rightarrow> byte list \<Rightarrow> nat" where
  "number_of base ds = foldl (\<lambda>n b. n * base + (case digit b of None \<Rightarrow> 0 | Some d \<Rightarrow> d)) 0 ds"

definition base_prefix :: "byte list \<Rightarrow> nat \<times> byte list" where
  "base_prefix s =
     (if take 1 s = [48] then
        (case drop 1 s of
           x # d # _ \<Rightarrow> if (x = 120 \<or> x = 88) \<and> digit_of 16 d then (16, drop 2 s) else (8, s)
         | _ \<Rightarrow> (8, s))
      else (10, s))"

text \<open>A sign, a prefix and digits; the value is cut off at the bounds of a \<open>long\<close>.\<close>

definition scan_int :: "byte list \<Rightarrow> (int \<times> byte list) option" where
  "scan_int s =
     (let neg = (take 1 s = [45]);
          s1 = (if neg \<or> take 1 s = [43] then drop 1 s else s);
          (base, s2) = base_prefix s1;
          ds = takeWhile (digit_of base) s2;
          n = (if neg then - int (number_of base ds) else int (number_of base ds))
      in if ds = [] then None else Some (max (- (2 ^ 63)) (min (2 ^ 63 - 1) n), drop (length ds) s2))"

fun scan :: "directive list \<Rightarrow> byte list \<Rightarrow> scanned list res" where
  "scan [] s = Inr []"
| "scan (White # ds) s = scan ds (dropWhile blank s)"
| "scan (Lit c # ds) s = (if take 1 s = [c] then scan ds (drop 1 s) else Inr [])"
| "scan (Word n # ds) s =
     (let s' = dropWhile blank s; w = takeWhile (\<lambda>b. \<not> blank b) s'
      in if w = [] then Inr []
         else bind_res (fits n w) (\<lambda>_. bind_res (scan ds (drop (length w) s')) (\<lambda>r. Inr (Text w # r))))"
| "scan (Skip_Word # ds) s =
     (let s' = dropWhile blank s; w = takeWhile (\<lambda>b. \<not> blank b) s'
      in if w = [] then Inr [] else scan ds (drop (length w) s'))"
| "scan (Num # ds) s =
     (case scan_int (dropWhile blank s) of
        None \<Rightarrow> Inr []
      | Some (n, s') \<Rightarrow> bind_res (scan ds s') (\<lambda>r. Inr (Number n # r)))"
| "scan (Skip_Num # ds) s = (case scan_int (dropWhile blank s) of None \<Rightarrow> Inr [] | Some (_, s') \<Rightarrow> scan ds s')"
| "scan (Rest n # ds) s =
     (let w = takeWhile (\<lambda>b. b \<noteq> 10) s
      in if w = [] then Inr []
         else bind_res (fits n w) (\<lambda>_. bind_res (scan ds (drop (length w) s)) (\<lambda>r. Inr (Text w # r))))"

text \<open>\<open>%li\<close> of \<open>printf\<close>.\<close>

fun decimal_digits :: "nat \<Rightarrow> byte list" where
  "decimal_digits n = (if n < 10 then [48 + of_nat n] else decimal_digits (n div 10) @ [48 + of_nat (n mod 10)])"

declare decimal_digits.simps [simp del]

definition print_int :: "int \<Rightarrow> byte list" where
  "print_int n = (if n < 0 then 45 # decimal_digits (nat (- n)) else decimal_digits (nat n))"

text \<open>\<open>strcat\<close> into an array of \<open>n\<close> bytes.\<close>

definition strcat :: "nat \<Rightarrow> byte list \<Rightarrow> byte list \<Rightarrow> byte list res" where
  "strcat n s t = fits n (s @ t)"

fun strcat_all :: "nat \<Rightarrow> byte list \<Rightarrow> byte list list \<Rightarrow> byte list res" where
  "strcat_all n s [] = Inr s"
| "strcat_all n s (t # ts) = bind_res (strcat n s t) (\<lambda>s'. strcat_all n s' ts)"

end
