(* ===== verification/Sutil_Hex.thy ===== *)
theory Sutil_Hex
  imports C_Text
begin

text \<open>
  \<open>print_hex\<close> and \<open>get_ifip\<close> of sutil.c: a dump of memory for the debug log, sixteen bytes in a line, and
  the address of an interface.
\<close>

section \<open>Hexadecimal numbers\<close>

definition hex_char :: "nat \<Rightarrow> byte" where
  "hex_char d = (if d < 10 then 48 + of_nat d else 55 + of_nat d)"

fun hex_digits :: "nat \<Rightarrow> byte list" where
  "hex_digits n = (if n < 16 then [hex_char n] else hex_digits (n div 16) @ [hex_char (n mod 16)])"

declare hex_digits.simps [simp del]

text \<open>\<open>%02X\<close> and \<open>%08lX\<close>.\<close>

definition hex_padded :: "nat \<Rightarrow> nat \<Rightarrow> byte list" where
  "hex_padded k n = (let ds = hex_digits n in replicate (k - length ds) 48 @ ds)"

section \<open>The dump\<close>

text \<open>
  One line: the bytes in groups of four, blanks in place of those that are missing, and the characters. Each part is added to
  \<open>line_this\<close>, which has 70 bytes.
\<close>

definition printable :: "byte \<Rightarrow> bool" where
  "printable b \<longleftrightarrow> 32 \<le> b \<and> b \<le> 126"

fun hex_groups :: "byte list \<Rightarrow> nat \<Rightarrow> byte list list" where
  "hex_groups [] k = []"
| "hex_groups (b # bs) k =
     (hex_padded 2 (unat b) @ [32]) # (if k + 1 = 4 then [32] # hex_groups bs 0 else hex_groups bs (k + 1))"

definition hex_line :: "byte list \<Rightarrow> byte list res" where
  "hex_line bs =
     strcat_all 70 [] (hex_groups bs 0 @ replicate (16 - length bs) [32, 32, 32] @ replicate (4 - length bs div 4) [32] @
       map (\<lambda>b. [if printable b then b else 46]) bs)"

text \<open>
  The loop: a line that is the one before is counted in \<open>r\<close> and not written; the next one that differs reports them
  with a format that takes a number, without one. \<open>s_offset\<close> has twelve bytes, with two blanks behind the address.
\<close>

function hex_loop :: "byte list \<Rightarrow> addr \<Rightarrow> byte list \<Rightarrow> nat \<Rightarrow> byte list res" where
  "hex_loop bs offset line_last r =
     (if bs = [] then Inr []
      else bind_res (fits 12 (hex_padded 8 (unat offset) @ [32, 32])) (\<lambda>s_offset.
           bind_res (hex_line (take 16 bs)) (\<lambda>line_this.
             if line_this = line_last then hex_loop (drop 16 bs) (offset + 16) line_last (r + 1)
             else if r \<noteq> 0 then Inl Out_Of_Bounds
             else bind_res (hex_loop (drop 16 bs) (offset + 16) line_this 0) (\<lambda>out.
                    Inr (s_offset @ line_this @ [10] @ out)))))"
  by pat_completeness auto

termination
  by (relation "measure (\<lambda>(bs, offset, line_last, r). length bs)") (auto simp: length_greater_0_conv)

declare hex_loop.simps [simp del]

text \<open>What goes to the log; \<open>None\<close> when it cannot be opened.\<close>

definition print_hex :: "bool \<Rightarrow> byte list option \<Rightarrow> addr \<Rightarrow> byte list \<Rightarrow> byte list option res" where
  "print_hex opened header s bs =
     (if \<not> opened then Inr None
      else bind_res (hex_loop bs s [] 0) (\<lambda>out.
        Inr (Some ((case header of None \<Rightarrow> [] | Some h \<Rightarrow> h @ [10]) @ out @ [10]))))"

section \<open>The address of an interface\<close>

text \<open>\<open>address\<close> is what the kernel answers for a name; a name is cut to 15 bytes.\<close>

definition get_ifip :: "bool \<Rightarrow> (byte list \<Rightarrow> 32 word option) \<Rightarrow> byte list \<Rightarrow> 64 word" where
  "get_ifip socket_ok address ifname =
     (if \<not> socket_ok then 0 else case address (take 15 ifname) of None \<Rightarrow> 0 | Some a \<Rightarrow> ucast a)"

section \<open>Where the dump works\<close>

lemma length_hex_digits: "n < 16 ^ k \<Longrightarrow> 0 < k \<Longrightarrow> length (hex_digits n) \<le> k"
proof (induction k arbitrary: n)
  case (Suc k)
  show ?case
  proof (cases "n < 16")
    case False
    then have "0 < k" using Suc.prems(1) by (cases k) auto
    moreover have "n div 16 < 16 ^ k" using Suc.prems(1) by (simp add: less_mult_imp_div_less mult.commute)
    moreover have "hex_digits n = hex_digits (n div 16) @ [hex_char (n mod 16)]" using False by (subst hex_digits.simps) simp
    ultimately show ?thesis using Suc.IH [of "n div 16"] by simp
  qed (subst hex_digits.simps, simp)
qed simp

lemma length_hex_digits_ge: "16 ^ k \<le> n \<Longrightarrow> k < length (hex_digits n)"
proof (induction k arbitrary: n)
  case 0
  then show ?case by (subst hex_digits.simps) simp
next
  case (Suc k)
  have "\<not> n < 16" using Suc.prems by (metis le_trans not_less one_le_numeral one_le_power power_Suc mult.commute mult_le_mono2 nat_mult_1_right)
  then have "hex_digits n = hex_digits (n div 16) @ [hex_char (n mod 16)]" by (subst hex_digits.simps) simp
  moreover have "16 ^ k \<le> n div 16" using Suc.prems by (simp add: less_eq_div_iff_mult_less_eq mult.commute)
  ultimately show ?case using Suc.IH [of "n div 16"] by simp
qed

text \<open>
  An address of ten hexadecimal digits or more, as those of a 64-bit stack or heap, does not fit into \<open>s_offset\<close>.
\<close>

lemma print_hex_high_address:
  assumes "16 ^ 9 \<le> unat s" and "bs \<noteq> []"
  shows "print_hex True header s bs = Inl Out_Of_Bounds"
proof -
  have "9 < length (hex_digits (unat s))" using assms(1) by (rule length_hex_digits_ge)
  then have "fits 12 (hex_padded 8 (unat s) @ [32, 32]) = Inl Out_Of_Bounds" by (simp add: fits_def hex_padded_def Let_def)
  then show ?thesis using assms(2) by (simp add: print_hex_def hex_loop.simps)
qed

end
