(* ===== verification/Scl_Types.thy ===== *)
theory Scl_Types
  imports Suva_Prelude "HOL-Library.Product_Lexorder"
begin

text \<open>
  The constants and types of suva.h and suva_api.h that the SCL protocol uses: operation codes,
  result codes, value types with their order, sizes on the wire, queued elements and the
  connection.
\<close>

section \<open>Codes\<close>

definition SCL_RETURN :: c_int where [simp]: "SCL_RETURN = 0x00"
definition SCL_OCONN :: c_int where [simp]: "SCL_OCONN = 0x01"
definition SCL_CCONN :: c_int where [simp]: "SCL_CCONN = 0x02"
definition SCL_CSUVLET :: c_int where [simp]: "SCL_CSUVLET = 0x03"
definition SCL_DSUVLET :: c_int where [simp]: "SCL_DSUVLET = 0x04"
definition SCL_FCALL :: c_int where [simp]: "SCL_FCALL = 0x05"
definition SCL_FRETURN :: c_int where [simp]: "SCL_FRETURN = 0x06"
definition SCL_FERROR :: c_int where [simp]: "SCL_FERROR = 0x07"

definition SRC_OKAY :: c_int where [simp]: "SRC_OKAY = 0x01"
definition SRC_CONNECT :: c_int where [simp]: "SRC_CONNECT = 0x02"
definition SRC_CONNECTED :: c_int where [simp]: "SRC_CONNECTED = 0x07"

section \<open>Value types\<close>

datatype scl_type =
    SCL_INT | SCL_STRING | SCL_FLOAT | SCL_LONG | SCL_DOUB | SCL_BOOL
  | SCL_INT_A | SCL_STRING_A | SCL_FLOAT_A | SCL_LONG_A | SCL_DOUB_A | SCL_BOOL_A
  | SCL_DATA

text \<open>The value of the enumerator; the code compares types with it.\<close>

fun type_no :: "scl_type \<Rightarrow> nat" where
  "type_no SCL_INT = 0" | "type_no SCL_STRING = 1" | "type_no SCL_FLOAT = 2" | "type_no SCL_LONG = 3"
| "type_no SCL_DOUB = 4" | "type_no SCL_BOOL = 5" | "type_no SCL_INT_A = 6" | "type_no SCL_STRING_A = 7"
| "type_no SCL_FLOAT_A = 8" | "type_no SCL_LONG_A = 9" | "type_no SCL_DOUB_A = 10" | "type_no SCL_BOOL_A = 11"
| "type_no SCL_DATA = 12"

lemma type_no_inject [simp]: "type_no a = type_no b \<longleftrightarrow> a = b"
  by (cases a; cases b) simp_all

instantiation scl_type :: linorder
begin

definition less_eq_scl_type :: "scl_type \<Rightarrow> scl_type \<Rightarrow> bool" where
  "a \<le> b \<longleftrightarrow> type_no a \<le> type_no b"

definition less_scl_type :: "scl_type \<Rightarrow> scl_type \<Rightarrow> bool" where
  "a < b \<longleftrightarrow> type_no a < type_no b"

instance
  by standard (auto simp: less_eq_scl_type_def less_scl_type_def)

end

abbreviation scl_type_complex :: scl_type where "scl_type_complex \<equiv> SCL_INT_A"

text \<open>
  The size of a value on the wire, or of one member of an array (\<open>SCL_INT_LEN\<close> and its
  companions); 1 for the bytes of strings and data.
\<close>

fun unit_len :: "scl_type \<Rightarrow> nat" where
  "unit_len SCL_INT = 4" | "unit_len SCL_LONG = 8" | "unit_len SCL_FLOAT = 4" | "unit_len SCL_DOUB = 8"
| "unit_len SCL_BOOL = 1" | "unit_len SCL_STRING = 1"
| "unit_len SCL_INT_A = 4" | "unit_len SCL_LONG_A = 8" | "unit_len SCL_FLOAT_A = 4" | "unit_len SCL_DOUB_A = 8"
| "unit_len SCL_BOOL_A = 1" | "unit_len SCL_STRING_A = 1" | "unit_len SCL_DATA = 1"

section \<open>Elements and connections\<close>

text \<open>
  What a queued \<open>void *\<close> points to: nothing, a block of bytes (a number, a string with its
  terminator, an array, data), or an array of strings. The memory is the caller's and keeps its
  contents from the queueing to the writing.
\<close>

datatype object = Null | Block "byte list" | Strings "byte list option list"

record scl_ele =
  ele_object :: object
  ele_type :: scl_type
  ele_len :: c_int
  next_ele :: addr

definition zero_ele :: scl_ele where
  "zero_ele = \<lparr>ele_object = Null, ele_type = SCL_INT, ele_len = 0, next_ele = 0\<rparr>"

text \<open>\<open>struct suva_conn\<close>, without the two descriptors, which are the \<open>world\<close> of the state below.\<close>

record suva_conn =
  err_no :: c_int
  err_text :: addr
  out_packet_len :: c_int
  out_packet_opcode :: c_int
  in_packet_opcode :: c_int
  in_pdata :: addr
  in_pcursor :: addr
  err_handler :: bool          \<comment> \<open>whether there is a handler; the default one only logs\<close>
  in_mem_id :: c_uint
  out_mem_id :: c_uint
  out_ele_queue :: addr
  out_cur_ele :: addr

end
