(* ===== verification/Scl_Iface.thy ===== *)
theory Scl_Iface
  imports Suva_Prelude
begin

text \<open>
  The interface between the packet layer and the socket: a \<open>read\<close> that fills a buffer and a
  \<open>write\<close> that empties one. The packet layer is written over these two operations; the
  locale states the contract of a connection that keeps up, over what is still to be read, what was
  sent, how much more can be sent, and the history of the connection: \<open>took\<close> and \<open>gave\<close> record that
  bytes were read and written, so a history tells the order in which the two directions were used. The sockets
  of \<open>Scl_IO\<close> are an interpretation without a history, sockets with a log (\<open>Scl_Log\<close>) one with it.
\<close>

record 'w scl_io =
  io_read :: "bool \<Rightarrow> 'w \<Rightarrow> c_uint \<Rightarrow> int \<times> byte list \<times> 'w"
  io_write :: "'w \<Rightarrow> byte list \<Rightarrow> int \<times> 'w"

locale scl_stream =
  fixes io :: "'w scl_io"
    and incoming :: "'w \<Rightarrow> byte list"
    and sent :: "'w \<Rightarrow> byte list"
    and room :: "'w \<Rightarrow> nat"
    and ok :: "'w \<Rightarrow> bool"
    and hist :: "'w \<Rightarrow> 'h"
    and took :: "byte list \<Rightarrow> 'h \<Rightarrow> 'h"
    and gave :: "byte list \<Rightarrow> 'h \<Rightarrow> 'h"
  assumes read_law: "ok w \<Longrightarrow> unat n \<le> length (incoming w) \<Longrightarrow>
      \<exists>w'. io_read io True w n = (sint n, take (unat n) (incoming w), w') \<and>
        incoming w' = drop (unat n) (incoming w) \<and> sent w' = sent w \<and> room w' = room w \<and> ok w' \<and>
        hist w' = took (take (unat n) (incoming w)) (hist w)"
    and write_law: "ok w \<Longrightarrow> length bs \<le> room w \<Longrightarrow>
      \<exists>w'. io_write io w bs = (int (length bs), w') \<and>
        sent w' = sent w @ bs \<and> incoming w' = incoming w \<and> room w' = room w - length bs \<and> ok w' \<and>
        hist w' = gave bs (hist w)"
    and took_took: "took bs (took as h) = took (as @ bs) h"
    and gave_gave: "gave bs (gave as h) = gave (as @ bs) h" and gave_none: "gave [] h = h"
begin

text \<open>What one write does, and what follows for a sequence of them.\<close>

definition wrote :: "'w \<Rightarrow> byte list \<Rightarrow> 'w \<Rightarrow> bool" where
  "wrote w bs w' \<longleftrightarrow> sent w' = sent w @ bs \<and> incoming w' = incoming w \<and>
     room w' = room w - length bs \<and> length bs \<le> room w \<and> ok w' \<and> hist w' = gave bs (hist w)"

lemma write_wrote: "ok w \<Longrightarrow> length bs \<le> room w \<Longrightarrow> wrote w bs (snd (io_write io w bs))"
  using write_law [of w bs] by (auto simp: wrote_def)

lemma wrote_refl: "ok w \<Longrightarrow> wrote w [] w"
  by (simp add: wrote_def gave_none)

lemma wrote_trans: "wrote w as w' \<Longrightarrow> wrote w' bs w'' \<Longrightarrow> wrote w (as @ bs) w''"
  by (auto simp: wrote_def gave_gave)

lemma wroteD: "wrote w bs w' \<Longrightarrow> ok w' \<and> room w' = room w - length bs \<and> sent w' = sent w @ bs \<and> incoming w' = incoming w"
  by (simp add: wrote_def)

lemma wrote_hist: "wrote w bs w' \<Longrightarrow> hist w' = gave bs (hist w)"
  by (simp add: wrote_def)

end

end
