(* ===== verification/Scl_Writer.thy ===== *)
theory Scl_Writer
  imports Scl_Types Scl_Iface Mem
begin

text \<open>
  The sending half of the SCL library (scl_writer.c): values are queued on a linked list of
  elements in managed memory while their lengths are added up, and written out behind a header of
  four integers. \<open>eles\<close> holds the contents of the elements; an element can be used as long as
  the memory manager keeps its block.
\<close>

record 'w scl =
  mem :: mem_ctx
  eles :: "addr \<Rightarrow> scl_ele"
  cur_ele :: addr         \<comment> \<open>the static variable of scl_writer.c\<close>
  world :: 'w
  conn :: suva_conn

abbreviation upd_conn :: "(suva_conn \<Rightarrow> suva_conn) \<Rightarrow> 'w scl \<Rightarrow> 'w scl" where
  "upd_conn f st \<equiv> st\<lparr>conn := f (conn st)\<rparr>"

section \<open>The list of elements\<close>

definition deref_ele :: "'w scl \<Rightarrow> addr \<Rightarrow> scl_ele res" where
  "deref_ele st p =
     (if p = 0 then Inl Null_Deref
      else case heap (mem st) p of None \<Rightarrow> Inl Dangling | Some _ \<Rightarrow> Inr (eles st p))"

text \<open>\<open>scl_alloc_ele\<close>: the new element is the successor of \<open>cur_ele\<close>, also when it is NULL.\<close>

definition scl_alloc_ele :: "libc \<Rightarrow> 'w scl \<Rightarrow> 'w scl res" where
  "scl_alloc_ele E st =
     bind_res (mem_alloc E (mem st) (out_mem_id (conn st)) 24) (\<lambda>(p, m).
       let st1 = st\<lparr>mem := m, eles := (if p = 0 then eles st else (eles st)(p := zero_ele))\<rparr>
       in bind_res (deref_ele st1 (cur_ele st1)) (\<lambda>e.
         Inr (upd_conn (out_cur_ele_update (\<lambda>_. p))
           (st1\<lparr>eles := (eles st1)(cur_ele st1 := e\<lparr>next_ele := p\<rparr>)\<rparr>))))"

section \<open>Lengths\<close>

text \<open>\<open>strlen\<close> of each of the first \<open>n\<close> strings of an array, NULL ones skipped, added up as \<open>int\<close>.\<close>

fun strings_len :: "byte list option list \<Rightarrow> nat \<Rightarrow> c_int res" where
  "strings_len ps 0 = Inr 0"
| "strings_len [] (Suc n) = Inl Out_Of_Bounds"
| "strings_len (p # ps) (Suc n) =
     bind_res (case p of None \<Rightarrow> Inr 0 | Some bs \<Rightarrow> bind_res (c_str bs) (\<lambda>s. Inr (of_nat (length s))))
       (\<lambda>k. bind_res (strings_len ps n) (\<lambda>m. Inr (k + m)))"

text \<open>What \<open>scl_queue_value\<close> adds to \<open>out_packet_len\<close>.\<close>

definition queue_len :: "object \<Rightarrow> scl_type \<Rightarrow> c_int \<Rightarrow> c_int res" where
  "queue_len val type array_len =
     (let prefix = (if scl_type_complex \<le> type \<or> type = SCL_STRING then 4 else 0)
      in if type \<in> {SCL_INT, SCL_LONG, SCL_FLOAT, SCL_DOUB, SCL_BOOL} then Inr (prefix + of_nat (unit_len type))
         else if type \<in> {SCL_INT_A, SCL_LONG_A, SCL_FLOAT_A, SCL_DOUB_A, SCL_BOOL_A, SCL_DATA}
         then Inr (prefix + of_nat (unit_len type) * array_len)
         else if type = SCL_STRING
         then (case val of
                 Null \<Rightarrow> Inr (prefix + 1)
               | Block bs \<Rightarrow> bind_res (c_str bs) (\<lambda>s. Inr (prefix + 1 + of_nat (length s)))
               | Strings _ \<Rightarrow> Inl Out_Of_Bounds)
         else (case val of
                 Null \<Rightarrow> Inr (prefix + 1)
               | Block _ \<Rightarrow> Inl Out_Of_Bounds
               | Strings ps \<Rightarrow>
                   bind_res (strings_len ps (nat (sint array_len)))
                     (\<lambda>k. Inr (prefix + 1 + 4 * array_len + k))))"

section \<open>Queueing\<close>

definition scl_queue_value :: "libc \<Rightarrow> 'w scl \<Rightarrow> object \<Rightarrow> scl_type \<Rightarrow> c_int \<Rightarrow> 'w scl res" where
  "scl_queue_value E st val type array_len =
     (let cur = out_cur_ele (conn st)
      in bind_res (deref_ele st cur) (\<lambda>e.
         bind_res (queue_len val type array_len) (\<lambda>n.
           scl_alloc_ele E (upd_conn (out_packet_len_update (\<lambda>k. k + n))
             (st\<lparr>cur_ele := cur,
                 eles := (eles st)(cur := e\<lparr>ele_object := val, ele_type := type, ele_len := array_len\<rparr>)\<rparr>)))))"

section \<open>Writing\<close>

text \<open>
  \<open>scl_fwrite\<close> of the first \<open>n\<close> bytes an object points to; \<open>write\<close> from a null pointer fails
  with \<open>EFAULT\<close>, and no caller looks at the result.
\<close>

definition fwrite :: "'w scl_io \<Rightarrow> 'w \<Rightarrow> object \<Rightarrow> c_uint \<Rightarrow> 'w res" where
  "fwrite io w val n =
     (if n = 0 then Inr (snd (io_write io w []))
      else case val of
        Null \<Rightarrow> Inr w
      | Block bs \<Rightarrow> if unat n \<le> length bs then Inr (snd (io_write io w (take (unat n) bs))) else Inl Out_Of_Bounds
      | Strings _ \<Rightarrow> Inl Out_Of_Bounds)"

abbreviation fwrite_bytes :: "'w scl_io \<Rightarrow> 'w \<Rightarrow> byte list \<Rightarrow> 'w" where
  "fwrite_bytes io w bs \<equiv> snd (io_write io w bs)"

text \<open>A string as both string types write it: its length, then its bytes.\<close>

definition write_string :: "'w scl_io \<Rightarrow> 'w \<Rightarrow> byte list option \<Rightarrow> 'w res" where
  "write_string io w p =
     (case p of
        None \<Rightarrow> Inr (fwrite_bytes io w (le4 0))
      | Some bs \<Rightarrow> bind_res (c_str bs) (\<lambda>s.
          Inr (fwrite_bytes io (fwrite_bytes io w (le4 (of_nat (length s)))) s)))"

fun write_strings :: "'w scl_io \<Rightarrow> 'w \<Rightarrow> byte list option list \<Rightarrow> nat \<Rightarrow> 'w res" where
  "write_strings io w ps 0 = Inr w"
| "write_strings io w [] (Suc n) = Inl Out_Of_Bounds"
| "write_strings io w (p # ps) (Suc n) =
     bind_res (write_string io w p) (\<lambda>w'. write_strings io w' ps n)"

definition scl_write_value :: "'w scl_io \<Rightarrow> 'w \<Rightarrow> object \<Rightarrow> scl_type \<Rightarrow> c_int \<Rightarrow> 'w res" where
  "scl_write_value io w val type array_len =
     (let w1 = (if scl_type_complex \<le> type then fwrite_bytes io w (le4 array_len) else w)
      in if scl_type_complex \<le> type \<and> array_len = 0
         then Inr (if type = SCL_STRING_A then fwrite_bytes io w1 [0] else w1)
         else if type \<in> {SCL_INT, SCL_LONG, SCL_FLOAT, SCL_DOUB, SCL_BOOL}
         then fwrite io w1 val (of_nat (unit_len type))
         else if type \<in> {SCL_INT_A, SCL_LONG_A, SCL_FLOAT_A, SCL_DOUB_A, SCL_BOOL_A, SCL_DATA}
         then fwrite io w1 val (of_nat (unit_len type) * array_len)
         else if type = SCL_STRING
         then (case val of
                 Null \<Rightarrow> bind_res (write_string io w1 None) (\<lambda>w2. Inr (fwrite_bytes io w2 [0]))
               | Block bs \<Rightarrow> bind_res (write_string io w1 (Some bs)) (\<lambda>w2. Inr (fwrite_bytes io w2 [0]))
               | Strings _ \<Rightarrow> Inl Out_Of_Bounds)
         else (case val of
                 Null \<Rightarrow> if 0 <s array_len then Inl Null_Deref else Inr (fwrite_bytes io w1 [0])
               | Block _ \<Rightarrow> Inl Out_Of_Bounds
               | Strings ps \<Rightarrow>
                   bind_res (write_strings io w1 ps (nat (sint array_len))) (\<lambda>w2. Inr (fwrite_bytes io w2 [0]))))"

text \<open>
  The loop of \<open>scl_write_out\<close>, which frees every element it has written; the last one, whose
  successor is NULL, stays as the start of the next packet. The rounds are bounded by the number
  of addresses.
\<close>

fun write_queue :: "libc \<Rightarrow> 'w scl_io \<Rightarrow> nat \<Rightarrow> 'w scl \<Rightarrow> 'w scl res" where
  "write_queue E io 0 st = Inl No_Return"
| "write_queue E io (Suc k) st =
     bind_res (deref_ele st (cur_ele st)) (\<lambda>e.
       if next_ele e = 0 then Inr st
       else bind_res (scl_write_value io (world st) (ele_object e) (ele_type e) (ele_len e)) (\<lambda>w.
         let last_ele = cur_ele st;
             st1 = st\<lparr>world := w, cur_ele := next_ele e\<rparr>
         in bind_res (mem_free E (mem st1) last_ele) (\<lambda>m. write_queue E io k (st1\<lparr>mem := m\<rparr>))))"

definition ELE_ROUNDS :: nat where "ELE_ROUNDS = 2 ^ 64"

definition write_header :: "'w scl_io \<Rightarrow> 'w \<Rightarrow> suva_conn \<Rightarrow> 'w" where
  "write_header io w c =
     fwrite_bytes io (fwrite_bytes io (fwrite_bytes io (fwrite_bytes io w
       (le4 (out_packet_opcode c))) (le4 0)) (le4 0)) (le4 (out_packet_len c))"

definition scl_write_out :: "libc \<Rightarrow> 'w scl_io \<Rightarrow> 'w scl \<Rightarrow> 'w scl res" where
  "scl_write_out E io st =
     bind_res (write_queue E io ELE_ROUNDS
         (st\<lparr>world := write_header io (world st) (conn st), cur_ele := out_ele_queue (conn st)\<rparr>)) (\<lambda>st'.
       Inr (upd_conn (\<lambda>c. c\<lparr>out_ele_queue := cur_ele st', out_packet_len := 0\<rparr>) st'))"

end
