(* ===== verification/Scl_Reader.thy ===== *)
theory Scl_Reader
  imports Scl_Writer
begin

text \<open>
  The receiving half of the SCL library (scl_reader.c): \<open>scl_read_packet\<close> reads a header and then the
  payload into managed memory, \<open>scl_get_value\<close> takes one value after another out of it, by moving
  a cursor and writing terminators into the packet. An access is checked against the block of
  the packet, which the code does not do: leaving it is the fault \<open>Out_Of_Bounds\<close>, using it after it
  was freed is \<open>Dangling\<close>.
\<close>

section \<open>Access to the packet\<close>

text \<open>The offset of \<open>n\<close> bytes at address \<open>p\<close> in the packet.\<close>

definition in_packet :: "'w scl \<Rightarrow> addr \<Rightarrow> nat \<Rightarrow> nat res" where
  "in_packet st p n =
     (if p = 0 then Inl Null_Deref
      else case heap (mem st) (in_pdata (conn st)) of
        None \<Rightarrow> Inl Dangling
      | Some bs \<Rightarrow>
          let off = unat (p - in_pdata (conn st))
          in if off + n \<le> length bs then Inr off else Inl Out_Of_Bounds)"

definition packet_bytes :: "'w scl \<Rightarrow> byte list" where
  "packet_bytes st = (case heap (mem st) (in_pdata (conn st)) of None \<Rightarrow> [] | Some bs \<Rightarrow> bs)"

definition load :: "'w scl \<Rightarrow> addr \<Rightarrow> nat \<Rightarrow> byte list res" where
  "load st p n = bind_res (in_packet st p n) (\<lambda>off. Inr (take n (drop off (packet_bytes st))))"

definition store :: "'w scl \<Rightarrow> addr \<Rightarrow> byte list \<Rightarrow> 'w scl res" where
  "store st p new =
     bind_res (in_packet st p (length new)) (\<lambda>off.
       let bs = packet_bytes st;
           bs' = take off bs @ new @ drop (off + length new) bs
       in Inr (st\<lparr>mem := (mem st)\<lparr>heap := (heap (mem st))(in_pdata (conn st) \<mapsto> bs')\<rparr>\<rparr>))"

definition load_int :: "'w scl \<Rightarrow> addr \<Rightarrow> c_int res" where
  "load_int st p = bind_res (load st p 4) (\<lambda>bs. Inr (un_le4 bs))"

text \<open>The C string at an address of the packet.\<close>

definition load_str :: "'w scl \<Rightarrow> addr \<Rightarrow> byte list res" where
  "load_str st p = bind_res (in_packet st p 0) (\<lambda>off. c_str (drop off (packet_bytes st)))"

abbreviation cursor :: "'w scl \<Rightarrow> addr" where
  "cursor st \<equiv> in_pcursor (conn st)"

abbreviation advance :: "'w scl \<Rightarrow> addr \<Rightarrow> 'w scl" where
  "advance st k \<equiv> upd_conn (in_pcursor_update (\<lambda>p. p + k)) st"

section \<open>Packets\<close>

definition scl_free_packet_mem :: "libc \<Rightarrow> 'w scl \<Rightarrow> 'w scl res" where
  "scl_free_packet_mem E st =
     bind_res (mem_free_all E (mem st) (in_mem_id (conn st))) (\<lambda>m. Inr (st\<lparr>mem := m\<rparr>))"

text \<open>
  The result is what the function returns and the state. A packet without payload makes it return
  0, as a peer that has hung up does.
\<close>

definition scl_read_packet :: "libc \<Rightarrow> 'w scl_io \<Rightarrow> 'w scl \<Rightarrow> (int \<times> 'w scl) res" where
  "scl_read_packet E io st =
     (let (bytes, header, w) = io_read io True (world st) 16; st1 = st\<lparr>world := w\<rparr>
      in if bytes = 0 then Inr (0, st1)
         else if bytes \<noteq> 16 then Inr (-1, st1)
         else let opcode = un_le4 header; len = un_le4 (drop 12 header);
                  st2 = upd_conn (in_packet_opcode_update (\<lambda>_. opcode)) st1
              in bind_res (scl_free_packet_mem E st2) (\<lambda>st3.
                 bind_res (mem_alloc E (mem st3) (in_mem_id (conn st3)) len) (\<lambda>(p, m).
                   let (bytes', bs, w') = io_read io (p \<noteq> 0) (world st3) len;
                       m' = (if p = 0 then m
                             else m\<lparr>heap := (heap m)(p := map_option (\<lambda>old. bs @ drop (length bs) old) (heap m p))\<rparr>);
                       st4 = upd_conn (\<lambda>c. c\<lparr>in_pdata := p, in_pcursor := p\<rparr>) (st3\<lparr>mem := m', world := w'\<rparr>)
                   in if bytes' = 0 then Inr (0, st4)
                      else if bytes' \<noteq> sint len then Inr (-1, st4)
                      else Inr (bytes', st4))))"

section \<open>Values\<close>

text \<open>An \<open>int\<close> added to a pointer.\<close>

abbreviation ptr_int :: "c_int \<Rightarrow> addr" where
  "ptr_int n \<equiv> scast n"

text \<open>
  The loop over a string array: the length of each string is cleared, which ends the string before it,
  and the pointers are stored in the array at \<open>ptrs\<close>.
\<close>

definition store_ptr :: "'w scl \<Rightarrow> addr \<Rightarrow> nat \<Rightarrow> addr \<Rightarrow> 'w scl res" where
  "store_ptr st ptrs count p =
     (if ptrs = 0 then Inl Null_Deref
      else case heap (mem st) ptrs of
        None \<Rightarrow> Inl Dangling
      | Some bs \<Rightarrow>
          if 8 * count + 8 \<le> length bs
          then Inr (st\<lparr>mem := (mem st)\<lparr>heap := (heap (mem st))(ptrs \<mapsto>
                 take (8 * count) bs @ le8 p @ drop (8 * count + 8) bs)\<rparr>\<rparr>)
          else Inl Out_Of_Bounds)"

fun string_loop :: "'w scl \<Rightarrow> addr \<Rightarrow> nat \<Rightarrow> nat \<Rightarrow> 'w scl res" where
  "string_loop st ptrs count 0 = Inr st"
| "string_loop st ptrs count (Suc n) =
     bind_res (load_int st (cursor st)) (\<lambda>string_len.
     bind_res (store st (cursor st) [0, 0, 0, 0]) (\<lambda>st1.
       let st2 = advance st1 4
       in if string_len = 0
          then bind_res (store_ptr st2 ptrs count 0) (\<lambda>st3. string_loop st3 ptrs (count + 1) n)
          else bind_res (store_ptr st2 ptrs count (cursor st2)) (\<lambda>st3.
                 string_loop (advance st3 (ptr_int string_len)) ptrs (count + 1) n)))"

text \<open>
  \<open>scl_get_value\<close>: \<open>want\<close> says whether the caller passes a pointer for the number of elements. The
  result is the pointer returned, the number of elements when one was read, and the state.
\<close>

definition scl_get_value ::
  "libc \<Rightarrow> 'w scl \<Rightarrow> scl_type \<Rightarrow> bool \<Rightarrow> (addr \<times> c_int option \<times> 'w scl) res" where
  "scl_get_value E st type want =
     bind_res (if want \<and> scl_type_complex \<le> type
               then bind_res (load_int st (cursor st)) (\<lambda>n. Inr (Some n, advance st 4))
               else Inr (None, st)) (\<lambda>(array_len, st1).
       let retval = cursor st1
       in if type \<in> {SCL_INT, SCL_LONG, SCL_FLOAT, SCL_DOUB, SCL_BOOL}
          then Inr (retval, array_len, advance st1 (of_nat (unit_len type)))
          else if type \<in> {SCL_INT_A, SCL_LONG_A, SCL_FLOAT_A, SCL_DOUB_A, SCL_BOOL_A, SCL_DATA}
          then (case array_len of
                  None \<Rightarrow> Inr (0, None, st1)
                | Some n \<Rightarrow> Inr (retval, array_len, advance st1 (ptr_int (of_nat (unit_len type) * n))))
          else if type = SCL_STRING
          then bind_res (load_int st1 (cursor st1)) (\<lambda>string_len.
                 let st2 = advance st1 4
                 in if string_len = 0 then Inr (0, array_len, advance st2 1)
                    else bind_res (store st2 (cursor st2 + ptr_int string_len) [0]) (\<lambda>st3.
                           Inr (cursor st2, array_len, advance st3 (ptr_int (string_len + 1)))))
          else (case array_len of
                  None \<Rightarrow> Inr (0, None, advance st1 1)
                | Some n \<Rightarrow>
                    bind_res (mem_alloc E (mem st1) (in_mem_id (conn st1)) (8 * n)) (\<lambda>(ptrs, m).
                    bind_res (string_loop (st1\<lparr>mem := m\<rparr>) ptrs 0 (nat (sint n))) (\<lambda>st2.
                    bind_res (store st2 (cursor st2) [0]) (\<lambda>st3.
                      Inr (ptrs, array_len, advance st3 1))))))"

end
