(* ===== verification/Suva_Conn.thy ===== *)
theory Suva_Conn
  imports Scl_Reader
begin

text \<open>
  Connections (suva_conn.c) and the start of the library (suva_api.c). A process holds what all
  connections share: the memory manager, the queue cells, the static variables. The connection
  itself is a structure in managed memory of type 1024; the model keeps its contents beside the socket,
  in the field \<open>conn\<close> of the packet layer, and its address in \<open>conn_at\<close>.
\<close>

section \<open>The library\<close>

record process =
  api_init :: bool                \<comment> \<open>\<open>init\<close> of suva_api.c\<close>
  last_in_id :: c_int             \<comment> \<open>the static \<open>in_mem_id\<close> and \<open>out_mem_id\<close> of suva_conn.c\<close>
  last_out_id :: c_int
  sigpipe_ignored :: bool
  frees_at_exit :: nat            \<comment> \<open>how often \<open>suva_api_die\<close> is registered\<close>
  pmem :: mem_ctx
  pcells :: "addr \<Rightarrow> scl_ele"
  pcur_ele :: addr

definition SUVA_CONN_TYPE :: c_uint where [simp]: "SUVA_CONN_TYPE = 1024"
definition SUVA_CONN_SIZE :: c_uint where [simp]: "SUVA_CONN_SIZE = 88"
definition SCL_ELE_SIZE :: c_uint where [simp]: "SCL_ELE_SIZE = 24"

definition suva_api_die :: "libc \<Rightarrow> mem_ctx \<Rightarrow> mem_ctx res" where
  "suva_api_die E c = mem_free_all E c 0"

definition suva_api_init :: "libc \<Rightarrow> process \<Rightarrow> process res" where
  "suva_api_init E pr =
     (if api_init pr then Inr pr
      else let pr1 = pr\<lparr>api_init := True, frees_at_exit := frees_at_exit pr + 1, sigpipe_ignored := True\<rparr>
           in bind_res (mem_add_type E (mem_init (pmem pr1)) SUVA_CONN_TYPE (str ''Suva Connection'')) (\<lambda>(_, m).
                Inr (pr1\<lparr>pmem := m\<rparr>)))"

section \<open>Errors\<close>

text \<open>
  What a connection reports. The handler gets a number and a text, which may be NULL; the default
  one writes them to the log.
\<close>

record 'w session =
  scl :: "'w scl"
  conn_at :: addr
  fd_open :: bool
  reports :: "(c_int \<times> byte list option) list"

definition call_handler :: "'w session \<Rightarrow> c_int \<Rightarrow> byte list option \<Rightarrow> 'w session res" where
  "call_handler s err_num text =
     (if err_handler (conn (scl s)) then Inr (s\<lparr>reports := reports s @ [(err_num, text)]\<rparr>) else Inl Null_Deref)"

definition suva_throw_err :: "'w session \<Rightarrow> c_int \<Rightarrow> byte list option \<Rightarrow> 'w session" where
  "suva_throw_err s err_num text =
     (if err_handler (conn (scl s)) then s\<lparr>reports := reports s @ [(err_num, text)]\<rparr> else s)"

section \<open>Values and packets\<close>

text \<open>\<open>*(int *)scl_get_value(conn, SCL_INT, NULL)\<close>, and a string with the text behind the pointer.\<close>

definition get_int :: "libc \<Rightarrow> 'w scl \<Rightarrow> (c_int \<times> 'w scl) res" where
  "get_int E st =
     bind_res (scl_get_value E st SCL_INT False) (\<lambda>(p, _, st').
     bind_res (load_int st' p) (\<lambda>n. Inr (n, st')))"

definition get_str :: "libc \<Rightarrow> 'w scl \<Rightarrow> ((addr \<times> byte list option) \<times> 'w scl) res" where
  "get_str E st =
     bind_res (scl_get_value E st SCL_STRING False) (\<lambda>(p, _, st').
     if p = 0 then Inr ((0, None), st')
     else bind_res (load_str st' p) (\<lambda>s. Inr ((p, Some s), st')))"

definition c_int_obj :: "c_int \<Rightarrow> object" where
  "c_int_obj n = Block (le4 n)"

definition c_str_obj :: "byte list option \<Rightarrow> object" where
  "c_str_obj p = (case p of None \<Rightarrow> Null | Some s \<Rightarrow> Block (s @ [0]))"

text \<open>The calls of \<open>scl_queue_value\<close> one after the other, and then \<open>scl_write_out\<close>.\<close>

fun queue_values :: "libc \<Rightarrow> 'w scl \<Rightarrow> (object \<times> scl_type \<times> c_int) list \<Rightarrow> 'w scl res" where
  "queue_values E st [] = Inr st"
| "queue_values E st ((val, type, n) # items) =
     bind_res (scl_queue_value E st val type n) (\<lambda>st'. queue_values E st' items)"

definition send_packet ::
  "libc \<Rightarrow> 'w scl_io \<Rightarrow> c_int \<Rightarrow> (object \<times> scl_type \<times> c_int) list \<Rightarrow> 'w scl \<Rightarrow> 'w scl res" where
  "send_packet E io opcode items st =
     bind_res (queue_values E (upd_conn (out_packet_opcode_update (\<lambda>_. opcode)) st) items) (scl_write_out E io)"

text \<open>A result code and its text are read and handed to the error handler.\<close>

definition read_result :: "libc \<Rightarrow> 'w session \<Rightarrow> (c_int \<times> addr \<times> 'w session) res" where
  "read_result E s =
     bind_res (get_int E (scl s)) (\<lambda>(return_no, st1).
     bind_res (get_str E st1) (\<lambda>((p, return_text), st2).
     bind_res (call_handler (s\<lparr>scl := st2\<rparr>) return_no return_text) (\<lambda>s'.
       Inr (return_no, p, s'))))"

section \<open>Opening a connection\<close>

text \<open>
  The loop that looks for an unused memory type, \<open>while(mem_add_type(id) < 0) id = ++counter\<close>. Every
  round of \<open>mem_add_type\<close> that fails leaves the tables as they are, so after as many rounds as
  there are identifiers the loop runs forever.
\<close>

fun find_type :: "libc \<Rightarrow> byte list \<Rightarrow> nat \<Rightarrow> mem_ctx \<Rightarrow> c_uint \<Rightarrow> c_int \<Rightarrow> (c_uint \<times> c_int \<times> mem_ctx) res" where
  "find_type E name 0 c ident counter = Inl No_Return"
| "find_type E name (Suc k) c ident counter =
     bind_res (mem_add_type E c ident name) (\<lambda>(r, c').
       if r < 0 then find_type E name k c' (counter + 1) (counter + 1)
       else Inr (ident, counter, c'))"

definition ID_ROUNDS :: nat where "ID_ROUNDS = 2 ^ 32 + 1"

text \<open>How far the calls to the network get; a connected socket is the world of the packet layer.\<close>

datatype 'w dial = No_Host | No_Socket | Refused | No_Fcntl | Dialled 'w

definition drop_conn :: "libc \<Rightarrow> process \<Rightarrow> addr \<Rightarrow> process res" where
  "drop_conn E pr p = bind_res (mem_free E (pmem pr) p) (\<lambda>m. Inr (pr\<lparr>pmem := m\<rparr>))"

definition zero_conn :: suva_conn where
  "zero_conn = \<lparr>err_no = 0, err_text = 0, out_packet_len = 0, out_packet_opcode = 0, in_packet_opcode = 0,
     in_pdata = 0, in_pcursor = 0, err_handler = False, in_mem_id = 0, out_mem_id = 0,
     out_ele_queue = 0, out_cur_ele = 0\<rparr>"

text \<open>The shared state that a session changes goes back to the process.\<close>

definition leave :: "process \<Rightarrow> 'w session \<Rightarrow> process" where
  "leave pr s = pr\<lparr>pmem := mem (scl s), pcells := eles (scl s), pcur_ele := cur_ele (scl s)\<rparr>"

text \<open>
  A result that is not the expected one: the code and text are stored, the socket is closed, the
  packet and the connection are freed.
\<close>

definition reject :: "libc \<Rightarrow> process \<Rightarrow> 'w session \<Rightarrow> addr \<Rightarrow> process res" where
  "reject E pr s text =
     bind_res (scl_free_packet_mem E (upd_conn (\<lambda>c. c\<lparr>err_no := 1, err_text := text\<rparr>) (scl s))) (\<lambda>st.
       drop_conn E (leave pr (s\<lparr>scl := st, fd_open := False\<rparr>)) (conn_at s))"

text \<open>
  The two types of a new connection and its first queue cell; the static counter of the outbound
  types starts behind the one of the inbound types.
\<close>

definition setup_memory :: "libc \<Rightarrow> process \<Rightarrow> suva_conn \<Rightarrow> (suva_conn \<times> process) res" where
  "setup_memory E pr c =
     bind_res (find_type E (str ''SCL Inbound Packet Memory'') ID_ROUNDS (pmem pr) (in_mem_id c) (last_in_id pr)) (\<lambda>(i, ic, m1).
     bind_res (find_type E (str ''SCL Outbound Packet Memory'') ID_ROUNDS m1 (out_mem_id c) ic) (\<lambda>(ou, oc, m2).
     bind_res (mem_alloc E m2 ou SCL_ELE_SIZE) (\<lambda>(p, m3).
       Inr (c\<lparr>in_mem_id := i, out_mem_id := ou, out_cur_ele := p, out_ele_queue := p\<rparr>,
            pr\<lparr>pmem := m3, last_in_id := ic, last_out_id := oc,
              pcells := (if p = 0 then pcells pr else (pcells pr)(p := zero_ele))\<rparr>))))"

text \<open>The request of a new connection, and the two answers to it.\<close>

definition oconn_items :: "c_int \<Rightarrow> c_int \<Rightarrow> byte list option \<Rightarrow> byte list option \<Rightarrow> (object \<times> scl_type \<times> c_int) list" where
  "oconn_items timeout remote_port remote_host org =
     [(c_int_obj timeout, SCL_INT, 1), (c_int_obj remote_port, SCL_INT, 1),
      (c_str_obj remote_host, SCL_STRING, 1), (c_str_obj org, SCL_STRING, 1)]"

definition handshake ::
  "libc \<Rightarrow> 'w scl_io \<Rightarrow> process \<Rightarrow> 'w session \<Rightarrow> (process \<times> 'w session option) res" where
  "handshake E io pr s0 =
     bind_res (scl_read_packet E io (scl s0)) (\<lambda>(n, st2).
       let s1 = s0\<lparr>scl := st2\<rparr>
       in if n \<le> 0 then Inr (leave pr s1, None)
          else bind_res (read_result E s1) (\<lambda>(return_no, text, s2).
            if return_no \<noteq> SRC_CONNECT
            then bind_res (reject E pr s2 text) (\<lambda>pr'. Inr (pr', None))
            else bind_res (scl_read_packet E io (scl s2)) (\<lambda>(_, st3).
                 bind_res (read_result E (s2\<lparr>scl := st3\<rparr>)) (\<lambda>(return_no, text, s4).
                   if return_no \<noteq> SRC_CONNECTED
                   then bind_res (reject E pr s4 text) (\<lambda>pr'. Inr (pr', None))
                   else bind_res (scl_free_packet_mem E (scl s4)) (\<lambda>st5.
                          let s5 = s4\<lparr>scl := st5\<rparr> in Inr (leave pr s5, Some s5))))))"

definition open_suva_conn ::
  "libc \<Rightarrow> 'w scl_io \<Rightarrow> 'w dial \<Rightarrow> c_int \<Rightarrow> byte list option \<Rightarrow> byte list option \<Rightarrow> c_int \<Rightarrow> process \<Rightarrow>
   (process \<times> 'w session option) res" where
  "open_suva_conn E io dial remote_port remote_host org timeout pr0 =
     bind_res (suva_api_init E pr0) (\<lambda>pr1.
     bind_res (mem_alloc E (pmem pr1) SUVA_CONN_TYPE SUVA_CONN_SIZE) (\<lambda>(p, m).
       let pr2 = pr1\<lparr>pmem := m\<rparr>; failed = bind_res (drop_conn E pr2 p) (\<lambda>pr'. Inr (pr', None))
       in case dial of
            No_Host \<Rightarrow> failed
          | No_Socket \<Rightarrow> failed
          | _ \<Rightarrow>
            if p = 0 then Inl Null_Deref
            else case dial of
              Dialled w \<Rightarrow>
                bind_res (setup_memory E pr2 (zero_conn\<lparr>err_handler := True\<rparr>)) (\<lambda>(c, pr3).
                  let st = \<lparr>mem = pmem pr3, eles = pcells pr3, cur_ele = pcur_ele pr3, world = w, conn = c\<rparr>
                  in bind_res (send_packet E io SCL_OCONN (oconn_items timeout remote_port remote_host org) st) (\<lambda>st1.
                       handshake E io pr3 \<lparr>scl = st1, conn_at = p, fd_open = True, reports = []\<rparr>))
            | _ \<Rightarrow> failed))"

section \<open>Closing, and suvlets\<close>

text \<open>
  \<open>close_suva_conn\<close>: the first cell of the queue is freed before the queue is written out.
\<close>

definition close_suva_conn :: "libc \<Rightarrow> 'w scl_io \<Rightarrow> 'w session \<Rightarrow> 'w session res" where
  "close_suva_conn E io s =
     (let st = scl s
      in bind_res (mem_free E (mem st) (out_ele_queue (conn st))) (\<lambda>m.
         bind_res (scl_free_packet_mem E (st\<lparr>mem := m\<rparr>)) (\<lambda>st1.
         bind_res (scl_write_out E io (upd_conn (out_packet_opcode_update (\<lambda>_. SCL_CCONN)) st1)) (\<lambda>st2.
         bind_res (scl_read_packet E io st2) (\<lambda>(_, st3).
         bind_res (scl_free_packet_mem E st3) (\<lambda>st4.
         bind_res (mem_free E (mem st4) (conn_at s)) (\<lambda>m'.
           Inr (s\<lparr>scl := st4\<lparr>mem := m'\<rparr>, conn_at := 0, fd_open := False\<rparr>))))))))"

definition csuvlet_items :: "c_int \<Rightarrow> c_int \<Rightarrow> c_int \<Rightarrow> byte list option \<Rightarrow> (object \<times> scl_type \<times> c_int) list" where
  "csuvlet_items ttl exclusive encrypted suvlet_name =
     [(c_int_obj ttl, SCL_INT, 1), (c_int_obj exclusive, SCL_INT, 1), (c_int_obj encrypted, SCL_INT, 1),
      (c_str_obj suvlet_name, SCL_STRING, 1)]"

definition create_suvlet ::
  "libc \<Rightarrow> 'w scl_io \<Rightarrow> 'w session \<Rightarrow> byte list option \<Rightarrow> c_int \<Rightarrow> c_int \<Rightarrow> c_int \<Rightarrow> (c_int \<times> 'w session) res" where
  "create_suvlet E io s suvlet_name exclusive encrypted ttl =
     bind_res (send_packet E io SCL_CSUVLET (csuvlet_items ttl exclusive encrypted suvlet_name) (scl s)) (\<lambda>st1.
     bind_res (scl_read_packet E io st1) (\<lambda>(_, st2).
     bind_res (read_result E (s\<lparr>scl := st2\<rparr>)) (\<lambda>(result_code, _, s1).
       if result_code = SRC_OKAY
       then bind_res (scl_free_packet_mem E (scl s1)) (\<lambda>st3. Inr (1, s1\<lparr>scl := st3\<rparr>))
       else bind_res (if in_packet_opcode (conn (scl s1)) \<noteq> SCL_RETURN
                      then call_handler s1 0 (Some (str ''Received unexpected return code.''))
                      else Inr s1) (\<lambda>s2.
            bind_res (scl_free_packet_mem E (scl s2)) (\<lambda>st3. Inr (0, s2\<lparr>scl := st3\<rparr>))))))"

definition destroy_suvlet :: "libc \<Rightarrow> 'w scl_io \<Rightarrow> 'w scl \<Rightarrow> 'w scl res" where
  "destroy_suvlet E io st =
     bind_res (scl_write_out E io (upd_conn (out_packet_opcode_update (\<lambda>_. SCL_DSUVLET)) st)) (\<lambda>st1.
     bind_res (scl_read_packet E io st1) (\<lambda>(_, st2). scl_free_packet_mem E st2))"

text \<open>\<open>suva_unexpected_return\<close> reads one more packet and takes the error out of that one.\<close>

definition suva_unexpected_return :: "libc \<Rightarrow> 'w scl_io \<Rightarrow> 'w session \<Rightarrow> 'w session res" where
  "suva_unexpected_return E io s =
     (if in_packet_opcode (conn (scl s)) = SCL_FERROR
      then bind_res (scl_read_packet E io (scl s)) (\<lambda>(_, st1).
           bind_res (get_int E st1) (\<lambda>(return_no, st2).
           bind_res (get_str E st2) (\<lambda>((_, return_text), st3).
             Inr (suva_throw_err (s\<lparr>scl := st3\<rparr>) return_no return_text))))
      else Inr s)"

definition get_additional_packet_mem :: "libc \<Rightarrow> 'w scl \<Rightarrow> c_uint \<Rightarrow> (addr \<times> 'w scl) res" where
  "get_additional_packet_mem E st n =
     bind_res (mem_alloc E (mem st) (out_mem_id (conn st)) n) (\<lambda>(p, m). Inr (p, st\<lparr>mem := m\<rparr>))"

end
