(* ===== verification/Scl_IO.thy ===== *)
theory Scl_IO
  imports Suva_Prelude
begin

text \<open>
  \<open>scl_read\<close> and \<open>scl_write\<close>: the loops over the non-blocking socket. A socket is the list of what
  its future \<open>read\<close> and \<open>write\<close> calls find and the bytes the kernel has taken so far. A call that
  would block carries the value of \<open>time(NULL) - start_time\<close> after it, the seconds since the last
  progress. After the last listed call the peer has hung up.
\<close>

section \<open>The socket\<close>

datatype rd_result =
    Rd "byte list"   \<comment> \<open>bytes that have arrived; none at the end of the stream\<close>
  | Rd_Again int     \<comment> \<open>EAGAIN or EWOULDBLOCK, and the new \<open>read_time\<close>\<close>
  | Rd_Error

datatype wr_result =
    Wr nat           \<comment> \<open>room for that many bytes\<close>
  | Wr_Again int
  | Wr_Error

record sock =
  rd_calls :: "rd_result list"
  wr_calls :: "wr_result list"
  wire :: "byte list"

definition SCL_TIMEOUT :: int where "SCL_TIMEOUT = 30"

section \<open>Reading\<close>

text \<open>
  The loop: \<open>len\<close> is the length asked for, \<open>n\<close> what is still missing, \<open>got\<close> what is in the
  buffer. The result is the return value, the contents of the buffer and the calls that are left.
  A \<open>read\<close> never stores more than it is asked for; what it leaves stays in the socket. A \<open>read\<close>
  of 0 bytes returns 0 at once.
\<close>

fun scl_read_loop ::
  "nat \<Rightarrow> rd_result list \<Rightarrow> nat \<Rightarrow> byte list \<Rightarrow> int \<times> byte list \<times> rd_result list" where
  "scl_read_loop len [] n got = (if n = 0 then int len else 0, got, [])"
| "scl_read_loop len (Rd bs # calls) n got =
     (if n = 0 then (int len, got, Rd bs # calls)
      else if n = length bs then (int len, got @ bs, calls)
      else if n < length bs then (int len, got @ take n bs, Rd (drop n bs) # calls)
      else if bs = [] then (0, got, calls)
      else scl_read_loop len calls (n - length bs) (got @ bs))"
| "scl_read_loop len (Rd_Again read_time # calls) n got =
     (if n = 0 then (int len, got, Rd_Again read_time # calls)
      else if read_time < SCL_TIMEOUT then scl_read_loop len calls n got
      else (-1, got, calls))"
| "scl_read_loop len (Rd_Error # calls) n got =
     (if n = 0 then (int len, got, Rd_Error # calls) else (-1, got, calls))"

text \<open>
  \<open>scl_read\<close> into a buffer that exists (\<open>room\<close>) or a null pointer, into which \<open>read\<close> fails with
  \<open>EFAULT\<close> as soon as there is something to store. The length is returned as an \<open>int\<close>.
\<close>

definition scl_read :: "bool \<Rightarrow> sock \<Rightarrow> c_uint \<Rightarrow> int \<times> byte list \<times> sock" where
  "scl_read room s len =
     (if \<not> room \<and> len \<noteq> 0 then (-1, [], s)
      else let (r, bs, calls) = scl_read_loop (unat len) (rd_calls s) (unat len) []
           in (if r = int (unat len) then sint len else r, bs, s\<lparr>rd_calls := calls\<rparr>))"

section \<open>Writing\<close>

fun scl_write_loop ::
  "nat \<Rightarrow> wr_result list \<Rightarrow> byte list \<Rightarrow> byte list \<Rightarrow> int \<times> byte list \<times> wr_result list" where
  "scl_write_loop len [] bs out = (if bs = [] then int len else 0, out, [])"
| "scl_write_loop len (Wr k # calls) bs out =
     (if bs = [] then (int len, out, Wr k # calls)
      else if length bs = k then (int len, out @ bs, calls)
      else if length bs < k then (int len, out @ bs, Wr (k - length bs) # calls)
      else if k = 0 then (0, out, calls)
      else scl_write_loop len calls (drop k bs) (out @ take k bs))"
| "scl_write_loop len (Wr_Again write_time # calls) bs out =
     (if bs = [] then (int len, out, Wr_Again write_time # calls)
      else if write_time < SCL_TIMEOUT then scl_write_loop len calls bs out
      else (-1, out, calls))"
| "scl_write_loop len (Wr_Error # calls) bs out =
     (if bs = [] then (int len, out, Wr_Error # calls) else (-1, out, calls))"

text \<open>\<open>scl_write\<close> of the bytes of a buffer; no caller passes \<open>2 ^ 31\<close> bytes or more.\<close>

definition scl_write :: "sock \<Rightarrow> byte list \<Rightarrow> int \<times> sock" where
  "scl_write s bs =
     (let (r, out, calls) = scl_write_loop (length bs) (wr_calls s) bs (wire s)
      in (r, s\<lparr>wr_calls := calls, wire := out\<rparr>))"

section \<open>Lemmas\<close>

text \<open>The bytes a socket has still to deliver, and the bytes it has room for.\<close>

fun rd_bytes :: "rd_result \<Rightarrow> byte list" where
  "rd_bytes (Rd bs) = bs"
| "rd_bytes _ = []"

definition to_read :: "sock \<Rightarrow> byte list" where
  "to_read s = concat (map rd_bytes (rd_calls s))"

fun wr_room :: "wr_result \<Rightarrow> nat" where
  "wr_room (Wr k) = k"
| "wr_room _ = 0"

definition room_left :: "sock \<Rightarrow> nat" where
  "room_left s = sum_list (map wr_room (wr_calls s))"

text \<open>A peer that keeps up: no error, no hang-up, no pause of the length of the time-out.\<close>

fun rd_prompt :: "rd_result \<Rightarrow> bool" where
  "rd_prompt (Rd bs) \<longleftrightarrow> bs \<noteq> []"
| "rd_prompt (Rd_Again t) \<longleftrightarrow> t < SCL_TIMEOUT"
| "rd_prompt Rd_Error \<longleftrightarrow> False"

fun wr_prompt :: "wr_result \<Rightarrow> bool" where
  "wr_prompt (Wr k) \<longleftrightarrow> k \<noteq> 0"
| "wr_prompt (Wr_Again t) \<longleftrightarrow> t < SCL_TIMEOUT"
| "wr_prompt Wr_Error \<longleftrightarrow> False"

definition prompt :: "sock \<Rightarrow> bool" where
  "prompt s \<longleftrightarrow> list_all rd_prompt (rd_calls s) \<and> list_all wr_prompt (wr_calls s)"

lemma scl_read_loop_stream:
  "scl_read_loop len calls n got = (r, bs, calls') \<Longrightarrow>
   bs @ concat (map rd_bytes calls') = got @ concat (map rd_bytes calls)"
  by (induction len calls n got arbitrary: r bs calls' rule: scl_read_loop.induct)
    (auto split: if_splits)

lemma scl_read_loop_full:
  "scl_read_loop len calls n got = (r, bs, calls') \<Longrightarrow> r = int len \<Longrightarrow> 0 < len \<Longrightarrow>
   length bs = length got + n"
  by (induction len calls n got arbitrary: r bs calls' rule: scl_read_loop.induct)
    (auto split: if_splits)

lemma scl_read_loop_outcome:
  "scl_read_loop len calls n got = (r, bs, calls') \<Longrightarrow> r = int len \<or> r = 0 \<or> r = -1"
  by (induction len calls n got arbitrary: r bs calls' rule: scl_read_loop.induct)
    (auto split: if_splits)

lemma scl_read_loop_prompt:
  "list_all rd_prompt calls \<Longrightarrow> n \<le> length (concat (map rd_bytes calls)) \<Longrightarrow>
   \<exists>calls'. scl_read_loop len calls n got = (int len, got @ take n (concat (map rd_bytes calls)), calls') \<and>
     concat (map rd_bytes calls') = drop n (concat (map rd_bytes calls)) \<and> list_all rd_prompt calls'"
  by (induction len calls n got rule: scl_read_loop.induct) auto

lemma scl_write_loop_prefix:
  "scl_write_loop len calls bs out = (r, out', calls') \<Longrightarrow>
   \<exists>k \<le> length bs. out' = out @ take k bs \<and> (r = int len \<and> 0 < len \<longrightarrow> k = length bs)"
proof (induction len calls bs out arbitrary: r out' calls' rule: scl_write_loop.induct)
  case (2 len k calls bs out)
  show ?case
  proof (cases "bs \<noteq> [] \<and> 0 < k \<and> k < length bs")
    case True
    with 2 obtain j where "j \<le> length bs - k" "out' = out @ take k bs @ take j (drop k bs)"
        "r = int len \<and> 0 < len \<longrightarrow> j = length bs - k" by fastforce
    then show ?thesis
      by (intro exI [of _ "k + j"]) (use True in \<open>auto simp: take_add\<close>)
  next
    case False
    with 2(2) show ?thesis by (auto split: if_splits intro: exI [of _ 0])
  qed
qed (auto split: if_splits intro: exI [of _ 0])

lemma scl_write_loop_prompt:
  "list_all wr_prompt calls \<Longrightarrow> length bs \<le> sum_list (map wr_room calls) \<Longrightarrow>
   \<exists>calls'. scl_write_loop len calls bs out = (int len, out @ bs, calls') \<and>
     sum_list (map wr_room calls') = sum_list (map wr_room calls) - length bs \<and> list_all wr_prompt calls'"
proof (induction len calls bs out rule: scl_write_loop.induct)
  case (2 len k calls bs out)
  show ?case
  proof (cases "bs \<noteq> [] \<and> k < length bs")
    case True
    with 2(2,3) have "length (drop k bs) \<le> sum_list (map wr_room calls)" "list_all wr_prompt calls" "k \<noteq> 0"
      by simp_all
    with 2(1) True show ?thesis by fastforce
  next
    case False
    with 2(2) show ?thesis by auto
  qed
qed auto

lemma scl_write_prompt:
  assumes "prompt s" and "length bs \<le> room_left s"
  obtains s' where "scl_write s bs = (int (length bs), s')" "wire s' = wire s @ bs" "prompt s'"
    "room_left s' = room_left s - length bs" "rd_calls s' = rd_calls s"
  using assms scl_write_loop_prompt [of "wr_calls s" bs "length bs" "wire s"]
  by (auto simp: scl_write_def prompt_def room_left_def)

lemma scl_read_prompt:
  assumes "prompt s" and "unat len \<le> length (to_read s)"
  obtains s' where "scl_read True s len = (sint len, take (unat len) (to_read s), s')"
    "to_read s' = drop (unat len) (to_read s)" "prompt s'" "wire s' = wire s" "wr_calls s' = wr_calls s"
  using assms scl_read_loop_prompt [of "rd_calls s" "unat len" "unat len" "[]"]
  by (auto simp: scl_read_def prompt_def to_read_def)

section \<open>Properties\<close>

text \<open>C26: Whatever the socket does, \<open>scl_read\<close> neither loses nor repeats nor reorders a byte: what it
  stores and what is left to read make up the stream. It returns the length, 0 or -1, and
  the length only when the buffer is full.\<close>

theorem scl_read_stream:
  assumes "scl_read True s len = (r, bs, s')" and "0 < len" and "unat len < 2 ^ 31"
  shows "bs @ to_read s' = to_read s \<and> wire s' = wire s \<and> (r = int (unat len) \<or> r = 0 \<or> r = -1) \<and>
    (r = int (unat len) \<longrightarrow> length bs = unat len)"
proof -
  obtain q ds calls where run: "scl_read_loop (unat len) (rd_calls s) (unat len) [] = (q, ds, calls)"
    by (cases "scl_read_loop (unat len) (rd_calls s) (unat len) []")
  have sint: "sint len = int (unat len)" using assms(3) by (rule sint_small)
  from run assms(1) sint have eq: "r = q" "bs = ds" "s' = s\<lparr>rd_calls := calls\<rparr>"
    by (auto simp: scl_read_def split: if_splits)
  have "0 < unat len" using assms(2) by (simp add: word_less_nat_alt)
  with scl_read_loop_stream [OF run] scl_read_loop_full [OF run] scl_read_loop_outcome [OF run] show ?thesis
    by (auto simp: eq to_read_def)
qed

lemma scl_read_stream_witness:
  "[1, 2, 3] @ to_read \<lparr>rd_calls = [Rd [4]], wr_calls = [], wire = []\<rparr> =
     to_read \<lparr>rd_calls = [Rd [1], Rd_Again 29, Rd [2, 3, 4]], wr_calls = [], wire = []\<rparr>"
  using scl_read_stream [of "\<lparr>rd_calls = [Rd [1], Rd_Again 29, Rd [2, 3, 4]], wr_calls = [], wire = []\<rparr>" 3 3
      "[1, 2, 3]" "\<lparr>rd_calls = [Rd [4]], wr_calls = [], wire = []\<rparr>"]
  by (simp add: scl_read_def SCL_TIMEOUT_def)

text \<open>\<open>scl_read\<close> does not depend on how the stream is cut into pieces: as long as the peer keeps up,
  it fills the buffer with the next \<open>len\<close> bytes, however many calls that takes and however often they
  would block.\<close>

theorem scl_read_fragments:
  assumes "prompt s" and "unat len \<le> length (to_read s)"
  shows "\<exists>s'. scl_read True s len = (sint len, take (unat len) (to_read s), s') \<and>
    to_read s' = drop (unat len) (to_read s) \<and> prompt s' \<and> wire s' = wire s"
  using assms by (rule scl_read_prompt) blast

lemma scl_read_fragments_witness:
  "\<exists>s'. scl_read True \<lparr>rd_calls = [Rd [1], Rd_Again 29, Rd [2, 3, 4]], wr_calls = [], wire = []\<rparr> 3 = (3, [1, 2, 3], s')"
  using scl_read_fragments [of "\<lparr>rd_calls = [Rd [1], Rd_Again 29, Rd [2, 3, 4]], wr_calls = [], wire = []\<rparr>" 3]
  by (auto simp: prompt_def to_read_def SCL_TIMEOUT_def)

text \<open>\<open>scl_write\<close> puts a prefix of its bytes on the wire, all of them when it returns the length;
  as long as the peer keeps up and there is room, it does.\<close>

theorem scl_write_prefix:
  "\<exists>k \<le> length bs. wire (snd (scl_write s bs)) = wire s @ take k bs \<and>
     (fst (scl_write s bs) = int (length bs) \<and> bs \<noteq> [] \<longrightarrow> k = length bs) \<and>
     (prompt s \<and> length bs \<le> room_left s \<longrightarrow> fst (scl_write s bs) = int (length bs) \<and> k = length bs)"
proof -
  obtain r out calls where run: "scl_write_loop (length bs) (wr_calls s) bs (wire s) = (r, out, calls)"
    by (cases "scl_write_loop (length bs) (wr_calls s) bs (wire s)")
  from scl_write_loop_prefix [OF run] obtain k where
    k: "k \<le> length bs" "out = wire s @ take k bs" "r = int (length bs) \<and> 0 < length bs \<longrightarrow> k = length bs" by blast
  have "r = int (length bs) \<and> k = length bs" if "prompt s" "length bs \<le> room_left s"
  proof -
    from that obtain s' where "scl_write s bs = (int (length bs), s')" by (rule scl_write_prompt)
    with run have "r = int (length bs)" by (simp add: scl_write_def)
    with k show ?thesis by (cases bs) auto
  qed
  with k run show ?thesis by (intro exI [of _ k]) (auto simp: scl_write_def)
qed

lemma scl_write_prefix_witness:
  "wire (snd (scl_write \<lparr>rd_calls = [], wr_calls = [Wr 1, Wr_Again 5, Wr 9], wire = [7]\<rparr> [1, 2, 3])) = [7, 1, 2, 3]"
  using scl_write_prefix [of "[1, 2, 3]" "\<lparr>rd_calls = [], wr_calls = [Wr 1, Wr_Again 5, Wr 9], wire = [7]\<rparr>"]
  by (auto simp: prompt_def room_left_def SCL_TIMEOUT_def)

end
