(* ===== verification/Mem_Supply.thy ===== *)
theory Mem_Supply
  imports Mem_Props
begin

text \<open>
  Enough memory for a while. \<open>ample E T k c\<close> says that the next \<open>k\<close> calls of the manager, whatever
  they free and write, find memory for every block of a type of \<open>T\<close>; \<open>spends E k c c'\<close> that the
  way from \<open>c\<close> to \<open>c'\<close> takes at most \<open>k\<close> of them. The clients of the manager state what they spend.
\<close>

fun ample :: "libc \<Rightarrow> c_uint set \<Rightarrow> nat \<Rightarrow> mem_ctx \<Rightarrow> bool" where
  "ample E T 0 c \<longleftrightarrow> True"
| "ample E T (Suc k) c \<longleftrightarrow>
     (\<forall>t \<in> T. \<forall>n. unat n < 2 ^ 31 \<longrightarrow> (\<exists>p c'. mem_alloc E c t n = Inr (p, c') \<and> p \<noteq> 0 \<and> ample E T k c')) \<and>
     (\<forall>p c'. mem_free E c p = Inr c' \<longrightarrow> ample E T k c') \<and>
     (\<forall>t c'. t \<noteq> 0 \<longrightarrow> mem_free_all E c t = Inr c' \<longrightarrow> ample E T k c') \<and>
     (\<forall>p old bs. heap c p = Some old \<longrightarrow> length bs = length old \<longrightarrow> ample E T k (c\<lparr>heap := (heap c)(p \<mapsto> bs)\<rparr>))"

declare ample.simps(2) [simp del]

lemma heap_self: "heap c p = Some bs \<Longrightarrow> c\<lparr>heap := (heap c)(p \<mapsto> bs)\<rparr> = c"
  by (cases c) (auto simp: map_upd_triv)

lemma ample_Suc: "ample E T (Suc k) c \<Longrightarrow> ample E T k c"
proof (induction k arbitrary: c)
  case (Suc k)
  note c = Suc.prems [unfolded ample.simps(2) [of E T "Suc k"]]
  have "\<exists>p c'. mem_alloc E c t n = Inr (p, c') \<and> p \<noteq> 0 \<and> ample E T k c'" if "t \<in> T" "unat n < 2 ^ 31" for t n
    using c that Suc.IH by blast
  moreover have "ample E T k c'" if "mem_free E c p = Inr c'" for p c'
    using c that Suc.IH by blast
  moreover have "ample E T k c'" if "t \<noteq> 0" "mem_free_all E c t = Inr c'" for t c'
    using c that Suc.IH by blast
  moreover have "ample E T k (c\<lparr>heap := (heap c)(p \<mapsto> bs)\<rparr>)"
    if "heap c p = Some old" "length bs = length old" for p old bs
    using c that Suc.IH by blast
  ultimately show ?case unfolding ample.simps(2) [of E T k] by (intro conjI ballI allI impI)
qed simp

lemma ample_le: "ample E T k c \<Longrightarrow> j \<le> k \<Longrightarrow> ample E T j c"
proof (induction k)
  case (Suc k)
  then show ?case by (metis ample_Suc le_Suc_eq)
qed simp

definition spends :: "libc \<Rightarrow> c_uint set \<Rightarrow> nat \<Rightarrow> mem_ctx \<Rightarrow> mem_ctx \<Rightarrow> bool" where
  "spends E T k c c' \<longleftrightarrow> (\<forall>j. ample E T (k + j) c \<longrightarrow> ample E T j c')"

lemma spends_refl: "spends E T 0 c c"
  by (simp add: spends_def)

lemma spends_trans: "spends E T k c c' \<Longrightarrow> spends E T j c' c'' \<Longrightarrow> spends E T (k + j) c c''"
  by (auto simp: spends_def add.assoc)

lemma spendsD: "spends E T k c c' \<Longrightarrow> ample E T n c \<Longrightarrow> k + j \<le> n \<Longrightarrow> ample E T j c'"
  by (auto simp: spends_def dest: ample_le)

lemma spends_le: "spends E T k c c' \<Longrightarrow> k \<le> j \<Longrightarrow> spends E T j c c'"
  unfolding spends_def by (meson add_le_mono1 ample_le)

lemma spends_free: "mem_free E c p = Inr c' \<Longrightarrow> spends E T 1 c c'"
  by (auto simp: spends_def ample.simps(2))

lemma spends_free_all: "mem_free_all E c t = Inr c' \<Longrightarrow> t \<noteq> 0 \<Longrightarrow> spends E T 1 c c'"
  by (auto simp: spends_def ample.simps(2))

lemma spends_write:
  "heap c p = Some old \<Longrightarrow> length bs = length old \<Longrightarrow> spends E T 1 c (c\<lparr>heap := (heap c)(p \<mapsto> bs)\<rparr>)"
  by (auto simp: spends_def ample.simps(2))

lemma spends_alloc:
  assumes "mem_alloc E c t n = Inr (p, c')" and "t \<in> T" and "unat n < 2 ^ 31"
  shows "spends E T 1 c c'"
  unfolding spends_def
proof (intro allI impI)
  fix j assume "ample E T (1 + j) c"
  then have "\<exists>p c'. mem_alloc E c t n = Inr (p, c') \<and> p \<noteq> 0 \<and> ample E T j c'"
    using assms(2,3) by (simp add: ample.simps(2))
  with assms(1) show "ample E T j c'" by auto
qed

lemma ample_alloc:
  assumes "ample E T k c" and "t \<in> T" and "unat n < 2 ^ 31" and "0 < k"
  obtains p c' where "mem_alloc E c t n = Inr (p, c')" "p \<noteq> 0"
proof -
  from assms(4) obtain j where "k = Suc j" by (cases k) auto
  from assms(1) have "\<forall>t \<in> T. \<forall>n. unat n < 2 ^ 31 \<longrightarrow> (\<exists>p c'. mem_alloc E c t n = Inr (p, c') \<and> p \<noteq> 0 \<and> ample E T j c')"
    unfolding \<open>k = Suc j\<close> ample.simps(2) by (rule conjunct1)
  with assms(2,3) that show thesis by blast
qed

section \<open>A library with a large heap\<close>

definition used :: "libc \<Rightarrow> mem_ctx \<Rightarrow> addr set" where
  "used E c = dom (heap c) \<union> dom (info_heap c) \<union> dom (lookup E c)"

definition cell :: "nat \<Rightarrow> addr" where
  "cell i = of_nat (2 ^ 40 * (i + 1))"

definition cells :: "addr list" where
  "cells = map cell [0..<1000]"

definition large_libc :: libc where
  "large_libc = sample_libc\<lparr>malloc := (\<lambda>c n. if n < 2 ^ 31 then find (mem_fresh c) cells else None)\<rparr>"

lemma unat_cell: "i < 1000 \<Longrightarrow> unat (cell i) = 2 ^ 40 * (i + 1)"
  unfolding cell_def unat_of_nat by simp

lemma large_libc_ok: "libc_ok large_libc"
proof -
  have "mem_fresh c a \<and> unat a + n < 2 ^ 64" if "malloc large_libc c n = Some a" for c n a
  proof -
    from that have n: "n < 2 ^ 31" and f: "find (mem_fresh c) cells = Some a"
      by (simp_all add: large_libc_def split: if_splits)
    from find_Some_in [OF f] have "mem_fresh c a" "a \<in> cell ` {0..<1000}" by (simp_all only: cells_def set_map set_upt)
    then obtain i where a: "mem_fresh c a" "a = cell i" "i < 1000" by auto
    with n show ?thesis by (simp add: unat_cell)
  qed
  moreover have "a = p" if "realloc large_libc c p n = Some a" for c p n a
    using that by (simp add: large_libc_def sample_libc_def split: if_splits)
  ultimately show ?thesis unfolding libc_ok_def by blast
qed

lemma fresh_unused:
  assumes "mem_wf E c" and "a \<notin> used E c" and "a \<noteq> 0"
  shows "mem_fresh c a"
proof -
  from assms(1) have t: "table_wf E c" by (simp add: mem_wf_def)
  have "p_ptr e \<noteq> a" if e: "e \<in> set (pMemList c i)" for e i
  proof
    assume "p_ptr e = a"
    with t e have "e \<in> set (pMemList c (hash_ptr E a))" by (auto simp: table_wf_def)
    with \<open>p_ptr e = a\<close> have "lookup E c a \<noteq> None" by (auto simp: lookup_None_iff)
    with assms(2) show False by (auto simp: used_def)
  qed
  with assms show ?thesis by (auto simp: mem_fresh_def used_def)
qed

lemma large_malloc:
  assumes "mem_wf large_libc c" and "finite (used large_libc c)" and "card (used large_libc c) < 1000" and "n < 2 ^ 31"
  shows "malloc large_libc c n \<noteq> None"
proof
  assume "malloc large_libc c n = None"
  with assms(4) have "find (mem_fresh c) cells = None" by (simp add: large_libc_def)
  then have none: "\<not> mem_fresh c a" if "a \<in> cell ` {0..<1000}" for a
    using that unfolding find_None_iff cells_def set_map set_upt by blast
  have "cell i \<noteq> 0" if "i < 1000" for i using unat_cell [OF that] by auto
  with none fresh_unused [OF assms(1)] have "cell ` {0..<1000} \<subseteq> used large_libc c" by force
  moreover have "inj_on cell {0..<1000}"
  proof (rule inj_onI)
    fix i j assume "i \<in> {0..<1000 :: nat}" "j \<in> {0..<1000 :: nat}" "cell i = cell j"
    then have "(2 :: nat) ^ 40 * (i + 1) = 2 ^ 40 * (j + 1)"
      using unat_cell [of i] unat_cell [of j] unfolding atLeastLessThan_iff by (simp only:)
    then show "i = j" by simp
  qed
  then have "card (cell ` {0..<1000}) = 1000" by (simp add: card_image)
  ultimately have "1000 \<le> card (used large_libc c)" using assms(2) by (metis card_mono)
  with assms(3) show False by simp
qed

text \<open>Writing into a block keeps the invariant.\<close>

lemma mem_wf_overwrite:
  assumes wf: "mem_wf E c" and h: "heap c p = Some old" "length bs = length old"
  shows "mem_wf E (c\<lparr>heap := (heap c)(p \<mapsto> bs)\<rparr>)" (is "mem_wf E ?c")
proof -
  have lk: "lookup E ?c = lookup E c" by (rule lookup_cong) simp
  have "entry_wf E ?c e" if e: "lookup E c q = Some e" for q e
  proof -
    have "entry_wf E c e" using wf e by (simp add: mem_wf_def)
    then show ?thesis using h by (cases "p_ptr e = p") (auto simp: entry_wf_def)
  qed
  then show ?thesis using wf by (simp add: mem_wf_def lk info_wf_def table_wf_def)
qed

lemma freed_used: "freed E S c c' \<Longrightarrow> used E c' \<subseteq> used E c"
  by (auto simp: freed_def used_def dom_def split: if_splits)

lemma large_ample:
  "mem_wf large_libc c \<Longrightarrow> finite (used large_libc c) \<Longrightarrow> card (used large_libc c) + k < 1000 \<Longrightarrow>
   \<forall>t \<in> T. t \<noteq> 0 \<and> type_exists large_libc c t \<Longrightarrow> ample large_libc T k c"
proof (induction k arbitrary: c)
  case 0
  then show ?case by simp
next
  case (Suc k)
  let ?E = large_libc
  note c = Suc.prems
  have lt: "card (used ?E c) < 1000" using c(3) by simp
  have smaller: "ample ?E T k d" if f: "freed ?E S c d" for S d
  proof (rule Suc.IH)
    show "mem_wf ?E d" using f by (rule freed_wf)
    show "finite (used ?E d)" using freed_used [OF f] c(2) by (rule finite_subset)
    have "card (used ?E d) \<le> card (used ?E c)" using freed_used [OF f] c(2) by (intro card_mono)
    then show "card (used ?E d) + k < 1000" using c(3) by simp
    show "\<forall>t \<in> T. t \<noteq> 0 \<and> type_exists ?E d t" using c(4) freed_type_exists [OF f] by simp
  qed
  have alloc: "\<exists>p d. mem_alloc ?E c t n = Inr (p, d) \<and> p \<noteq> 0 \<and> ample ?E T k d" if t: "t \<in> T" and n: "unat n < 2 ^ 31" for t n
  proof -
    have m: "malloc ?E c 32 \<noteq> None" "malloc ?E c (unat n) \<noteq> None"
      using large_malloc [OF c(1,2) lt] n by simp_all
    have ex: "type_exists ?E c t" using c(4) t by simp
    from c(1) have iwf: "info_wf ?E c" by (simp add: mem_wf_def)
    from iwf obtain p d where run: "mem_alloc ?E c t n = Inr (p, d)" "p \<noteq> 0"
    proof (cases rule: mem_find_type_exists [where t = t])
      case none
      with ex show ?thesis by simp
    next
      case (some a i)
      from m obtain p q where pq: "malloc ?E c (unat n) = Some p" "malloc ?E c 32 = Some q" by auto
      with libc_malloc [OF large_libc_ok pq(1)] have "p \<noteq> 0" by (simp add: mem_fresh_def)
      with some pq show ?thesis by (intro that [of p]) (simp_all add: mem_alloc_def)
    qed
    moreover have "ample ?E T k d"
      using c(1) large_libc_ok
    proof (cases rule: mem_alloc_cases [where t = t and sz = n])
      case failed
      with run show ?thesis by simp
    next
      case (ok q e)
      with run have eq: "q = p" "e = d" by simp_all
      note ok = ok [unfolded eq]
      have "p \<notin> used ?E c" using ok(3) c(1) by (auto simp: used_def mem_fresh_def mem_fresh_lookup)
      have dm: "dom (lookup ?E e') = dom (mem_abs ?E e')" for e' by (auto simp: mem_abs_def dom_def)
      have u: "used ?E d = insert p (used ?E c)"
        using ok by (auto simp: used_def dm)
      show ?thesis
      proof (rule Suc.IH)
        show "mem_wf ?E d" by (rule ok)
        show "finite (used ?E d)" using c(2) u by simp
        show "card (used ?E d) + k < 1000" using c(2,3) by (simp add: u card_insert_if)
        show "\<forall>t \<in> T. t \<noteq> 0 \<and> type_exists ?E d t" using c(4) ok by (simp add: type_exists_def)
      qed
    qed
    ultimately show ?thesis by blast
  qed
  have free: "ample ?E T k d" if "mem_free ?E c p = Inr d" for p d
    using mem_free_freed [OF c(1), of p] that smaller by (metis sum.inject(2))
  have free_all: "ample ?E T k d" if "t \<noteq> 0" "mem_free_all ?E c t = Inr d" for t d
    using mem_free_all_freed [OF c(1) that(1)] that(2) smaller by (metis sum.inject(2))
  have overwrite: "ample ?E T k (c\<lparr>heap := (heap c)(p \<mapsto> bs)\<rparr>)" if "heap c p = Some old" "length bs = length old" for p old bs
  proof (rule Suc.IH)
    let ?d = "c\<lparr>heap := (heap c)(p \<mapsto> bs)\<rparr>"
    have u: "used ?E ?d = used ?E c" using that by (auto simp: used_def lookup_cong [of ?d c])
    show "mem_wf ?E ?d" using c(1) that by (rule mem_wf_overwrite)
    show "finite (used ?E ?d)" "card (used ?E ?d) + k < 1000" using c u by simp_all
    show "\<forall>t \<in> T. t \<noteq> 0 \<and> type_exists ?E ?d t" using c(4) by (simp add: type_exists_def)
  qed
  show ?case
    unfolding ample.simps(2) by (intro conjI ballI allI impI) (simp_all add: alloc free free_all overwrite)
qed

end
