(* ===== verification/Scl_Writer_Props.thy ===== *)
theory Scl_Writer_Props
  imports Scl_Writer Scl_IO Mem_Supply
begin

text \<open>
  What the writer puts on the wire. \<open>encode\<close> is the encoding of a value; \<open>queue\<close> abstracts the
  linked list of elements to the list of values that wait; writing it out sends one packet and leaves the
  queue empty. The lemmas about writing are proved over the interface \<open>scl_stream\<close>.
\<close>

section \<open>The encoding\<close>

definition scalars :: "scl_type set" where
  "scalars = {SCL_INT, SCL_LONG, SCL_FLOAT, SCL_DOUB, SCL_BOOL}"

definition arrays :: "scl_type set" where
  "arrays = {SCL_INT_A, SCL_LONG_A, SCL_FLOAT_A, SCL_DOUB_A, SCL_BOOL_A, SCL_DATA}"

text \<open>The text of a string pointer, and what a value becomes on the wire.\<close>

definition text_of :: "byte list option \<Rightarrow> byte list" where
  "text_of p = (case p of None \<Rightarrow> [] | Some bs \<Rightarrow> takeWhile (\<lambda>b. b \<noteq> 0) bs)"

definition enc_string :: "byte list option \<Rightarrow> byte list" where
  "enc_string p = le4 (of_nat (length (text_of p))) @ text_of p"

definition block_of :: "object \<Rightarrow> byte list" where
  "block_of val = (case val of Block bs \<Rightarrow> bs | _ \<Rightarrow> [])"

definition strings_of :: "object \<Rightarrow> byte list option list" where
  "strings_of val = (case val of Strings ps \<Rightarrow> ps | _ \<Rightarrow> [])"

definition string_ptr :: "object \<Rightarrow> byte list option" where
  "string_ptr val = (case val of Block bs \<Rightarrow> Some bs | _ \<Rightarrow> None)"

definition encode :: "object \<Rightarrow> scl_type \<Rightarrow> c_int \<Rightarrow> byte list" where
  "encode val type n =
     (if type \<in> scalars then take (unit_len type) (block_of val)
      else if type \<in> arrays then le4 n @ take (unit_len type * unat n) (block_of val)
      else if type = SCL_STRING then enc_string (string_ptr val) @ [0]
      else le4 n @ concat (map enc_string (take (unat n) (strings_of val))) @ [0])"

text \<open>
  A value the caller may queue: the object is of the kind its type says, has the bytes its length says,
  and its strings are terminated.
\<close>

definition string_ok :: "byte list option \<Rightarrow> bool" where
  "string_ok p \<longleftrightarrow> (case p of None \<Rightarrow> True | Some bs \<Rightarrow> 0 \<in> set bs)"

definition val_ok :: "object \<Rightarrow> scl_type \<Rightarrow> c_int \<Rightarrow> bool" where
  "val_ok val type n \<longleftrightarrow>
     (if type \<in> scalars then (case val of Block bs \<Rightarrow> unit_len type \<le> length bs | _ \<Rightarrow> False)
      else if type \<in> arrays
      then n = 0 \<or> unit_len type * unat n < 2 ^ 31 \<and>
        (case val of Block bs \<Rightarrow> unit_len type * unat n \<le> length bs | _ \<Rightarrow> False)
      else if type = SCL_STRING
      then (case val of Null \<Rightarrow> True | Block bs \<Rightarrow> 0 \<in> set bs | _ \<Rightarrow> False)
      else unat n < 2 ^ 31 \<and>
        (case val of Null \<Rightarrow> n = 0 | Block _ \<Rightarrow> False
         | Strings ps \<Rightarrow> unat n \<le> length ps \<and> list_all string_ok (take (unat n) ps)))"

lemma type_cases:
  obtains (scalar) "type \<in> scalars" "type < scl_type_complex" "type \<noteq> SCL_STRING"
  | (array) "type \<in> arrays" "scl_type_complex \<le> type" "type \<noteq> SCL_STRING_A" "type \<notin> scalars"
  | (string) "type = SCL_STRING" "type < scl_type_complex" "type \<notin> scalars" "type \<notin> arrays"
  | (strings) "type = SCL_STRING_A" "scl_type_complex \<le> type" "type \<notin> scalars" "type \<notin> arrays"
  by (cases type) (auto simp: scalars_def arrays_def less_eq_scl_type_def less_scl_type_def)

lemma write_scalar:
  "type \<in> scalars \<Longrightarrow> scl_write_value io w val type n = fwrite io w val (of_nat (unit_len type))"
  by (auto simp: scalars_def scl_write_value_def less_eq_scl_type_def)

lemma write_array:
  "type \<in> arrays \<Longrightarrow> scl_write_value io w val type n =
     (let w1 = fwrite_bytes io w (le4 n)
      in if n = 0 then Inr w1 else fwrite io w1 val (of_nat (unit_len type) * n))"
  by (auto simp: arrays_def scl_write_value_def less_eq_scl_type_def Let_def)

lemma write_string_value:
  "scl_write_value io w val SCL_STRING n =
     (case val of Strings _ \<Rightarrow> Inl Out_Of_Bounds
      | _ \<Rightarrow> bind_res (write_string io w (case val of Block bs \<Rightarrow> Some bs | _ \<Rightarrow> None))
          (\<lambda>w2. Inr (fwrite_bytes io w2 [0])))"
  by (cases val) (simp_all add: scl_write_value_def less_eq_scl_type_def)

lemma c_str_ok: "0 \<in> set bs \<Longrightarrow> c_str bs = Inr (text_of (Some bs))"
  by (simp add: c_str_def text_of_def)

lemma length_enc_string: "length (enc_string p) = 4 + length (text_of p)"
  by (simp add: enc_string_def)

lemma strings_len_ok:
  "n \<le> length ps \<Longrightarrow> list_all string_ok (take n ps) \<Longrightarrow>
   strings_len ps n = Inr (of_nat (length (concat (map text_of (take n ps)))))"
proof (induction ps n rule: strings_len.induct)
  case (3 p ps n)
  then show ?case
    by (cases p) (auto simp: string_ok_def c_str_ok text_of_def [of None])
qed simp_all

lemma length_enc_strings:
  "length (concat (map enc_string ps)) = 4 * length ps + length (concat (map text_of ps))"
  by (induction ps) (simp_all add: length_enc_string)

lemma unit_len_pos: "0 < unit_len type" and unit_len_le: "unit_len type \<le> 8"
  by (cases type; simp)+

text \<open>The header announces exactly what is written: queueing adds the length of the encoding.\<close>

lemma queue_len_encode:
  assumes "val_ok val type n"
  shows "queue_len val type n = Inr (of_nat (length (encode val type n)))"
proof (cases rule: type_cases [of type])
  case scalar
  then have "type \<in> {SCL_INT, SCL_LONG, SCL_FLOAT, SCL_DOUB, SCL_BOOL}" by (simp add: scalars_def)
  moreover from scalar assms have "unit_len type \<le> length (block_of val)"
    by (auto simp: val_ok_def block_of_def split: object.splits)
  ultimately show ?thesis using scalar by (simp add: queue_len_def encode_def not_le)
next
  case array
  then have a: "type \<in> {SCL_INT_A, SCL_LONG_A, SCL_FLOAT_A, SCL_DOUB_A, SCL_BOOL_A, SCL_DATA}"
    "type \<notin> {SCL_INT, SCL_LONG, SCL_FLOAT, SCL_DOUB, SCL_BOOL}" by (simp_all add: arrays_def scalars_def)
  from array assms have "unit_len type * unat n \<le> length (block_of val)"
    by (auto simp: val_ok_def block_of_def split: object.splits)
  then have "length (encode val type n) = 4 + unit_len type * unat n"
    using array by (simp add: encode_def)
  with a array show ?thesis by (simp add: queue_len_def)
next
  case string
  with assms show ?thesis
    by (auto simp: val_ok_def queue_len_def encode_def length_enc_string string_ptr_def c_str_ok
        text_of_def [of None] scalars_def arrays_def split: object.splits)
next
  case strings
  have q: "queue_len val type n = (case val of
                 Null \<Rightarrow> Inr (4 + 1)
               | Block _ \<Rightarrow> Inl Out_Of_Bounds
               | Strings ps \<Rightarrow>
                   bind_res (strings_len ps (nat (sint n)))
                     (\<lambda>k. Inr (4 + 1 + 4 * n + k)))"
    using strings by (simp add: queue_len_def)
  show ?thesis
  proof (cases val)
    case Null
    have "queue_len val type n = Inr 5" by (subst q) (simp add: Null)
    moreover from strings assms Null have "encode val type n = le4 n @ [0]"
      by (simp add: val_ok_def encode_def strings_of_def)
    ultimately show ?thesis by simp
  next
    case (Block bs)
    with strings assms show ?thesis by (simp add: val_ok_def)
  next
    case (Strings ps)
    with strings assms have ok: "unat n < 2 ^ 31" "unat n \<le> length ps" "list_all string_ok (take (unat n) ps)"
      by (simp_all add: val_ok_def)
    from ok(1) have n: "nat (sint n) = unat n" by (simp add: sint_small)
    have "length (encode val type n) = 4 + 1 + 4 * unat n + length (concat (map text_of (take (unat n) ps)))"
      using strings ok(2) Strings by (simp only: encode_def strings_of_def object.case if_False)
        (simp add: length_enc_strings del: length_concat)
    then show ?thesis
      using strings_len_ok [OF ok(2,3)] by (subst q) (simp add: Strings n del: length_concat)
  qed
qed

context scl_stream
begin

lemma write_string_wrote:
  assumes "ok w" and "string_ok p" and "length (enc_string p) \<le> room w"
  shows "\<exists>w'. write_string io w p = Inr w' \<and> wrote w (enc_string p) w'"
proof -
  let ?l = "le4 (of_nat (length (text_of p)))"
  let ?w1 = "snd (io_write io w ?l)"
  have 1: "wrote w ?l ?w1"
    using assms(1,3) by (intro write_wrote) (simp_all add: length_enc_string)
  have 2: "wrote ?w1 (text_of p) (snd (io_write io ?w1 (text_of p)))" if "p \<noteq> None"
    using wroteD [OF 1] assms(3) by (intro write_wrote) (simp_all add: length_enc_string)
  show ?thesis
  proof (cases p)
    case None
    with 1 show ?thesis by (simp add: write_string_def enc_string_def text_of_def)
  next
    case (Some bs)
    with assms(2) have "c_str bs = Inr (text_of p)" by (simp add: string_ok_def c_str_ok)
    with Some wrote_trans [OF 1 2] show ?thesis by (simp add: write_string_def enc_string_def)
  qed
qed

lemma write_strings_wrote:
  "ok w \<Longrightarrow> n \<le> length ps \<Longrightarrow> list_all string_ok (take n ps) \<Longrightarrow>
   length (concat (map enc_string (take n ps))) \<le> room w \<Longrightarrow>
   \<exists>w'. write_strings io w ps n = Inr w' \<and> wrote w (concat (map enc_string (take n ps))) w'"
proof (induction ps arbitrary: w n)
  case Nil
  then show ?case by (simp add: wrote_refl)
next
  case (Cons p ps)
  show ?case
  proof (cases n)
    case 0
    with Cons.prems show ?thesis by (simp add: wrote_refl)
  next
    case (Suc m)
    with Cons.prems have p: "string_ok p" "length (enc_string p) \<le> room w" by simp_all
    from write_string_wrote [OF Cons.prems(1) p] obtain w1 where
      w1: "write_string io w p = Inr w1" "wrote w (enc_string p) w1" by blast
    have "length (concat (map enc_string (take m ps))) \<le> room w1"
      using Cons.prems Suc wroteD [OF w1(2)] by (simp del: length_concat)
    with Cons.IH [of w1 m] Cons.prems Suc wroteD [OF w1(2)] obtain w' where
      "write_strings io w1 ps m = Inr w'" "wrote w1 (concat (map enc_string (take m ps))) w'" by auto
    with w1 Suc wrote_trans [OF w1(2)] show ?thesis by auto
  qed
qed

lemma fwrite_wrote:
  assumes "ok w" and "unat n \<le> length bs" and "unat n \<le> room w"
  shows "\<exists>w'. fwrite io w (Block bs) n = Inr w' \<and> wrote w (take (unat n) bs) w'"
  using assms write_wrote [of w "take (unat n) bs"] by (auto simp: fwrite_def unat_eq_0)

text \<open>Writing a value puts its encoding on the wire.\<close>

lemma scl_write_value_wrote:
  assumes w: "ok w" and v: "val_ok val type n" and room: "length (encode val type n) \<le> room w"
  shows "\<exists>w'. scl_write_value io w val type n = Inr w' \<and> wrote w (encode val type n) w'"
proof (cases rule: type_cases [of type])
  case scalar
  then have t: "type \<in> {SCL_INT, SCL_LONG, SCL_FLOAT, SCL_DOUB, SCL_BOOL}" by (simp add: scalars_def)
  from scalar v obtain bs where bs: "val = Block bs" "unit_len type \<le> length bs"
    by (auto simp: val_ok_def split: object.splits)
  have u: "unat (of_nat (unit_len type) :: c_uint) = unit_len type" by (cases type) simp_all
  have e: "encode val type n = take (unit_len type) bs" using scalar bs by (simp add: encode_def block_of_def)
  have "unit_len type \<le> room w" using room bs(2) unfolding e by simp
  with fwrite_wrote [OF w, of "of_nat (unit_len type)" bs] bs(2) obtain w' where
    "fwrite io w val (of_nat (unit_len type)) = Inr w'" "wrote w (encode val type n) w'"
    unfolding e unfolding bs(1) by (auto simp: u)
  then show ?thesis by (auto simp: write_scalar [OF scalar(1)])
next
  case array
  then have t: "type \<in> {SCL_INT_A, SCL_LONG_A, SCL_FLOAT_A, SCL_DOUB_A, SCL_BOOL_A, SCL_DATA}"
    "type \<notin> {SCL_INT, SCL_LONG, SCL_FLOAT, SCL_DOUB, SCL_BOOL}" by (simp_all add: arrays_def scalars_def)
  let ?w1 = "snd (io_write io w (le4 n))"
  have enc: "encode val type n = le4 n @ take (unit_len type * unat n) (block_of val)"
    using array by (simp add: encode_def)
  have 1: "wrote w (le4 n) ?w1"
    using w room by (intro write_wrote) (simp_all add: enc)
  show ?thesis
  proof (cases "n = 0")
    case True
    with 1 enc show ?thesis by (simp add: write_array [OF array(1)])
  next
    case False
    with array v obtain bs where bs: "val = Block bs" "unit_len type * unat n \<le> length bs"
        "unit_len type * unat n < 2 ^ 31"
      by (auto simp: val_ok_def split: object.splits)
    have u: "unat (of_nat (unit_len type) * n :: c_uint) = unit_len type * unat n"
    proof -
      have "unat (of_nat (unit_len type) :: c_uint) = unit_len type" by (cases type) simp_all
      with bs(3) show ?thesis by (simp add: unat_word_ariths)
    qed
    have e: "encode val type n = le4 n @ take (unit_len type * unat n) bs"
      using enc bs(1) by (simp add: block_of_def)
    have "ok ?w1" "unit_len type * unat n \<le> room ?w1"
      using wroteD [OF 1] room bs(2) unfolding e by simp_all
    from fwrite_wrote [OF this(1), of "of_nat (unit_len type) * n" bs] this(2) bs obtain w' where
      w': "fwrite io ?w1 val (of_nat (unit_len type) * n) = Inr w'"
        "wrote ?w1 (take (unit_len type * unat n) bs) w'"
      by (auto simp: u)
    from wrote_trans [OF 1 w'(2)] have "wrote w (encode val type n) w'" unfolding e .
    moreover have "scl_write_value io w val type n = Inr w'"
      using False w'(1) by (simp add: write_array [OF array(1)] Let_def)
    ultimately show ?thesis by blast
  qed
next
  case string
  have enc: "encode val type n = enc_string (string_ptr val) @ [0]"
    using string by (simp add: encode_def)
  have "string_ok (string_ptr val)" using string v
    by (auto simp: val_ok_def string_ok_def string_ptr_def scalars_def arrays_def split: object.splits)
  from write_string_wrote [OF w this] room obtain w1 where
    w1: "write_string io w (string_ptr val) = Inr w1" "wrote w (enc_string (string_ptr val)) w1"
    by (auto simp: enc)
  have "wrote w1 [0] (snd (io_write io w1 [0]))"
    using wroteD [OF w1(2)] room by (intro write_wrote) (simp_all add: enc)
  note wrote_trans [OF w1(2) this]
  moreover have "scl_write_value io w val type n = Inr (snd (io_write io w1 [0]))"
    using string v w1(1)
    by (auto simp: write_string_value val_ok_def string_ptr_def scalars_def arrays_def split: object.splits)
  ultimately show ?thesis by (simp add: enc)
next
  case strings
  let ?w1 = "snd (io_write io w (le4 n))"
  have enc: "encode val type n = le4 n @ concat (map enc_string (take (unat n) (strings_of val))) @ [0]"
    using strings by (simp add: encode_def)
  have 1: "wrote w (le4 n) ?w1"
    using w room by (intro write_wrote) (simp_all add: enc)
  show ?thesis
  proof (cases "n = 0")
    case True
    have "wrote ?w1 [0] (snd (io_write io ?w1 [0]))"
      using wroteD [OF 1] room by (intro write_wrote) (simp_all add: enc)
    note wrote_trans [OF 1 this]
    moreover have "encode val type n = le4 n @ [0]" using enc True by simp
    moreover have "scl_write_value io w val type n = Inr (snd (io_write io ?w1 [0]))"
      using True strings by (simp add: scl_write_value_def Let_def)
    ultimately show ?thesis by metis
  next
    case False
    with strings v obtain ps where ps: "val = Strings ps" "unat n < 2 ^ 31" "unat n \<le> length ps"
        "list_all string_ok (take (unat n) ps)"
      by (auto simp: val_ok_def split: object.splits)
    from ps(2) have n: "nat (sint n) = unat n" by (simp add: sint_small)
    have "ok ?w1" "length (concat (map enc_string (take (unat n) ps))) \<le> room ?w1"
      using wroteD [OF 1] room ps(1) unfolding enc by (simp_all add: strings_of_def del: length_concat)
    from write_strings_wrote [OF this(1) ps(3,4) this(2)] obtain w2 where
      w2: "write_strings io ?w1 ps (unat n) = Inr w2" "wrote ?w1 (concat (map enc_string (take (unat n) ps))) w2"
      by blast
    note 2 = wrote_trans [OF 1 w2(2)]
    have "wrote w2 [0] (snd (io_write io w2 [0]))"
      using wroteD [OF 2] room ps(1) unfolding enc by (intro write_wrote) (simp_all add: strings_of_def del: length_concat)
    note wrote_trans [OF 2 this]
    moreover have "scl_write_value io w val type n = Inr (snd (io_write io w2 [0]))"
      using strings False w2(1) ps(1) by (simp add: scl_write_value_def Let_def n)
    moreover have "encode val type n = (le4 n @ concat (map enc_string (take (unat n) ps))) @ [0]"
      using enc ps(1) by (simp add: strings_of_def)
    ultimately show ?thesis by metis
  qed
qed

lemma write_header_wrote:
  assumes "ok w" and "16 \<le> room w"
  shows "wrote w (le4 (out_packet_opcode c) @ le4 0 @ le4 0 @ le4 (out_packet_len c)) (write_header io w c)"
proof -
  define w1 where "w1 = snd (io_write io w (le4 (out_packet_opcode c)))"
  define w2 where "w2 = snd (io_write io w1 (le4 0))"
  define w3 where "w3 = snd (io_write io w2 (le4 0))"
  define w4 where "w4 = snd (io_write io w3 (le4 (out_packet_len c)))"
  have 1: "wrote w (le4 (out_packet_opcode c)) w1"
    unfolding w1_def using assms by (intro write_wrote) simp_all
  have 2: "wrote w1 (le4 0) w2"
    unfolding w2_def using wroteD [OF 1] assms by (intro write_wrote) simp_all
  note 12 = wrote_trans [OF 1 2]
  have 3: "wrote w2 (le4 0) w3"
    unfolding w3_def using wroteD [OF 12] assms by (intro write_wrote) simp_all
  note 123 = wrote_trans [OF 12 3]
  have 4: "wrote w3 (le4 (out_packet_len c)) w4"
    unfolding w4_def using wroteD [OF 123] assms by (intro write_wrote) simp_all
  from wrote_trans [OF 123 4] show ?thesis
    by (simp add: write_header_def w1_def w2_def w3_def w4_def)
qed

end

text \<open>The sockets of \<open>Scl_IO\<close> are such a stream while the peer keeps up.\<close>

definition sock_io :: "sock scl_io" where
  "sock_io = \<lparr>io_read = scl_read, io_write = scl_write\<rparr>"

interpretation sockets: scl_stream sock_io to_read wire room_left prompt "\<lambda>_. 0 :: nat" "\<lambda>_ h. h" "\<lambda>_ h. h"
proof
  fix s :: sock and n :: c_uint and bs :: "byte list"
  show "\<exists>w'. io_read sock_io True s n = (sint n, take (unat n) (to_read s), w') \<and>
      to_read w' = drop (unat n) (to_read s) \<and> wire w' = wire s \<and> room_left w' = room_left s \<and> prompt w' \<and> (0 :: nat) = 0"
    if "prompt s" "unat n \<le> length (to_read s)"
    using that by (rule scl_read_prompt) (auto simp: sock_io_def room_left_def)
  show "\<exists>w'. io_write sock_io s bs = (int (length bs), w') \<and> wire w' = wire s @ bs \<and>
      to_read w' = to_read s \<and> room_left w' = room_left s - length bs \<and> prompt w' \<and> (0 :: nat) = 0"
    if "prompt s" "length bs \<le> room_left s"
    using that by (rule scl_write_prompt) (auto simp: sock_io_def to_read_def)
qed simp_all

section \<open>The queue\<close>

abbreviation mem_ok :: "libc \<Rightarrow> mem_ctx \<Rightarrow> bool" where
  "mem_ok E c \<equiv> mem_wf E c \<and> libc_ok E"

text \<open>The elements from \<open>p\<close> to \<open>q\<close>, \<open>q\<close> itself not counted.\<close>

fun segment :: "(addr \<Rightarrow> scl_ele) \<Rightarrow> addr \<Rightarrow> addr list \<Rightarrow> addr \<Rightarrow> bool" where
  "segment f p [] q \<longleftrightarrow> p = q"
| "segment f p (a # as) q \<longleftrightarrow> p = a \<and> next_ele (f a) \<noteq> 0 \<and> segment f (next_ele (f a)) as q"

definition item_of :: "scl_ele \<Rightarrow> object \<times> scl_type \<times> c_int" where
  "item_of e = (ele_object e, ele_type e, ele_len e)"

definition enc_item :: "object \<times> scl_type \<times> c_int \<Rightarrow> byte list" where
  "enc_item = (\<lambda>(val, type, n). encode val type n)"

definition item_ok :: "object \<times> scl_type \<times> c_int \<Rightarrow> bool" where
  "item_ok = (\<lambda>(val, type, n). val_ok val type n)"

definition payload :: "(object \<times> scl_type \<times> c_int) list \<Rightarrow> byte list" where
  "payload items = concat (map enc_item items)"

text \<open>
  The abstraction of the linked list: \<open>queue_at\<close> names the cells, \<open>queue\<close> only the values that wait
  to be sent. The last cell of the list is empty; the announced length is that of the payload.
\<close>

definition queue_at :: "libc \<Rightarrow> 'w scl \<Rightarrow> addr list \<Rightarrow> bool" where
  "queue_at E st as \<longleftrightarrow> mem_ok E (mem st) \<and>
     segment (eles st) (out_ele_queue (conn st)) as (out_cur_ele (conn st)) \<and>
     distinct (as @ [out_cur_ele (conn st)]) \<and>
     next_ele (eles st (out_cur_ele (conn st))) = 0 \<and>
     (\<forall>a \<in> set (as @ [out_cur_ele (conn st)]). a \<noteq> 0 \<and> heap (mem st) a \<noteq> None \<and>
        mem_types E (mem st) a = Some (out_mem_id (conn st)))"

definition queue :: "libc \<Rightarrow> 'w scl \<Rightarrow> (object \<times> scl_type \<times> c_int) list \<Rightarrow> bool" where
  "queue E st items \<longleftrightarrow> (\<exists>as. queue_at E st as \<and> items = map (\<lambda>a. item_of (eles st a)) as) \<and>
     list_all item_ok items \<and> out_packet_len (conn st) = of_nat (length (payload items))"

text \<open>What an operation on the queue leaves alone: memory of other types, and the reading side.\<close>

definition keeps_rest :: "libc \<Rightarrow> 'w scl \<Rightarrow> 'w scl \<Rightarrow> bool" where
  "keeps_rest E st st' \<longleftrightarrow>
     (\<forall>q. mem_types E (mem st) q \<noteq> Some (out_mem_id (conn st)) \<and> mem_types E (mem st) q \<noteq> None \<longrightarrow>
        heap (mem st') q = heap (mem st) q \<and> mem_types E (mem st') q = mem_types E (mem st) q) \<and>
     in_pdata (conn st') = in_pdata (conn st) \<and> in_pcursor (conn st') = in_pcursor (conn st) \<and>
     in_mem_id (conn st') = in_mem_id (conn st) \<and> out_mem_id (conn st') = out_mem_id (conn st) \<and>
     in_packet_opcode (conn st') = in_packet_opcode (conn st) \<and> err_handler (conn st') = err_handler (conn st)"

lemma keeps_rest_refl: "keeps_rest E st st"
  by (simp add: keeps_rest_def)

lemma keeps_rest_trans: "keeps_rest E st st' \<Longrightarrow> keeps_rest E st' st'' \<Longrightarrow> keeps_rest E st st''"
  by (auto simp: keeps_rest_def)

lemma segment_cong: "segment f p as q \<Longrightarrow> \<forall>a \<in> set as. next_ele (g a) = next_ele (f a) \<Longrightarrow> segment g p as q"
  by (induction as arbitrary: p) auto

lemma segment_snoc:
  "segment f p as q \<Longrightarrow> q \<notin> set as \<Longrightarrow> e' = e\<lparr>next_ele := r\<rparr> \<Longrightarrow> r \<noteq> 0 \<Longrightarrow> segment (f(q := e')) p (as @ [q]) r"
  by (induction as arbitrary: p) auto

lemma queue_queue_value:
  assumes q: "queue E st items" and v: "val_ok val type n"
    and alloc: "mem_alloc E (mem st) (out_mem_id (conn st)) 24 = Inr (p, m)" "p \<noteq> 0"
  obtains st' where "scl_queue_value E st val type n = Inr st'" "queue E st' (items @ [(val, type, n)])"
    "world st' = world st" "keeps_rest E st st'" "out_packet_opcode (conn st') = out_packet_opcode (conn st)"
    "mem st' = m"
proof -
  let ?t = "out_mem_id (conn st)" and ?q = "out_cur_ele (conn st)"
  from q obtain as where as: "queue_at E st as" and items: "items = map (\<lambda>a. item_of (eles st a)) as"
    and ok: "list_all item_ok items" "out_packet_len (conn st) = of_nat (length (payload items))"
    by (auto simp: queue_def)
  from as have mok: "mem_ok E (mem st)" and seg: "segment (eles st) (out_ele_queue (conn st)) as ?q"
    and dist: "?q \<notin> set as" "distinct as" and last: "next_ele (eles st ?q) = 0"
    and cells: "\<And>a. a \<in> set as \<or> a = ?q \<Longrightarrow> a \<noteq> 0 \<and> heap (mem st) a \<noteq> None \<and> mem_types E (mem st) a = Some ?t"
    by (auto simp: queue_at_def)
  from typed_mem.alloc_law [OF mok, of ?t 24] alloc have
    m: "mem_ok E m" "mem_types E (mem st) p = None" "heap m = (heap (mem st))(p \<mapsto> replicate 24 0)"
      "mem_types E m = (mem_types E (mem st))(p \<mapsto> ?t)"
    by auto
  have pq: "p \<noteq> ?q" "p \<notin> set as" using cells m(2) by fastforce+
  let ?e = "(eles st ?q)\<lparr>ele_object := val, ele_type := type, ele_len := n\<rparr>"
  define f where "f = ((eles st)(?q := ?e, p := zero_ele))(?q := ?e\<lparr>next_ele := p\<rparr>)"
  define st' where "st' = st\<lparr>mem := m, eles := f, cur_ele := ?q,
    conn := (conn st)\<lparr>out_packet_len := out_packet_len (conn st) + of_nat (length (encode val type n)), out_cur_ele := p\<rparr>\<rparr>"
  have run: "scl_queue_value E st val type n = Inr st'"
    using cells [of ?q] alloc pq m(3) queue_len_encode [OF v]
    by (auto simp: scl_queue_value_def scl_alloc_ele_def deref_ele_def Let_def st'_def f_def)
  have same: "f a = eles st a" if "a \<in> set as" for a
    using that pq dist by (auto simp: f_def)
  have fq: "f ?q = ?e\<lparr>next_ele := p\<rparr>" "f p = zero_ele" using pq by (simp_all add: f_def)
  have "segment f (out_ele_queue (conn st)) (as @ [?q]) p"
  proof -
    have "segment f (out_ele_queue (conn st)) as ?q"
      using seg by (rule segment_cong) (simp add: same)
    from segment_snoc [OF this dist(1) fq(1) alloc(2)] show ?thesis by simp
  qed
  moreover have "mem_types E m a = Some ?t \<and> a \<noteq> 0 \<and> heap m a \<noteq> None" if "a \<in> set (as @ [?q, p])" for a
    using that cells [of a] fun_cong [OF m(4), of a] alloc(2) by (auto simp: m(3))
  ultimately have "queue_at E st' (as @ [?q])"
    using m(1) pq dist by (auto simp: queue_at_def st'_def fq zero_ele_def)
  moreover have "items @ [(val, type, n)] = map (\<lambda>a. item_of (f a)) (as @ [?q])"
    by (simp add: items same fq item_of_def)
  ultimately have "\<exists>as. queue_at E st' as \<and> items @ [(val, type, n)] = map (\<lambda>a. item_of (eles st' a)) as"
    by (intro exI [of _ "as @ [?q]"]) (simp add: st'_def)
  moreover have "payload (items @ [(val, type, n)]) = payload items @ encode val type n"
    by (simp add: payload_def enc_item_def)
  moreover have "list_all item_ok (items @ [(val, type, n)])" using ok(1) v by (simp add: item_ok_def)
  ultimately have "queue E st' (items @ [(val, type, n)])"
    unfolding queue_def using ok(2) by (simp add: st'_def)
  moreover have "keeps_rest E st st'"
    using m(2,3) fun_cong [OF m(4)] by (auto simp: keeps_rest_def st'_def)
  ultimately show thesis
    using run by (intro that [of st']) (simp_all add: st'_def)
qed

context scl_stream
begin

lemma write_queue_wrote:
  "segment (eles st) (cur_ele st) as q \<Longrightarrow> distinct (as @ [q]) \<Longrightarrow> next_ele (eles st q) = 0 \<Longrightarrow>
   mem_ok E (mem st) \<Longrightarrow>
   \<forall>a \<in> set (as @ [q]). a \<noteq> 0 \<and> heap (mem st) a \<noteq> None \<and> mem_types E (mem st) a = Some t \<Longrightarrow>
   ok (world st) \<Longrightarrow> list_all (\<lambda>a. item_ok (item_of (eles st a))) as \<Longrightarrow>
   length (payload (map (\<lambda>a. item_of (eles st a)) as)) \<le> room (world st) \<Longrightarrow> length as < k \<Longrightarrow>
   \<exists>st'. write_queue E io k st = Inr st' \<and> mem_ok E (mem st') \<and> cur_ele st' = q \<and>
     wrote (world st) (payload (map (\<lambda>a. item_of (eles st a)) as)) (world st') \<and>
     eles st' = eles st \<and> conn st' = conn st \<and> heap (mem st') q \<noteq> None \<and> mem_types E (mem st') q = Some t \<and>
     (\<forall>p. mem_types E (mem st) p \<noteq> Some t \<longrightarrow>
        heap (mem st') p = heap (mem st) p \<and> mem_types E (mem st') p = mem_types E (mem st) p) \<and>
     spends E T (length as) (mem st) (mem st') \<and> freed E (set as) (mem st) (mem st')"
proof (induction as arbitrary: st k)
  case Nil
  then obtain k' where "k = Suc k'" by (cases k) auto
  with Nil have "write_queue E io k st = Inr st"
    by (auto simp: deref_ele_def split: option.splits)
  with Nil show ?case by (auto simp: payload_def wrote_refl spends_refl freed_refl)
next
  case (Cons a as)
  let ?e = "eles st a"
  obtain k' where k: "k = Suc k'" using Cons.prems by (cases k) auto
  have cur: "cur_ele st = a" and nxt: "next_ele ?e \<noteq> 0" and seg: "segment (eles st) (next_ele ?e) as q"
    using Cons.prems(1) by auto
  have a: "a \<noteq> 0" "heap (mem st) a \<noteq> None" "mem_types E (mem st) a = Some t" using Cons.prems(5) by auto
  have ok_e: "val_ok (ele_object ?e) (ele_type ?e) (ele_len ?e)"
    using Cons.prems(7) by (simp add: item_ok_def item_of_def)
  have enc: "payload (map (\<lambda>a. item_of (eles st a)) (a # as)) =
      encode (ele_object ?e) (ele_type ?e) (ele_len ?e) @ payload (map (\<lambda>a. item_of (eles st a)) as)"
    by (simp add: payload_def enc_item_def item_of_def)
  from scl_write_value_wrote [OF Cons.prems(6) ok_e] Cons.prems(8) obtain w where
    w: "scl_write_value io (world st) (ele_object ?e) (ele_type ?e) (ele_len ?e) = Inr w"
      "wrote (world st) (encode (ele_object ?e) (ele_type ?e) (ele_len ?e)) w"
    unfolding enc by auto
  from typed_mem.release_law [OF Cons.prems(4), of a] obtain m where
    m: "mem_free E (mem st) a = Inr m" "mem_ok E m" "mem_types E m = (mem_types E (mem st))(a := None)"
      "\<And>p. p \<noteq> a \<Longrightarrow> heap m p = heap (mem st) p" by auto
  have fr: "freed E {a} (mem st) m"
    by (rule mem_free_freed [of E "mem st" a]) (use Cons.prems(4) m(1) in auto)
  define st1 where "st1 = st\<lparr>world := w, cur_ele := next_ele ?e, mem := m\<rparr>"
  have run: "write_queue E io k st = write_queue E io k' st1"
    using a nxt w(1) m(1) by (auto simp: k cur deref_ele_def Let_def st1_def split: option.splits)
  have types: "mem_types E m p = mem_types E (mem st) p" if "p \<noteq> a" for p
    using fun_cong [OF m(3), of p] that by simp
  have notin: "a \<notin> set (as @ [q])" using Cons.prems(2) by simp
  have "\<exists>st'. write_queue E io k' st1 = Inr st' \<and> mem_ok E (mem st') \<and> cur_ele st' = q \<and>
     wrote (world st1) (payload (map (\<lambda>a. item_of (eles st1 a)) as)) (world st') \<and>
     eles st' = eles st1 \<and> conn st' = conn st1 \<and> heap (mem st') q \<noteq> None \<and> mem_types E (mem st') q = Some t \<and>
     (\<forall>p. mem_types E (mem st1) p \<noteq> Some t \<longrightarrow>
        heap (mem st') p = heap (mem st1) p \<and> mem_types E (mem st') p = mem_types E (mem st1) p) \<and>
     spends E T (length as) (mem st1) (mem st') \<and> freed E (set as) (mem st1) (mem st')"
  proof (rule Cons.IH)
    show "\<forall>b \<in> set (as @ [q]). b \<noteq> 0 \<and> heap (mem st1) b \<noteq> None \<and> mem_types E (mem st1) b = Some t"
    proof
      fix b assume b: "b \<in> set (as @ [q])"
      with notin have "b \<noteq> a" by auto
      moreover from b have "b \<in> set ((a # as) @ [q])" by auto
      ultimately show "b \<noteq> 0 \<and> heap (mem st1) b \<noteq> None \<and> mem_types E (mem st1) b = Some t"
        using Cons.prems(5) types [of b] m(4) [of b] by (auto simp: st1_def)
    qed
    show "length (payload (map (\<lambda>a. item_of (eles st1 a)) as)) \<le> room (world st1)"
      using Cons.prems(8) wroteD [OF w(2)] unfolding enc by (simp add: st1_def)
  qed (use Cons.prems seg m(2) wroteD [OF w(2)] k in \<open>simp_all add: st1_def\<close>)
  then obtain st' where st': "write_queue E io k' st1 = Inr st'" "mem_ok E (mem st')" "cur_ele st' = q"
      "wrote (world st1) (payload (map (\<lambda>a. item_of (eles st1 a)) as)) (world st')"
      "eles st' = eles st1" "conn st' = conn st1" "heap (mem st') q \<noteq> None" "mem_types E (mem st') q = Some t"
      "\<And>p. mem_types E (mem st1) p \<noteq> Some t \<Longrightarrow>
        heap (mem st') p = heap (mem st1) p \<and> mem_types E (mem st') p = mem_types E (mem st1) p"
      "spends E T (length as) (mem st1) (mem st')" "freed E (set as) (mem st1) (mem st')" by blast
  have "freed E (set (a # as)) (mem st) (mem st')" using freed_trans [OF fr] st'(11) by (simp add: st1_def)
  moreover have "spends E T (length (a # as)) (mem st) (mem st')"
    using spends_trans [OF spends_free [OF m(1)]] st'(10) by (fastforce simp: st1_def)
  moreover have "wrote (world st) (payload (map (\<lambda>a. item_of (eles st a)) (a # as))) (world st')"
    unfolding enc using wrote_trans [OF w(2), of _ "world st'"] st'(4) by (simp add: st1_def)
  moreover have "heap (mem st') p = heap (mem st) p \<and> mem_types E (mem st') p = mem_types E (mem st) p"
    if p: "mem_types E (mem st) p \<noteq> Some t" for p
  proof -
    from p a(3) have "p \<noteq> a" by auto
    with st'(9) [of p] types [of p] m(4) [of p] p show ?thesis by (simp add: st1_def)
  qed
  ultimately show ?case
    unfolding run using st' by (intro exI [of _ st']) (simp add: st1_def)
qed

end

text \<open>A packet: the header of four integers and the payload.\<close>

definition packet :: "c_int \<Rightarrow> byte list \<Rightarrow> byte list" where
  "packet opcode bs = le4 opcode @ le4 0 @ le4 0 @ le4 (of_nat (length bs)) @ bs"

lemma length_packet: "length (packet opcode bs) = 16 + length bs"
  by (simp add: packet_def)

lemma distinct_addresses: "distinct (as :: addr list) \<Longrightarrow> length as \<le> 2 ^ 64"
proof -
  assume "distinct as"
  then have "length as = card (set as)" by (simp add: distinct_card)
  also have "\<dots> \<le> card (UNIV :: addr set)" by (rule card_mono) simp_all
  finally show ?thesis by (simp add: card_word)
qed


context scl_stream
begin

lemma scl_write_out_packet:
  assumes q: "queue E st items" and w: "ok (world st)" "16 + length (payload items) \<le> room (world st)"
  shows "\<exists>st'. scl_write_out E io st = Inr st' \<and>
    wrote (world st) (packet (out_packet_opcode (conn st)) (payload items)) (world st') \<and>
    queue E st' [] \<and> keeps_rest E st st' \<and> spends E T (length items) (mem st) (mem st') \<and>
    (\<exists>as. queue_at E st as \<and> items = map (\<lambda>a. item_of (eles st a)) as \<and> freed E (set as) (mem st) (mem st'))"
proof -
  let ?t = "out_mem_id (conn st)" and ?q = "out_cur_ele (conn st)"
  from q obtain as where as: "queue_at E st as" and items: "items = map (\<lambda>a. item_of (eles st a)) as"
    and ok: "list_all item_ok items" "out_packet_len (conn st) = of_nat (length (payload items))"
    by (auto simp: queue_def)
  define st1 where "st1 = st\<lparr>world := write_header io (world st) (conn st), cur_ele := out_ele_queue (conn st)\<rparr>"
  have hdr: "wrote (world st) (le4 (out_packet_opcode (conn st)) @ le4 0 @ le4 0 @ le4 (out_packet_len (conn st))) (world st1)"
    unfolding st1_def using write_header_wrote [OF w(1), of "conn st"] w(2) by simp
  have "length (as @ [?q]) \<le> 2 ^ 64"
    using as by (intro distinct_addresses) (simp add: queue_at_def)
  then have rounds: "length as < ELE_ROUNDS" by (simp add: ELE_ROUNDS_def)
  have seg: "segment (eles st) (out_ele_queue (conn st)) as ?q" and dist: "distinct (as @ [?q])"
    and last: "next_ele (eles st ?q) = 0" and mok: "mem_ok E (mem st)"
    and cells: "\<forall>a \<in> set (as @ [?q]). a \<noteq> 0 \<and> heap (mem st) a \<noteq> None \<and> mem_types E (mem st) a = Some ?t"
    using as by (simp_all add: queue_at_def)
  have "\<exists>st'. write_queue E io ELE_ROUNDS st1 = Inr st' \<and> mem_ok E (mem st') \<and> cur_ele st' = ?q \<and>
     wrote (world st1) (payload (map (\<lambda>a. item_of (eles st1 a)) as)) (world st') \<and>
     eles st' = eles st1 \<and> conn st' = conn st1 \<and> heap (mem st') ?q \<noteq> None \<and> mem_types E (mem st') ?q = Some ?t \<and>
     (\<forall>p. mem_types E (mem st1) p \<noteq> Some ?t \<longrightarrow>
        heap (mem st') p = heap (mem st1) p \<and> mem_types E (mem st') p = mem_types E (mem st1) p) \<and>
     spends E T (length as) (mem st1) (mem st') \<and> freed E (set as) (mem st1) (mem st')"
  proof (rule write_queue_wrote)
    show "segment (eles st1) (cur_ele st1) as ?q" "next_ele (eles st1 ?q) = 0" "mem_ok E (mem st1)"
      "\<forall>a \<in> set (as @ [?q]). a \<noteq> 0 \<and> heap (mem st1) a \<noteq> None \<and> mem_types E (mem st1) a = Some ?t"
      using seg last mok cells by (simp_all add: st1_def)
    show "distinct (as @ [?q])" by (rule dist)
    show "ok (world st1)" using wroteD [OF hdr] by simp
    have eq: "map (\<lambda>a. item_of (eles st1 a)) as = items" by (simp add: items st1_def)
    show "list_all (\<lambda>a. item_ok (item_of (eles st1 a))) as"
      using ok(1) by (simp add: items list_all_iff st1_def)
    show "length (payload (map (\<lambda>a. item_of (eles st1 a)) as)) \<le> room (world st1)"
      using wroteD [OF hdr] w(2) unfolding eq by simp
  qed (rule rounds)
  then obtain st' where st': "write_queue E io ELE_ROUNDS st1 = Inr st'" "mem_ok E (mem st')" "cur_ele st' = ?q"
      "wrote (world st1) (payload items) (world st')" "eles st' = eles st" "conn st' = conn st"
      "heap (mem st') ?q \<noteq> None" "mem_types E (mem st') ?q = Some ?t"
      "\<And>p. mem_types E (mem st) p \<noteq> Some ?t \<Longrightarrow>
        heap (mem st') p = heap (mem st) p \<and> mem_types E (mem st') p = mem_types E (mem st) p"
      "spends E T (length as) (mem st) (mem st')" "freed E (set as) (mem st) (mem st')"
    by (auto simp: st1_def items)
  define st2 where "st2 = upd_conn (\<lambda>c. c\<lparr>out_ele_queue := cur_ele st', out_packet_len := 0\<rparr>) st'"
  have "scl_write_out E io st = Inr st2"
    using st'(1) by (simp add: scl_write_out_def st1_def st2_def)
  moreover have "wrote (world st) (packet (out_packet_opcode (conn st)) (payload items)) (world st2)"
    using wrote_trans [OF hdr st'(4)] by (simp add: st2_def packet_def ok(2))
  moreover have "queue_at E st2 []"
    using st' last cells by (simp add: queue_at_def st2_def)
  then have "queue E st2 []" by (auto simp: queue_def payload_def st2_def)
  moreover have "keeps_rest E st st2"
    using st'(6,9) by (auto simp: keeps_rest_def st2_def)
  moreover have "spends E T (length items) (mem st) (mem st2)"
    using st'(10) by (simp add: st2_def items)
  moreover have "freed E (set as) (mem st) (mem st2)" using st'(11) by (simp add: st2_def)
  ultimately show ?thesis using as items by blast
qed

end

end
