(* ===== verification/Scl_Reader_Props.thy ===== *)
theory Scl_Reader_Props
  imports Scl_Reader Scl_Writer_Props
begin

text \<open>
  What the reader finds in a packet: \<open>reading\<close> says which bytes the packet holds and where the
  cursor stands; \<open>received\<close> that the pointer \<open>scl_get_value\<close> returns gives back the value that was
  sent. The lemmas follow a value, a packet, and a whole list of values through the reader.
\<close>

section \<open>Reading a packet\<close>

text \<open>
  The packet in memory is \<open>bs\<close> and the cursor stands at offset \<open>off\<close>. The address of the block does
  not wrap around, as the blocks of \<open>malloc\<close> do not.
\<close>

definition reading :: "libc \<Rightarrow> 'w scl \<Rightarrow> byte list \<Rightarrow> nat \<Rightarrow> bool" where
  "reading E st bs off \<longleftrightarrow> mem_ok E (mem st) \<and> in_pdata (conn st) \<noteq> 0 \<and>
     mem_abs E (mem st) (in_pdata (conn st)) = Some (in_mem_id (conn st), of_nat (length bs), False) \<and>
     heap (mem st) (in_pdata (conn st)) = Some bs \<and>
     unat (in_pdata (conn st)) + length bs < 2 ^ 64 \<and> length bs < 2 ^ 31 \<and>
     off \<le> length bs \<and> cursor st = in_pdata (conn st) + of_nat off"

lemma readingD:
  assumes "reading E st bs off"
  shows "packet_bytes st = bs" "cursor st = in_pdata (conn st) + of_nat off" "off \<le> length bs"
    "length bs < 2 ^ 31" "mem_ok E (mem st)"
  using assms by (simp_all add: reading_def packet_bytes_def)

lemma in_packet_at:
  assumes "reading E st bs o'" and "off + n \<le> length bs"
  shows "in_packet st (in_pdata (conn st) + of_nat off) n = Inr off"
proof -
  let ?p = "in_pdata (conn st)"
  from assms have h: "heap (mem st) ?p = Some bs" and nz: "?p \<noteq> 0" and lim: "unat ?p + length bs < 2 ^ 64"
    by (simp_all add: reading_def)
  have off: "off < 2 ^ 64" using assms(2) lim by linarith
  then have u: "unat (of_nat off :: addr) = off" by (simp add: unat_of_nat)
  have "unat (?p + of_nat off) = unat ?p + off"
    using lim assms(2) u by (subst unat_plus_simple [THEN iffD1]) (simp_all add: no_olen_add_nat)
  moreover have "0 < unat ?p" using nz by (simp add: unat_gt_0)
  ultimately have "?p + of_nat off \<noteq> 0" by (metis add_gr_0 less_numeral_extra(3) unat_0)
  with h assms(2) u show ?thesis by (simp add: in_packet_def)
qed


lemma load_at:
  assumes "reading E st bs o'" and "off + n \<le> length bs"
  shows "load st (in_pdata (conn st) + of_nat off) n = Inr (take n (drop off bs))"
  using in_packet_at [OF assms] readingD(1) [OF assms(1)] by (simp add: load_def)

lemma load_int_cursor:
  assumes "reading E st bs off" and "drop off bs = le4 w @ rest"
  shows "load_int st (cursor st) = Inr w"
proof -
  have "off + 4 \<le> length bs" using arg_cong [OF assms(2), of length] by simp
  from load_at [OF assms(1) this] assms(2) readingD(2) [OF assms(1)] show ?thesis
    by (simp add: load_int_def)
qed

lemma load_str_at:
  assumes "reading E st bs o'" and "drop off bs = s @ 0 # rest" and "0 \<notin> set s" and "off \<le> length bs"
  shows "load_str st (in_pdata (conn st) + of_nat off) = Inr s"
proof -
  have "off + 0 \<le> length bs" using assms(4) by simp
  from in_packet_at [OF assms(1) this] assms(2,3) readingD(1) [OF assms(1)] show ?thesis
    by (simp add: load_str_def)
qed

text \<open>Moving the cursor.\<close>

lemma reading_advance:
  assumes "reading E st bs off" and "off + k \<le> length bs"
  shows "reading E (advance st (of_nat k)) bs (off + k)"
  using assms by (simp add: reading_def add.assoc)

lemma ptr_int_of_nat: "k < 2 ^ 31 \<Longrightarrow> ptr_int (of_nat k) = of_nat k"
proof -
  assume k: "k < 2 ^ 31"
  then have "unat (of_nat k :: c_int) = k" by (simp add: unat_of_nat)
  with k have "sint (of_nat k :: c_int) = int k" by (simp add: sint_small)
  then show ?thesis by (simp add: scast_eq)
qed

text \<open>Writing into the packet.\<close>

lemma store_at:
  assumes r: "reading E st bs o'" and n: "off + length new \<le> length bs" and o: "o' \<le> length bs"
  shows "\<exists>st'. store st (in_pdata (conn st) + of_nat off) new = Inr st' \<and>
    reading E st' (take off bs @ new @ drop (off + length new) bs) o' \<and> conn st' = conn st \<and> world st' = world st \<and>
    eles st' = eles st \<and> cur_ele st' = cur_ele st \<and> mem_abs E (mem st') = mem_abs E (mem st) \<and>
    (\<forall>q. q \<noteq> in_pdata (conn st) \<longrightarrow> heap (mem st') q = heap (mem st) q) \<and>
    (take off bs @ new @ drop (off + length new) bs = bs \<longrightarrow> st' = st) \<and> spends E T 1 (mem st) (mem st')"
proof -
  let ?p = "in_pdata (conn st)"
  let ?bs = "take off bs @ new @ drop (off + length new) bs"
  let ?st = "st\<lparr>mem := (mem st)\<lparr>heap := (heap (mem st))(?p \<mapsto> ?bs)\<rparr>\<rparr>"
  have len: "length ?bs = length bs" using n by simp
  have run: "store st (?p + of_nat off) new = Inr ?st"
    using in_packet_at [OF r n] readingD(1) [OF r] by (simp add: store_def Let_def)
  have abs: "mem_abs E (mem ?st) = mem_abs E (mem st)" by (simp add: mem_abs_heap)
  have "mem_wf E (mem ?st)"
  proof -
    have l: "unat (of_nat (length bs) :: c_uint) = length bs"
      using r by (simp add: reading_def unat_of_nat)
    have "mem_wf E ((mem st)\<lparr>heap := (heap (mem st))(?p \<mapsto> ?bs)\<rparr>)"
    proof (rule mem_wf_write)
      show "mem_wf E (mem st)" using r by (simp add: reading_def)
      show "mem_abs E (mem st) ?p = Some (in_mem_id (conn st), of_nat (length bs), False)"
        using r by (simp add: reading_def)
      show "unat (of_nat (length bs) :: c_uint) \<le> length ?bs" unfolding len l ..
    qed
    then show ?thesis by simp
  qed
  then have "reading E ?st ?bs o'"
    using r o len unfolding reading_def abs by simp
  moreover have "?st = st" if "?bs = bs"
    unfolding that using heap_self [of "mem st" ?p bs] r by (simp add: reading_def)
  moreover have "spends E T 1 (mem st) (mem ?st)"
    using spends_write [of "mem st" ?p bs ?bs] r len by (simp add: reading_def)
  ultimately show ?thesis using run abs by (intro exI [of _ ?st]) simp
qed

section \<open>What the caller gets\<close>

text \<open>A value that was sent is received: the pointer and the number of elements give it back.\<close>

definition received :: "'w scl \<Rightarrow> addr \<Rightarrow> c_int option \<Rightarrow> object \<Rightarrow> scl_type \<Rightarrow> c_int \<Rightarrow> bool" where
  "received st p cnt val type n \<longleftrightarrow>
     (if type \<in> scalars then load st p (unit_len type) = Inr (take (unit_len type) (block_of val))
      else if type \<in> arrays
      then cnt = Some n \<and> load st p (unit_len type * unat n) = Inr (take (unit_len type * unat n) (block_of val))
      else if text_of (string_ptr val) = [] then p = 0
      else load_str st p = Inr (text_of (string_ptr val)))"

lemma text_of_nonzero: "0 \<notin> set (text_of p)"
  by (auto simp: text_of_def split: option.splits dest: set_takeWhileD)

lemma get_scalar:
  "type \<in> scalars \<Longrightarrow> scl_get_value E st type want = Inr (cursor st, None, advance st (of_nat (unit_len type)))"
  by (auto simp: scalars_def scl_get_value_def less_eq_scl_type_def)

lemma get_array:
  "type \<in> arrays \<Longrightarrow> load_int st (cursor st) = Inr n \<Longrightarrow>
   scl_get_value E st type True =
     Inr (cursor (advance st 4), Some n, advance (advance st 4) (ptr_int (of_nat (unit_len type) * n)))"
  by (auto simp: arrays_def scl_get_value_def less_eq_scl_type_def)

lemma get_string:
  "load_int st (cursor st) = Inr k \<Longrightarrow>
   scl_get_value E st SCL_STRING want =
     (let st2 = advance st 4
      in if k = 0 then Inr (0, None, advance st2 1)
         else bind_res (store st2 (cursor st2 + ptr_int k) [0]) (\<lambda>st3.
                Inr (cursor st2, None, advance st3 (ptr_int (k + 1)))))"
  by (simp add: scl_get_value_def less_eq_scl_type_def Let_def)

lemma list_write_same: "drop off bs = s @ rest \<Longrightarrow> off \<le> length bs \<Longrightarrow>
  take off bs @ s @ drop (off + length s) bs = bs"
  by (metis append_eq_conv_conj append_take_drop_id drop_drop add.commute)

lemma scl_get_value_received:
  assumes r: "reading E st bs off" and v: "val_ok val type n" and t: "type \<noteq> SCL_STRING_A"
    and d: "drop off bs = encode val type n @ rest"
  shows "\<exists>p cnt st'. scl_get_value E st type True = Inr (p, cnt, st') \<and> received st' p cnt val type n \<and>
    reading E st' bs (off + length (encode val type n)) \<and> st' = advance st (of_nat (length (encode val type n)))"
proof (cases rule: type_cases [of type])
  case scalar
  from scalar v obtain vs where val: "val = Block vs" "unit_len type \<le> length vs"
    by (auto simp: val_ok_def split: object.splits)
  have e: "encode val type n = take (unit_len type) (block_of val)" using scalar by (simp add: encode_def)
  have len: "length (encode val type n) = unit_len type" unfolding e using val by (simp add: block_of_def)
  have fits: "off + unit_len type \<le> length bs"
    using arg_cong [OF d, of length] readingD(3) [OF r] len by simp
  note r' = reading_advance [OF r fits]
  have "load (advance st (of_nat (unit_len type))) (cursor st) (unit_len type) = Inr (take (unit_len type) (block_of val))"
    using load_at [OF r' fits] d len readingD(2) [OF r] unfolding e by simp
  with r' scalar show ?thesis
    unfolding len by (simp add: get_scalar received_def)
next
  case array
  have enc: "encode val type n = le4 n @ take (unit_len type * unat n) (block_of val)"
    using array by (simp add: encode_def)
  have vl: "unit_len type * unat n \<le> length (block_of val)" "unit_len type * unat n < 2 ^ 31"
    using array v by (auto simp: val_ok_def block_of_def split: object.splits)
  have len: "length (encode val type n) = 4 + unit_len type * unat n" unfolding enc using vl by simp
  have fits: "off + 4 + unit_len type * unat n \<le> length bs"
    using arg_cong [OF d, of length] readingD(3) [OF r] len by simp
  have u: "of_nat (unit_len type) * n = (of_nat (unit_len type * unat n) :: c_int)" by simp
  have r4: "reading E (advance st 4) bs (off + 4)"
    using reading_advance [OF r, of 4] fits by simp
  note r' = reading_advance [OF r4 fits]
  let ?st' = "advance (advance st 4) (of_nat (unit_len type * unat n))"
  have "scl_get_value E st type True = Inr (cursor (advance st 4), Some n, ?st')"
    using get_array [OF array(1) load_int_cursor [OF r], of n] d vl(2)
    unfolding enc u by (simp add: ptr_int_of_nat del: of_nat_mult)
  moreover have "load ?st' (cursor (advance st 4)) (unit_len type * unat n) =
      Inr (take (unit_len type * unat n) (block_of val))"
  proof -
    have "drop (off + 4) bs = drop 4 (drop off bs)" by (simp add: add.commute)
    also have "\<dots> = take (unit_len type * unat n) (block_of val) @ rest" unfolding d enc by simp
    finally have dr: "drop (off + 4) bs = take (unit_len type * unat n) (block_of val) @ rest" .
    have c4: "cursor (advance st 4) = in_pdata (conn ?st') + of_nat (off + 4)"
      using readingD(2) [OF r4] by simp
    show ?thesis unfolding c4 load_at [OF r' fits] dr using vl(1) by simp
  qed
  moreover have "?st' = advance st (of_nat (4 + unit_len type * unat n))" by (simp add: add.assoc)
  ultimately show ?thesis
    using r' array unfolding len by (auto simp: received_def add.assoc simp del: of_nat_add of_nat_mult)
next
  case string
  let ?t = "text_of (string_ptr val)"
  have enc: "encode val type n = le4 (of_nat (length ?t)) @ ?t @ [0]"
    using string by (simp add: encode_def enc_string_def)
  have len: "length (encode val type n) = 5 + length ?t" unfolding enc by simp
  have fits: "off + 4 + length ?t + 1 \<le> length bs"
    using arg_cong [OF d, of length] readingD(3) [OF r] len by simp
  have r4: "reading E (advance st 4) bs (off + 4)"
    using reading_advance [OF r, of 4] fits by simp
  have k: "load_int st (cursor st) = Inr (of_nat (length ?t))"
    using load_int_cursor [OF r] d unfolding enc by simp
  have small: "length ?t + 1 < 2 ^ 31" using fits readingD(4) [OF r] by simp
  have d4: "drop (off + 4) bs = ?t @ 0 # rest"
  proof -
    have "drop (off + 4) bs = drop 4 (drop off bs)" by (simp add: add.commute)
    then show ?thesis unfolding d enc by simp
  qed
  show ?thesis
  proof (cases "?t = []")
    case True
    have "reading E (advance (advance st 4) (of_nat 1)) bs (off + 4 + 1)"
      using fits True by (intro reading_advance [OF r4]) simp
    with True string k show ?thesis
      unfolding len by (simp add: get_string received_def Let_def add.commute [of 5])
  next
    case False
    let ?st2 = "advance st 4"
    have nz: "(of_nat (length ?t) :: c_int) \<noteq> 0"
    proof -
      have "unat (of_nat (length ?t) :: c_int) = length ?t" using small by (simp add: unat_of_nat)
      with False show ?thesis by (metis length_0_conv unat_0)
    qed
    have c: "cursor ?st2 + ptr_int (of_nat (length ?t)) = in_pdata (conn ?st2) + of_nat (off + 4 + length ?t)"
      using readingD(2) [OF r4] small by (simp add: ptr_int_of_nat add.assoc)
    have "drop (off + 4 + length ?t) bs = [0] @ rest"
    proof -
      have "drop (off + 4 + length ?t) bs = drop (length ?t) (drop (off + 4) bs)" by (simp add: add.commute)
      then show ?thesis unfolding d4 by simp
    qed
    then have same: "take (off + 4 + length ?t) bs @ [0] @ drop (off + 4 + length ?t + length [0 :: byte]) bs = bs"
      using fits by (intro list_write_same) simp_all
    from store_at [OF r4, of "off + 4 + length ?t" "[0]"] fits same obtain st3 where
      st3: "store ?st2 (cursor ?st2 + ptr_int (of_nat (length ?t))) [0] = Inr st3" "reading E st3 bs (off + 4)"
        "conn st3 = conn ?st2" "st3 = ?st2"
      unfolding c by auto
    have r': "reading E (advance st3 (of_nat (length ?t + 1))) bs (off + 4 + (length ?t + 1))"
      using fits by (intro reading_advance [OF st3(2)]) simp
    have run: "scl_get_value E st SCL_STRING True = Inr (cursor ?st2, None, advance st3 (of_nat (length ?t + 1)))"
      using nz st3(1) small ptr_int_of_nat [of "length ?t + 1"]
      by (simp add: get_string [OF k] Let_def add.commute)
    have "load_str (advance st3 (of_nat (length ?t + 1))) (cursor ?st2) = Inr ?t"
    proof -
      have c4: "cursor ?st2 = in_pdata (conn (advance st3 (of_nat (length ?t + 1)))) + of_nat (off + 4)"
        using readingD(2) [OF r4] st3(3) by simp
      show ?thesis unfolding c4 using fits by (intro load_str_at [OF r' d4 text_of_nonzero]) simp
    qed
    moreover have "off + 4 + (length ?t + 1) = off + (5 + length ?t)" by simp
    note r'' = r' [unfolded this]
    ultimately show ?thesis
      unfolding len using run st3(3,4) string False
      by (intro exI [of _ "cursor ?st2"] exI [of _ None] exI [of _ "advance st3 (of_nat (length ?t + 1))"] conjI r'')
        (simp_all add: received_def add.assoc)
  qed
next
  case strings
  with t show ?thesis by simp
qed

section \<open>Packets\<close>

lemma take_packet:
  "take 16 (packet opcode bs @ more_in) = le4 opcode @ le4 0 @ le4 0 @ le4 (of_nat (length bs))"
  "drop 16 (packet opcode bs @ more_in) = bs @ more_in"
  by (simp_all add: packet_def)

lemma mem_alloc_abs:
  assumes "mem_ok E c" and "mem_alloc E c t n = Inr (p, c')" and "p \<noteq> 0"
  shows "mem_ok E c'" "mem_abs E c' = (mem_abs E c)(p \<mapsto> (t, n, False))" "mem_abs E c p = None"
    "heap c' = (heap c)(p \<mapsto> replicate (unat n) 0)" "unat p + unat n < 2 ^ 64"
proof -
  have wf: "mem_wf E c" and E: "libc_ok E" using assms(1) by simp_all
  have "mem_ok E c' \<and> mem_abs E c' = (mem_abs E c)(p \<mapsto> (t, n, False)) \<and> mem_abs E c p = None \<and>
    heap c' = (heap c)(p \<mapsto> replicate (unat n) 0) \<and> unat p + unat n < 2 ^ 64"
    using wf E
  proof (cases rule: mem_alloc_cases [where t = t and sz = n])
    case failed
    with assms show ?thesis by simp
  next
    case (ok q d)
    moreover from ok assms(2) have "q = p" "d = c'" by simp_all
    ultimately show ?thesis using E by (simp add: mem_abs_def mem_fresh_lookup)
  qed
  then show "mem_ok E c'" "mem_abs E c' = (mem_abs E c)(p \<mapsto> (t, n, False))" "mem_abs E c p = None"
    "heap c' = (heap c)(p \<mapsto> replicate (unat n) 0)" "unat p + unat n < 2 ^ 64" by simp_all
qed

text \<open>The memory for the next packet can be allocated once the last packet is freed.\<close>

definition can_receive :: "libc \<Rightarrow> 'w scl \<Rightarrow> nat \<Rightarrow> bool" where
  "can_receive E st n \<longleftrightarrow>
     (\<exists>m p m'. mem_free_all E (mem st) (in_mem_id (conn st)) = Inr m \<and>
        mem_alloc E m (in_mem_id (conn st)) (of_nat n) = Inr (p, m') \<and> p \<noteq> 0)"

lemma ample_can_receive:
  assumes "mem_ok E (mem st)" and "in_mem_id (conn st) \<noteq> 0" and "ample E T k (mem st)" and "2 \<le> k"
    and "in_mem_id (conn st) \<in> T" and "n < 2 ^ 31"
  shows "can_receive E st n"
proof -
  from typed_mem.release_all_law [OF assms(1,2)] obtain m where
    m: "mem_free_all E (mem st) (in_mem_id (conn st)) = Inr m" by blast
  have "ample E T 1 m" using spends_free_all [OF m assms(2)] assms(3) by (rule spendsD) (use assms(4) in simp)
  moreover have "unat (of_nat n :: c_uint) < 2 ^ 31" using assms(6) by (simp add: unat_of_nat)
  ultimately show ?thesis using m assms(5) ample_alloc [of E T 1 m] by (metis can_receive_def zero_less_one)
qed

text \<open>What changes besides the packet: the previous packet is gone, other memory stays.\<close>

definition new_packet :: "libc \<Rightarrow> 'w scl \<Rightarrow> 'w scl \<Rightarrow> bool" where
  "new_packet E st st' \<longleftrightarrow>
     (\<forall>q. mem_types E (mem st') q =
        (if q = in_pdata (conn st') then Some (in_mem_id (conn st))
         else if mem_types E (mem st) q = Some (in_mem_id (conn st)) then None else mem_types E (mem st) q)) \<and>
     (\<forall>q. mem_types E (mem st) q \<noteq> None \<and> mem_types E (mem st) q \<noteq> Some (in_mem_id (conn st)) \<longrightarrow>
        heap (mem st') q = heap (mem st) q) \<and>
     mem_types E (mem st) (in_pdata (conn st')) \<in> {None, Some (in_mem_id (conn st))} \<and>
     eles st' = eles st \<and> cur_ele st' = cur_ele st \<and>
     (conn st')\<lparr>in_packet_opcode := 0, in_pdata := 0, in_pcursor := 0\<rparr> =
       (conn st)\<lparr>in_packet_opcode := 0, in_pdata := 0, in_pcursor := 0\<rparr>"

context scl_stream
begin

lemma scl_read_packet_payload:
  assumes m: "mem_ok E (mem st)" and id: "in_mem_id (conn st) \<noteq> 0" and w: "ok (world st)"
    and inc: "incoming (world st) = packet opcode bs @ more_in" and len: "length bs < 2 ^ 31"
    and can: "can_receive E st (length bs)"
  shows "\<exists>st'. scl_read_packet E io st = Inr (int (length bs), st') \<and> reading E st' bs 0 \<and>
    in_packet_opcode (conn st') = opcode \<and> incoming (world st') = more_in \<and> sent (world st') = sent (world st) \<and>
    room (world st') = room (world st) \<and> ok (world st') \<and> new_packet E st st' \<and>
    hist (world st') = took (packet opcode bs) (hist (world st)) \<and>
    (in_mem_id (conn st) \<in> T \<longrightarrow> spends E T 3 (mem st) (mem st'))"
proof -
  let ?id = "in_mem_id (conn st)"
  have u16: "unat (16 :: c_uint) = 16" "sint (16 :: c_uint) = 16" by simp_all
  have ul: "unat (of_nat (length bs) :: c_uint) = length bs" using len by (simp add: unat_of_nat)
  then have sl: "sint (of_nat (length bs) :: c_uint) = int (length bs)" using len by (simp add: sint_small)
  have "unat (16 :: c_uint) \<le> length (incoming (world st))" unfolding inc u16 by (simp add: length_packet)
  from read_law [OF w this] obtain w1 where
    w1': "io_read io True (world st) 16 = (sint (16 :: c_uint), take (unat (16 :: c_uint)) (incoming (world st)), w1)"
      "incoming w1 = drop (unat (16 :: c_uint)) (incoming (world st))"
      "sent w1 = sent (world st)" "room w1 = room (world st)" "ok w1"
      "hist w1 = took (take (unat (16 :: c_uint)) (incoming (world st))) (hist (world st))" by blast
  note w1 = w1' [unfolded inc u16 take_packet(2)]
  from read_law [OF w1(5), of "of_nat (length bs)"] w1(2) obtain w2 where
    w2: "io_read io True w1 (of_nat (length bs)) = (int (length bs), bs, w2)"
      "incoming w2 = more_in" "sent w2 = sent (world st)" "room w2 = room (world st)" "ok w2"
      "hist w2 = took bs (hist w1)"
    by (auto simp: ul sl w1)
  have "take 16 (packet opcode bs @ more_in) @ bs = packet opcode bs" by (simp add: packet_def)
  then have hist: "hist w2 = took (packet opcode bs) (hist (world st))" by (simp add: w2(6) w1(6) took_took)
  from can obtain m1 p m2 where mm: "mem_free_all E (mem st) ?id = Inr m1"
      "mem_alloc E m1 ?id (of_nat (length bs)) = Inr (p, m2)" "p \<noteq> 0" by (auto simp: can_receive_def)
  from typed_mem.release_all_law [OF m id] mm(1) have
    m1: "mem_ok E m1" "mem_types E m1 = (\<lambda>p. if mem_types E (mem st) p = Some ?id then None else mem_types E (mem st) p)"
      "\<And>q. mem_types E (mem st) q \<noteq> Some ?id \<Longrightarrow> heap m1 q = heap (mem st) q" by auto
  note m2 = mem_alloc_abs [OF m1(1) mm(2,3)]
  define m3 where "m3 = m2\<lparr>heap := (heap m2)(p := map_option (\<lambda>old. bs @ drop (length bs) old) (heap m2 p))\<rparr>"
  have m3h: "m3 = m2\<lparr>heap := (heap m2)(p \<mapsto> bs)\<rparr>" by (simp add: m3_def m2(4) ul)
  have abs3: "mem_abs E m3 = mem_abs E m2" by (simp add: m3h mem_abs_heap)
  have ok3: "mem_ok E m3"
    unfolding m3h using mem_wf_write [of E m2 p ?id "of_nat (length bs)" False bs] m2 by (simp add: ul)
  define st' where "st' = st\<lparr>mem := m3, world := w2,
    conn := (conn st)\<lparr>in_packet_opcode := opcode, in_pdata := p, in_pcursor := p\<rparr>\<rparr>"
  have hdr: "un_le4 (take 16 (packet opcode bs @ more_in)) = opcode"
      "un_le4 (drop 12 (take 16 (packet opcode bs @ more_in))) = of_nat (length bs)"
    unfolding take_packet by simp_all
  have run: "scl_read_packet E io st = Inr (int (length bs), st')"
    unfolding scl_read_packet_def scl_free_packet_mem_def Let_def w1(1) prod.case hdr
    using mm w2(1) sl by (cases "bs = []") (simp_all add: st'_def m3_def)
  have "reading E st' bs 0"
    using ok3 m2 mm(3) len abs3 by (simp add: reading_def st'_def m3h ul)
  moreover have "new_packet E st st'"
  proof -
    have "mem_types E m3 q = (if q = p then Some ?id else mem_types E m1 q)" for q
      by (simp add: mem_types_def abs3 m2(2))
    moreover have "heap m3 q = heap (mem st) q"
      if "mem_types E (mem st) q \<noteq> None" "mem_types E (mem st) q \<noteq> Some ?id" for q
    proof -
      have "mem_types E m1 p = None" using m2(3) by (simp add: mem_types_def)
      with that m1(2) have "q \<noteq> p" by auto
      with m1(3) [OF that(2)] show ?thesis by (simp add: m3h m2(4))
    qed
    moreover have "mem_types E (mem st) p \<in> {None, Some ?id}"
      using m2(3) fun_cong [OF m1(2), of p] by (auto simp: mem_types_def split: if_splits)
    ultimately show ?thesis
      unfolding new_packet_def using m1(2) by (auto simp: st'_def)
  qed
  moreover have "spends E T 3 (mem st) m3" if "?id \<in> T"
  proof -
    have "unat (of_nat (length bs) :: c_uint) < 2 ^ 31" unfolding ul by (rule len)
    note a = spends_free_all [OF mm(1) id, of T] spends_alloc [OF mm(2) that this]
    have "spends E T 1 m2 m3"
      unfolding m3h using m2(4) by (intro spends_write [where old = "replicate (unat (of_nat (length bs) :: c_uint)) 0"]) (simp_all add: ul)
    from spends_trans [OF spends_trans [OF a] this] show ?thesis by (simp add: eval_nat_numeral)
  qed
  ultimately show ?thesis using run w2 hist by (intro exI [of _ st']) (simp add: st'_def)
qed

end

section \<open>All values of a packet\<close>

fun get_values :: "libc \<Rightarrow> 'w scl \<Rightarrow> scl_type list \<Rightarrow> ((addr \<times> c_int option) list \<times> 'w scl) res" where
  "get_values E st [] = Inr ([], st)"
| "get_values E st (t # ts) =
     bind_res (scl_get_value E st t True) (\<lambda>(p, cnt, st1).
       bind_res (get_values E st1 ts) (\<lambda>(rs, st2). Inr ((p, cnt) # rs, st2)))"

text \<open>Whether a value is received depends only on the packet.\<close>

lemma received_cong:
  "heap (mem st') (in_pdata (conn st')) = heap (mem st) (in_pdata (conn st)) \<Longrightarrow>
   in_pdata (conn st') = in_pdata (conn st) \<Longrightarrow> received st' p cnt val type n = received st p cnt val type n"
proof -
  assume h: "heap (mem st') (in_pdata (conn st')) = heap (mem st) (in_pdata (conn st))"
    and p: "in_pdata (conn st') = in_pdata (conn st)"
  then have "in_packet st' x n = in_packet st x n" "packet_bytes st' = packet_bytes st" for x n
    unfolding in_packet_def packet_bytes_def h p by simp_all
  then show ?thesis by (simp add: received_def load_def load_str_def)
qed

definition item_received :: "'w scl \<Rightarrow> addr \<times> c_int option \<Rightarrow> object \<times> scl_type \<times> c_int \<Rightarrow> bool" where
  "item_received st = (\<lambda>(p, cnt) (val, type, n). received st p cnt val type n)"

lemma get_values_received:
  "reading E st bs off \<Longrightarrow> list_all item_ok items \<Longrightarrow> \<forall>(v, t, n) \<in> set items. t \<noteq> SCL_STRING_A \<Longrightarrow>
   drop off bs = payload items @ rest \<Longrightarrow>
   \<exists>rs st'. get_values E st (map (\<lambda>(v, t, n). t) items) = Inr (rs, st') \<and>
     list_all2 (item_received st') rs items \<and> reading E st' bs (off + length (payload items)) \<and>
     world st' = world st \<and> in_pdata (conn st') = in_pdata (conn st)"
proof (induction items arbitrary: st off)
  case Nil
  then show ?case by (simp add: payload_def)
next
  case (Cons it items)
  obtain v t n where it: "it = (v, t, n)" by (cases it)
  have pay: "payload (it # items) = encode v t n @ payload items" by (simp add: payload_def enc_item_def it)
  have v: "val_ok v t n" "t \<noteq> SCL_STRING_A" using Cons.prems by (simp_all add: it item_ok_def)
  have d: "drop off bs = encode v t n @ payload items @ rest" using Cons.prems(4) by (simp add: pay)
  from scl_get_value_received [OF Cons.prems(1) v d] obtain p cnt st1 where
    st1: "scl_get_value E st t True = Inr (p, cnt, st1)" "received st1 p cnt v t n"
      "reading E st1 bs (off + length (encode v t n))" "st1 = advance st (of_nat (length (encode v t n)))" by blast
  then have "world st1 = world st" and pd: "in_pdata (conn st1) = in_pdata (conn st)" by simp_all
  note st1 = st1(1-3) this(1)
  have "drop (off + length (encode v t n)) bs = drop (length (encode v t n)) (drop off bs)"
    by (simp add: add.commute)
  then have "drop (off + length (encode v t n)) bs = payload items @ rest" unfolding d by simp
  from Cons.IH [OF st1(3) _ _ this] Cons.prems(2,3) obtain rs st' where
    st': "get_values E st1 (map (\<lambda>(v, t, n). t) items) = Inr (rs, st')" "list_all2 (item_received st') rs items"
      "reading E st' bs (off + length (encode v t n) + length (payload items))" "world st' = world st1"
      "in_pdata (conn st') = in_pdata (conn st1)" by auto
  have "received st' p cnt v t n"
    using st1(2,3) st'(3,5) received_cong [of st' st1] by (simp add: reading_def)
  with st1 st' pd show ?case
    by (simp add: it pay [unfolded it] item_received_def add.assoc)
qed

section \<open>Arrays of strings\<close>

text \<open>The strings of an array as they lie in the packet after the loop, and the pointers to them.\<close>

definition cleared :: "byte list option list \<Rightarrow> byte list" where
  "cleared ps = concat (map (\<lambda>p. [0, 0, 0, 0] @ text_of p) ps)"

fun string_ptrs :: "addr \<Rightarrow> nat \<Rightarrow> byte list option list \<Rightarrow> addr list" where
  "string_ptrs base off [] = []"
| "string_ptrs base off (p # ps) =
     (if text_of p = [] then 0 else base + of_nat (off + 4)) # string_ptrs base (off + 4 + length (text_of p)) ps"

lemma length_string_ptrs [simp]: "length (string_ptrs base off ps) = length ps"
  by (induction ps arbitrary: off) simp_all

lemma length_concat_le8 [simp]: "length (concat (map le8 qs)) = 8 * length qs"
  by (induction qs) simp_all

lemma store_ptr_run:
  fixes p :: addr
  assumes r: "reading E st bs off" and q: "ptrs \<noteq> 0" "ptrs \<noteq> in_pdata (conn st)"
    and blk: "heap (mem st) ptrs = Some pb" "mem_abs E (mem st) ptrs = Some (t, k, False)" "unat k \<le> length pb"
    and fits: "8 * count + 8 \<le> length pb"
  defines "pb' \<equiv> take (8 * count) pb @ le8 p @ drop (8 * count + 8) pb"
  obtains st' where "store_ptr st ptrs count p = Inr st'" "reading E st' bs off" "heap (mem st') ptrs = Some pb'"
    "mem_abs E (mem st') = mem_abs E (mem st)" "conn st' = conn st" "world st' = world st"
    "\<And>q. q \<noteq> ptrs \<Longrightarrow> heap (mem st') q = heap (mem st) q" "length pb' = length pb"
proof -
  let ?st = "st\<lparr>mem := (mem st)\<lparr>heap := (heap (mem st))(ptrs \<mapsto> pb')\<rparr>\<rparr>"
  have len: "length pb' = length pb" using fits by (simp add: pb'_def)
  have "mem_wf E ((mem st)\<lparr>heap := (heap (mem st))(ptrs \<mapsto> pb')\<rparr>)"
  proof (rule mem_wf_write)
    show "mem_wf E (mem st)" using r by (simp add: reading_def)
    show "mem_abs E (mem st) ptrs = Some (t, k, False)" by (rule blk)
    show "unat k \<le> length pb'" using blk len by simp
  qed
  then have "reading E ?st bs off" using r q by (simp add: reading_def mem_abs_heap)
  then show thesis
    using q blk fits len by (intro that [of ?st]) (simp_all add: store_ptr_def pb'_def mem_abs_heap)
qed

lemma string_loop_strings:
  "reading E st (pre @ concat (map enc_string ps) @ rest) (length pre) \<Longrightarrow> ptrs \<noteq> 0 \<Longrightarrow> ptrs \<noteq> in_pdata (conn st) \<Longrightarrow>
   heap (mem st) ptrs = Some pb \<Longrightarrow> mem_abs E (mem st) ptrs = Some (t, k, False) \<Longrightarrow> unat k \<le> length pb \<Longrightarrow>
   8 * (count + length ps) \<le> length pb \<Longrightarrow>
   \<exists>st'. string_loop st ptrs count (length ps) = Inr st' \<and>
     reading E st' (pre @ cleared ps @ rest) (length pre + length (cleared ps)) \<and>
     heap (mem st') ptrs = Some (take (8 * count) pb @
       concat (map le8 (string_ptrs (in_pdata (conn st)) (length pre) ps)) @ drop (8 * (count + length ps)) pb) \<and>
     in_pdata (conn st') = in_pdata (conn st) \<and> world st' = world st"
proof (induction ps arbitrary: st pre pb count)
  case Nil
  then show ?case by (simp add: cleared_def)
next
  case (Cons p ps)
  let ?t = "text_of p" and ?more = "concat (map enc_string ps) @ rest"
  let ?bs = "pre @ concat (map enc_string (p # ps)) @ rest"
  let ?bs' = "pre @ [0, 0, 0, 0] @ ?t @ ?more"
  have bs: "?bs = pre @ le4 (of_nat (length ?t)) @ ?t @ ?more" by (simp add: enc_string_def)
  have r: "reading E st (pre @ le4 (of_nat (length ?t)) @ ?t @ ?more) (length pre)"
    using Cons.prems(1) unfolding bs .
  have small: "length ?t < 2 ^ 31" using readingD(4) [OF r] by simp
  have cur: "cursor st = in_pdata (conn st) + of_nat (length pre)" using readingD(2) [OF r] .
  have 1: "load_int st (cursor st) = Inr (of_nat (length ?t))"
    by (rule load_int_cursor [OF r, of _ "?t @ ?more"]) simp
  from store_at [OF r, of "length pre" "[0, 0, 0, 0]"] obtain st1 where
    st1: "store st (cursor st) [0, 0, 0, 0] = Inr st1" "reading E st1 ?bs' (length pre)" "conn st1 = conn st"
      "world st1 = world st" "mem_abs E (mem st1) = mem_abs E (mem st)"
      "\<And>q. q \<noteq> in_pdata (conn st) \<Longrightarrow> heap (mem st1) q = heap (mem st) q"
    unfolding cur by auto
  let ?st2 = "advance st1 4"
  have r2: "reading E ?st2 ?bs' (length pre + 4)"
    using reading_advance [OF st1(2), of 4] by simp
  have cur2: "cursor ?st2 = in_pdata (conn st) + of_nat (length pre + 4)"
    using readingD(2) [OF r2] st1(3) by simp
  let ?q = "if ?t = [] then 0 else cursor ?st2"
  have h2: "heap (mem ?st2) ptrs = Some pb" "mem_abs E (mem ?st2) ptrs = Some (t, k, False)"
    "ptrs \<noteq> in_pdata (conn ?st2)"
    using st1(3,5,6) Cons.prems(3,4,5) by simp_all
  have fits: "8 * count + 8 \<le> length pb" using Cons.prems(7) by simp
  obtain st3 where
    st3: "store_ptr ?st2 ptrs count ?q = Inr st3" "reading E st3 ?bs' (length pre + 4)"
      "heap (mem st3) ptrs = Some (take (8 * count) pb @ le8 ?q @ drop (8 * count + 8) pb)"
      "mem_abs E (mem st3) = mem_abs E (mem ?st2)" "conn st3 = conn ?st2" "world st3 = world ?st2"
      "length (take (8 * count) pb @ le8 ?q @ drop (8 * count + 8) pb) = length pb"
    by (rule store_ptr_run [OF r2 Cons.prems(2) h2(3) h2(1,2) Cons.prems(6) fits, of ?q]) blast
  let ?pb3 = "take (8 * count) pb @ le8 ?q @ drop (8 * count + 8) pb"
  let ?st4 = "advance st3 (of_nat (length ?t))"
  have zero: "(of_nat (length ?t) :: c_int) = 0 \<longleftrightarrow> ?t = []"
  proof -
    have "unat (of_nat (length ?t) :: c_int) = length ?t" using small by (simp add: unat_of_nat)
    then have "(of_nat (length ?t) :: c_int) = 0 \<longleftrightarrow> length ?t = 0"
      by (simp only: unat_eq_0 [symmetric])
    then show ?thesis by simp
  qed
  have still: "st3\<lparr>conn := in_pcursor_update (\<lambda>p. p) (conn st3)\<rparr> = st3" by simp
  have run: "string_loop st ptrs count (length (p # ps)) = string_loop ?st4 ptrs (count + 1) (length ps)"
    using 1 st1(1) st3(1) zero small by (auto simp: Let_def ptr_int_of_nat still)
  have r4: "reading E ?st4 ((pre @ [0, 0, 0, 0] @ ?t) @ concat (map enc_string ps) @ rest) (length (pre @ [0, 0, 0, 0] @ ?t))"
    using reading_advance [OF st3(2), of "length ?t"] by (simp add: eval_nat_numeral)
  have pd: "in_pdata (conn ?st4) = in_pdata (conn st)" using st3(5) st1(3) by simp
  have "\<exists>st'. string_loop ?st4 ptrs (count + 1) (length ps) = Inr st' \<and>
     reading E st' ((pre @ [0, 0, 0, 0] @ ?t) @ cleared ps @ rest) (length (pre @ [0, 0, 0, 0] @ ?t) + length (cleared ps)) \<and>
     heap (mem st') ptrs = Some (take (8 * (count + 1)) ?pb3 @
       concat (map le8 (string_ptrs (in_pdata (conn ?st4)) (length (pre @ [0, 0, 0, 0] @ ?t)) ps)) @
       drop (8 * (count + 1 + length ps)) ?pb3) \<and>
     in_pdata (conn st') = in_pdata (conn ?st4) \<and> world st' = world ?st4"
    using r4 Cons.prems(2,3,5,6,7) st3(3,4,5,7) st1(5) pd
    by (intro Cons.IH) (simp_all add: st1(3))
  then obtain st' where st': "string_loop ?st4 ptrs (count + 1) (length ps) = Inr st'"
     "reading E st' ((pre @ [0, 0, 0, 0] @ ?t) @ cleared ps @ rest) (length (pre @ [0, 0, 0, 0] @ ?t) + length (cleared ps))"
     "heap (mem st') ptrs = Some (take (8 * (count + 1)) ?pb3 @
       concat (map le8 (string_ptrs (in_pdata (conn ?st4)) (length (pre @ [0, 0, 0, 0] @ ?t)) ps)) @
       drop (8 * (count + 1 + length ps)) ?pb3)"
     "in_pdata (conn st') = in_pdata (conn ?st4)" "world st' = world ?st4" by blast
  have "take (8 * (count + 1)) ?pb3 = take (8 * count) pb @ le8 ?q"
    using fits by simp
  moreover have "drop (8 * (count + 1 + length ps)) ?pb3 = drop (8 * (count + length (p # ps))) pb"
    using fits by (simp add: algebra_simps)
  moreover have "string_ptrs (in_pdata (conn st)) (length pre) (p # ps) =
      ?q # string_ptrs (in_pdata (conn ?st4)) (length (pre @ [0, 0, 0, 0] @ ?t)) ps"
    using cur2 pd by (simp add: eval_nat_numeral)
  ultimately have "heap (mem st') ptrs = Some (take (8 * count) pb @
       concat (map le8 (string_ptrs (in_pdata (conn st)) (length pre) (p # ps))) @ drop (8 * (count + length (p # ps))) pb)"
    using st'(3) by (simp only: list.map concat.simps append_assoc)
  moreover have "cleared (p # ps) = [0, 0, 0, 0] @ ?t @ cleared ps" by (simp add: cleared_def)
  ultimately show ?case
    unfolding run using st'(1,2,4,5) pd st3(6) st1(4) by (simp add: add.assoc)
qed

lemma string_ptrs_load:
  "reading E st (pre @ cleared ps @ 0 # rest) o' \<Longrightarrow>
   list_all2 (\<lambda>q p. if text_of p = [] then q = 0 else load_str st q = Inr (text_of p))
     (string_ptrs (in_pdata (conn st)) (length pre) ps) ps"
proof (induction ps arbitrary: pre)
  case Nil
  then show ?case by simp
next
  case (Cons p ps)
  let ?t = "text_of p"
  have eq: "pre @ cleared (p # ps) @ 0 # rest = (pre @ [0, 0, 0, 0] @ ?t) @ cleared ps @ 0 # rest"
    by (simp add: cleared_def)
  obtain tl where tl: "cleared ps @ 0 # rest = 0 # tl"
    by (cases ps) (simp_all add: cleared_def)
  have "drop (length pre + 4) (pre @ cleared (p # ps) @ 0 # rest) = ?t @ cleared ps @ 0 # rest"
    by (simp add: cleared_def)
  then have d: "drop (length pre + 4) (pre @ cleared (p # ps) @ 0 # rest) = ?t @ 0 # tl"
    unfolding tl .
  have "load_str st (in_pdata (conn st) + of_nat (length pre + 4)) = Inr ?t"
    using load_str_at [OF Cons.prems d text_of_nonzero] by (simp add: cleared_def)
  moreover have l: "length (pre @ [0, 0, 0, 0] @ ?t) = length pre + 4 + length ?t" by simp
  have "list_all2 (\<lambda>q p. if text_of p = [] then q = 0 else load_str st q = Inr (text_of p))
     (string_ptrs (in_pdata (conn st)) (length pre + 4 + length ?t) ps) ps"
    unfolding l [symmetric] by (rule Cons.IH) (use Cons.prems in \<open>simp only: eq\<close>)
  ultimately show ?case unfolding string_ptrs.simps list_all2_Cons by (simp only: if_cancel) simp
qed

text \<open>What the caller gets for an array of strings: an array of pointers, NULL for an empty string.\<close>

definition strings_received :: "'w scl \<Rightarrow> addr \<Rightarrow> byte list option list \<Rightarrow> bool" where
  "strings_received st p ps \<longleftrightarrow>
     (\<exists>qs. heap (mem st) p = Some (concat (map le8 qs)) \<and>
        list_all2 (\<lambda>q s. if text_of s = [] then q = 0 else load_str st q = Inr (text_of s)) qs ps)"

lemma get_strings:
  "load_int st (cursor st) = Inr n \<Longrightarrow>
   scl_get_value E st SCL_STRING_A True =
     bind_res (mem_alloc E (mem st) (in_mem_id (conn st)) (8 * n)) (\<lambda>(ptrs, m).
     bind_res (string_loop ((advance st 4)\<lparr>mem := m\<rparr>) ptrs 0 (nat (sint n))) (\<lambda>st2.
     bind_res (store st2 (cursor st2) [0]) (\<lambda>st3. Inr (ptrs, Some n, advance st3 1))))"
  by (simp add: scl_get_value_def less_eq_scl_type_def)

lemma scl_get_value_strings:
  assumes r: "reading E st bs off" and n: "unat n = length ps"
    and d: "drop off bs = encode (Strings ps) SCL_STRING_A n @ rest"
    and alloc: "mem_alloc E (mem st) (in_mem_id (conn st)) (8 * n) = Inr (ptrs, m)" "ptrs \<noteq> 0"
  shows "\<exists>st' bs'. scl_get_value E st SCL_STRING_A True = Inr (ptrs, Some n, st') \<and> strings_received st' ptrs ps \<and>
    reading E st' bs' (off + length (encode (Strings ps) SCL_STRING_A n)) \<and>
    length bs' = length bs \<and> drop (off + length (encode (Strings ps) SCL_STRING_A n)) bs' = rest \<and>
    world st' = world st"
proof -
  define pre where "pre = take off bs @ le4 n"
  have enc: "encode (Strings ps) SCL_STRING_A n = le4 n @ concat (map enc_string ps) @ [0]"
    using n by (simp add: encode_def scalars_def arrays_def strings_of_def)
  have bs: "bs = pre @ concat (map enc_string ps) @ 0 # rest"
    using append_take_drop_id [of off bs] unfolding d enc pre_def by simp
  have lpre: "length pre = off + 4" using readingD(3) [OF r] by (simp add: pre_def)
  have "4 * length ps \<le> length (concat (map enc_string ps))" by (simp only: length_enc_strings)
  then have "4 * length ps < length bs" using arg_cong [OF bs, of length] by (simp del: length_concat)
  then have small: "length ps < 2 ^ 29" using readingD(4) [OF r] by simp
  have u8: "unat (8 * n) = 8 * length ps" using small n by (simp add: unat_word_ariths)
  have sn: "nat (sint n) = length ps" using small n by (simp add: sint_small)
  have l: "load_int st (cursor st) = Inr n"
    by (rule load_int_cursor [OF r, of _ "concat (map enc_string ps) @ 0 # rest"]) (simp add: d enc)
  have "mem_ok E (mem st)" using r by (rule readingD)
  note m = mem_alloc_abs [OF this alloc]
  let ?st1 = "(advance st 4)\<lparr>mem := m\<rparr>"
  have pq: "ptrs \<noteq> in_pdata (conn st)" using m(3) r by (auto simp: reading_def)
  have "length bs = length pre + length (concat (map enc_string ps) @ 0 # rest)"
    using arg_cong [OF bs, of length] by (simp only: length_append)
  then have "off + 4 \<le> length bs" unfolding lpre by simp
  then have "reading E (advance st 4) bs (off + 4)"
    using reading_advance [OF r, of 4] by simp
  then have "reading E ?st1 bs (off + 4)" using m pq by (simp add: reading_def)
  then have r1: "reading E ?st1 (pre @ concat (map enc_string ps) @ 0 # rest) (length pre)"
    unfolding lpre bs [symmetric] .
  have "\<exists>st'. string_loop ?st1 ptrs 0 (length ps) = Inr st' \<and>
     reading E st' (pre @ cleared ps @ 0 # rest) (length pre + length (cleared ps)) \<and>
     heap (mem st') ptrs = Some (take (8 * 0) (replicate (unat (8 * n)) 0) @
       concat (map le8 (string_ptrs (in_pdata (conn ?st1)) (length pre) ps)) @
       drop (8 * (0 + length ps)) (replicate (unat (8 * n)) 0)) \<and>
     in_pdata (conn st') = in_pdata (conn ?st1) \<and> world st' = world ?st1"
  proof (rule string_loop_strings [OF r1 alloc(2)])
    show "ptrs \<noteq> in_pdata (conn ?st1)" using pq by simp
    show "heap (mem ?st1) ptrs = Some (replicate (unat (8 * n)) 0)" using m by simp
    show "mem_abs E (mem ?st1) ptrs = Some (in_mem_id (conn st), 8 * n, False)" using m by simp
    show "unat (8 * n) \<le> length (replicate (unat (8 * n)) (0 :: byte))" by simp
    show "8 * (0 + length ps) \<le> length (replicate (unat (8 * n)) (0 :: byte))" using u8 by simp
  qed
  then obtain st2 where
    st2: "string_loop ?st1 ptrs 0 (length ps) = Inr st2"
      "reading E st2 (pre @ cleared ps @ 0 # rest) (length (pre @ cleared ps))"
      "heap (mem st2) ptrs = Some (concat (map le8 (string_ptrs (in_pdata (conn st2)) (length pre) ps)))"
      "in_pdata (conn st2) = in_pdata (conn st)" "world st2 = world st"
    using u8 by (auto simp: add.assoc)
  have cl: "length (cleared ps) = length (concat (map enc_string ps))"
    by (induction ps) (simp_all add: cleared_def enc_string_def)
  from store_at [OF st2(2), of "length (pre @ cleared ps)" "[0]"] obtain st3 where
    st3: "store st2 (cursor st2) [0] = Inr st3"
      "reading E st3 (pre @ cleared ps @ 0 # rest) (length (pre @ cleared ps))" "conn st3 = conn st2"
      "world st3 = world st2" "\<And>q. q \<noteq> in_pdata (conn st2) \<Longrightarrow> heap (mem st3) q = heap (mem st2) q"
    unfolding readingD(2) [OF st2(2)] by auto
  let ?st4 = "advance st3 1"
  let ?len = "length (encode (Strings ps) SCL_STRING_A n)"
  have r4: "reading E ?st4 (pre @ cleared ps @ 0 # rest) (off + ?len)"
    using reading_advance [OF st3(2), of 1] lpre cl unfolding enc by (simp add: ac_simps del: length_concat)
  have "strings_received ?st4 ptrs ps"
    unfolding strings_received_def
  proof (intro exI conjI)
    show "heap (mem ?st4) ptrs = Some (concat (map le8 (string_ptrs (in_pdata (conn ?st4)) (length pre) ps)))"
      using st3(3,5) st2(3,4) pq by simp
    show "list_all2 (\<lambda>q s. if text_of s = [] then q = 0 else load_str ?st4 q = Inr (text_of s))
        (string_ptrs (in_pdata (conn ?st4)) (length pre) ps) ps"
      using r4 by (rule string_ptrs_load)
  qed
  moreover have "scl_get_value E st SCL_STRING_A True = Inr (ptrs, Some n, ?st4)"
    using alloc(1) st2(1) st3(1) sn by (simp add: get_strings [OF l])
  moreover have "length (pre @ cleared ps @ 0 # rest) = length bs"
    using arg_cong [OF bs, of length] cl by (simp del: length_concat)
  moreover have "drop (off + ?len) (pre @ cleared ps @ 0 # rest) = rest"
    using lpre cl unfolding enc by (simp del: length_concat)
  ultimately show ?thesis
    using r4 st3(4) st2(5) by (intro exI [of _ ?st4] exI [of _ "pre @ cleared ps @ 0 # rest"] conjI) simp_all
qed

end
