(* ===== verification/Scl_Session.thy ===== *)
theory Scl_Session
  imports Suva_Conn Scl_Reader_Props
begin

text \<open>
  Whole packets, for the functions that talk over a connection: what \<open>send_packet\<close> sends, what
  \<open>scl_read_packet\<close> and the reads of values after it find, and what that spends of the memory.
\<close>

section \<open>A connection between two packets\<close>

text \<open>Nothing is queued, and the two memory types of the connection are different and supplied.\<close>

definition idle :: "libc \<Rightarrow> c_uint set \<Rightarrow> 'w scl \<Rightarrow> bool" where
  "idle E T st \<longleftrightarrow> queue E st [] \<and> in_mem_id (conn st) \<noteq> 0 \<and> in_mem_id (conn st) \<noteq> out_mem_id (conn st) \<and>
     in_mem_id (conn st) \<in> T \<and> out_mem_id (conn st) \<in> T"

lemma queue_opcode: "queue E (upd_conn (out_packet_opcode_update f) st) items = queue E st items"
  by (simp add: queue_def queue_at_def)

lemma queue_values_queue:
  "queue E st items \<Longrightarrow> list_all item_ok more_items \<Longrightarrow> ample E T k (mem st) \<Longrightarrow> length more_items \<le> k \<Longrightarrow>
   out_mem_id (conn st) \<in> T \<Longrightarrow>
   \<exists>st'. queue_values E st more_items = Inr st' \<and> queue E st' (items @ more_items) \<and> world st' = world st \<and>
     keeps_rest E st st' \<and> out_packet_opcode (conn st') = out_packet_opcode (conn st) \<and>
     ample E T (k - length more_items) (mem st')"
proof (induction more_items arbitrary: st items k)
  case Nil
  then show ?case by (simp add: keeps_rest_refl)
next
  case (Cons it more_items)
  obtain v t n where it: "it = (v, t, n)" by (cases it)
  have v: "val_ok v t n" and rest: "list_all item_ok more_items" using Cons.prems(2) by (simp_all add: it item_ok_def)
  have u: "unat (24 :: c_uint) < 2 ^ 31" by simp
  from Cons.prems(4) have k: "0 < k" "1 + (k - 1) \<le> k" by simp_all
  obtain p m where a: "mem_alloc E (mem st) (out_mem_id (conn st)) 24 = Inr (p, m)" "p \<noteq> 0"
    using ample_alloc [OF Cons.prems(3,5) u k(1)] .
  have am: "ample E T (k - 1) m"
    using spends_alloc [OF a(1) Cons.prems(5) u] Cons.prems(3) k(2) by (rule spendsD)
  obtain st1 where st1: "scl_queue_value E st v t n = Inr st1" "queue E st1 (items @ [(v, t, n)])"
      "world st1 = world st" "keeps_rest E st st1" "out_packet_opcode (conn st1) = out_packet_opcode (conn st)" "mem st1 = m"
    by (rule queue_queue_value [OF Cons.prems(1) v a])
  have "out_mem_id (conn st1) \<in> T" using st1(4) Cons.prems(5) by (simp add: keeps_rest_def)
  have "length more_items \<le> k - 1" using Cons.prems(4) by simp
  from Cons.IH [OF st1(2) rest am [folded st1(6)] this \<open>out_mem_id (conn st1) \<in> T\<close>] obtain st' where
    "queue_values E st1 more_items = Inr st'" "queue E st' ((items @ [(v, t, n)]) @ more_items)" "world st' = world st1"
      "keeps_rest E st1 st'" "out_packet_opcode (conn st') = out_packet_opcode (conn st1)"
      "ample E T (k - 1 - length more_items) (mem st')" by auto
  with st1 it show ?case by (auto dest: keeps_rest_trans)
qed

context scl_stream
begin

lemma send_packet_wrote:
  assumes i: "idle E T st" and items: "list_all item_ok items" and am: "ample E T k (mem st)" "2 * length items \<le> k"
    and w: "ok (world st)" "16 + length (payload items) \<le> room (world st)"
  shows "\<exists>st'. send_packet E io opcode items st = Inr st' \<and>
    wrote (world st) (packet opcode (payload items)) (world st') \<and> idle E T st' \<and>
    ample E T (k - 2 * length items) (mem st') \<and> keeps_rest E st st'"
proof -
  let ?st = "upd_conn (out_packet_opcode_update (\<lambda>_. opcode)) st"
  have q: "queue E ?st []" and T: "out_mem_id (conn ?st) \<in> T" using i by (simp_all add: idle_def queue_opcode)
  have "ample E T k (mem ?st)" "length items \<le> k" using am by simp_all
  from queue_values_queue [OF q items this T] obtain st1 where
    st1: "queue_values E ?st items = Inr st1" "queue E st1 items" "world st1 = world st" "keeps_rest E ?st st1"
      "out_packet_opcode (conn st1) = opcode" "ample E T (k - length items) (mem st1)" by auto
  have "ok (world st1)" "16 + length (payload items) \<le> room (world st1)" using w st1(3) by simp_all
  from scl_write_out_packet [OF st1(2) this] obtain st' where
    st': "scl_write_out E io st1 = Inr st'" "wrote (world st) (packet opcode (payload items)) (world st')"
      "queue E st' []" "keeps_rest E st1 st'" "spends E T (length items) (mem st1) (mem st')"
    unfolding st1(3,5) by blast
  have "ample E T (k - 2 * length items) (mem st')"
    using st'(5) st1(6) by (rule spendsD) (use am(2) in simp)
  moreover have "keeps_rest E st st'"
    using keeps_rest_trans [OF st1(4) st'(4)] by (simp add: keeps_rest_def)
  moreover have "idle E T st'" using i st'(3) calculation(2) by (simp add: idle_def keeps_rest_def)
  ultimately show ?thesis using st1(1) st'(1,2) by (auto simp: send_packet_def)
qed

end

text \<open>Reading does not touch what is queued.\<close>

lemma queue_new_packet:
  assumes "queue E st items" and "new_packet E st st'" and "mem_ok E (mem st')"
    and "in_mem_id (conn st) \<noteq> out_mem_id (conn st)"
  shows "queue E st' items"
proof -
  have c: "(conn st')\<lparr>in_packet_opcode := 0, in_pdata := 0, in_pcursor := 0\<rparr> =
      (conn st)\<lparr>in_packet_opcode := 0, in_pdata := 0, in_pcursor := 0\<rparr>" and e: "eles st' = eles st"
    using assms(2) by (simp_all add: new_packet_def)
  from arg_cong [OF c, of out_ele_queue] arg_cong [OF c, of out_cur_ele] arg_cong [OF c, of out_mem_id]
    arg_cong [OF c, of out_packet_len]
  have f: "out_ele_queue (conn st') = out_ele_queue (conn st)" "out_cur_ele (conn st') = out_cur_ele (conn st)"
    "out_mem_id (conn st') = out_mem_id (conn st)" "out_packet_len (conn st') = out_packet_len (conn st)" by simp_all
  have "queue_at E st' as" if as: "queue_at E st as" for as
  proof -
    have "a \<noteq> 0 \<and> heap (mem st') a \<noteq> None \<and> mem_types E (mem st') a = Some (out_mem_id (conn st'))"
      if "a \<in> set (as @ [out_cur_ele (conn st)])" for a
    proof -
      from as that have a: "a \<noteq> 0" "heap (mem st) a \<noteq> None" "mem_types E (mem st) a = Some (out_mem_id (conn st))"
        by (auto simp: queue_at_def)
      have "heap (mem st') a = heap (mem st) a" using assms(2,4) a by (auto simp: new_packet_def)
      moreover have "mem_types E (mem st') a = mem_types E (mem st) a"
        using assms(2,4) a by (auto simp: new_packet_def split: if_splits)
      ultimately show ?thesis using a f by simp
    qed
    with as show ?thesis using assms(3) by (simp add: queue_at_def f e)
  qed
  then show ?thesis using assms(1) by (auto simp: queue_def f e)
qed

text \<open>What a received packet leaves of the connection.\<close>

definition same_conn :: "'w scl \<Rightarrow> 'w scl \<Rightarrow> bool" where
  "same_conn st st' \<longleftrightarrow> in_mem_id (conn st') = in_mem_id (conn st) \<and> out_mem_id (conn st') = out_mem_id (conn st) \<and>
     err_handler (conn st') = err_handler (conn st)"

lemma keeps_rest_same_conn: "keeps_rest E st st' \<Longrightarrow> same_conn st st'"
  by (simp add: keeps_rest_def same_conn_def)

lemma same_conn_trans: "same_conn st st' \<Longrightarrow> same_conn st' st'' \<Longrightarrow> same_conn st st''"
  by (simp add: same_conn_def)

context scl_stream
begin

lemma scl_read_packet_idle:
  assumes i: "idle E T st" and w: "ok (world st)" and inc: "incoming (world st) = packet opcode bs @ more_in"
    and len: "length bs < 2 ^ 31" and am: "ample E T k (mem st)" "3 \<le> k"
  shows "\<exists>st'. scl_read_packet E io st = Inr (int (length bs), st') \<and> reading E st' bs 0 \<and> idle E T st' \<and>
    in_packet_opcode (conn st') = opcode \<and> incoming (world st') = more_in \<and> sent (world st') = sent (world st) \<and>
    room (world st') = room (world st) \<and> ok (world st') \<and> ample E T (k - 3) (mem st') \<and> same_conn st st' \<and>
    hist (world st') = took (packet opcode bs) (hist (world st))"
proof -
  have m: "mem_ok E (mem st)" and id: "in_mem_id (conn st) \<noteq> 0" "in_mem_id (conn st) \<in> T"
    using i by (auto simp: idle_def queue_def queue_at_def)
  have "2 \<le> k" using am(2) by simp
  from ample_can_receive [OF m id(1) am(1) this id(2) len] have can: "can_receive E st (length bs)" .
  from scl_read_packet_payload [OF m id(1) w inc len can] obtain st' where
    st': "scl_read_packet E io st = Inr (int (length bs), st')" "reading E st' bs 0"
      "in_packet_opcode (conn st') = opcode" "incoming (world st') = more_in" "sent (world st') = sent (world st)"
      "room (world st') = room (world st)" "ok (world st')" "new_packet E st st'"
      "in_mem_id (conn st) \<in> T \<longrightarrow> spends E T 3 (mem st) (mem st')"
      "hist (world st') = took (packet opcode bs) (hist (world st))" by blast
  have "(conn st')\<lparr>in_packet_opcode := 0, in_pdata := 0, in_pcursor := 0\<rparr> =
      (conn st)\<lparr>in_packet_opcode := 0, in_pdata := 0, in_pcursor := 0\<rparr>" using st'(8) by (simp add: new_packet_def)
  from arg_cong [OF this, of in_mem_id] arg_cong [OF this, of out_mem_id] arg_cong [OF this, of err_handler]
  have same: "same_conn st st'" by (simp add: same_conn_def)
  have "queue E st' []"
  proof (rule queue_new_packet [OF _ st'(8)])
    show "queue E st []" "in_mem_id (conn st) \<noteq> out_mem_id (conn st)" using i by (simp_all add: idle_def)
    show "mem_ok E (mem st')" using st'(2) by (rule readingD)
  qed
  then have "idle E T st'" using i same by (simp add: idle_def same_conn_def)
  moreover have "ample E T (k - 3) (mem st')"
    using st'(9) [rule_format, OF id(2)] am(1) by (rule spendsD) (use am(2) in simp)
  ultimately show ?thesis using st' same by blast
qed

end

lemma scl_free_packet_mem_idle:
  assumes i: "idle E T st" and am: "ample E T k (mem st)" "1 \<le> k"
  shows "\<exists>m. scl_free_packet_mem E st = Inr (st\<lparr>mem := m\<rparr>) \<and> idle E T (st\<lparr>mem := m\<rparr>) \<and> ample E T (k - 1) m"
proof -
  have m: "mem_ok E (mem st)" and id: "in_mem_id (conn st) \<noteq> 0" and q: "queue E st []" and ne: "in_mem_id (conn st) \<noteq> out_mem_id (conn st)"
    using i by (auto simp: idle_def queue_def queue_at_def)
  from typed_mem.release_all_law [OF m id] obtain m' where
    m': "mem_free_all E (mem st) (in_mem_id (conn st)) = Inr m'" "mem_ok E m'"
      "mem_types E m' = (\<lambda>p. if mem_types E (mem st) p = Some (in_mem_id (conn st)) then None else mem_types E (mem st) p)"
      "\<And>q. mem_types E (mem st) q \<noteq> Some (in_mem_id (conn st)) \<Longrightarrow> heap m' q = heap (mem st) q" by auto
  have cell: "heap m' q = heap (mem st) q \<and> mem_types E m' q = mem_types E (mem st) q"
    if "mem_types E (mem st) q = Some (out_mem_id (conn st))" for q
    using that ne m'(4) [of q] fun_cong [OF m'(3), of q] by auto
  have "queue E (st\<lparr>mem := m'\<rparr>) []"
    using q m'(2) cell by (auto simp: queue_def queue_at_def)
  then have "idle E T (st\<lparr>mem := m'\<rparr>)" using i by (simp add: idle_def)
  moreover have "ample E T (k - 1) m'"
    using spends_free_all [OF m'(1) id] am(1) by (rule spendsD) (use am(2) in simp)
  ultimately show ?thesis using m'(1) by (auto simp: scl_free_packet_mem_def)
qed

section \<open>Values out of a packet\<close>

lemma scl_get_value_want: "type < scl_type_complex \<Longrightarrow> scl_get_value E st type want = scl_get_value E st type True"
proof -
  assume "type < scl_type_complex"
  then have "\<not> scl_type_complex \<le> type" by simp
  then show ?thesis by (simp only: scl_get_value_def simp_thms if_False)
qed

lemma get_int_reading:
  assumes r: "reading E st bs off" and d: "drop off bs = le4 n @ rest"
  shows "get_int E st = Inr (n, advance st 4)" and "reading E (advance st 4) bs (off + 4)"
proof -
  have e: "encode (Block (le4 n)) SCL_INT 1 = le4 n" by (simp add: encode_def scalars_def block_of_def)
  have "off + 4 \<le> length bs" using arg_cong [OF d, of length] by simp
  then show r': "reading E (advance st 4) bs (off + 4)" using reading_advance [OF r, of 4] by simp
  have "load_int (advance st 4) (cursor st) = Inr n"
    using load_at [OF r' \<open>off + 4 \<le> length bs\<close>] d readingD(2) [OF r] by (simp add: load_int_def)
  then show "get_int E st = Inr (n, advance st 4)"
    using get_scalar [of SCL_INT E st False] by (simp add: get_int_def scalars_def)
qed

lemma get_str_reading:
  assumes r: "reading E st bs off" and d: "drop off bs = enc_string p @ 0 # rest" and p: "string_ok p"
  shows "\<exists>q. get_str E st = Inr ((q, if text_of p = [] then None else Some (text_of p)),
      advance st (of_nat (length (enc_string p) + 1))) \<and>
    reading E (advance st (of_nat (length (enc_string p) + 1))) bs (off + (length (enc_string p) + 1))"
proof -
  define val where "val = (case p of None \<Rightarrow> Null | Some b \<Rightarrow> Block b)"
  have sp: "string_ptr val = p" by (simp add: val_def string_ptr_def split: option.splits)
  have e: "encode val SCL_STRING 1 = enc_string p @ [0]" by (simp add: encode_def scalars_def arrays_def sp)
  have v: "val_ok val SCL_STRING 1"
    using p by (simp add: val_ok_def scalars_def arrays_def val_def string_ok_def split: option.splits)
  have "drop off bs = encode val SCL_STRING 1 @ rest" using d by (simp add: e)
  from scl_get_value_received [OF r v _ this] obtain q cnt st' where
    g: "scl_get_value E st SCL_STRING True = Inr (q, cnt, st')" "received st' q cnt val SCL_STRING 1"
      "reading E st' bs (off + (length (enc_string p) + 1))" "st' = advance st (of_nat (length (enc_string p) + 1))"
    unfolding e by auto
  have "scl_get_value E st SCL_STRING False = Inr (q, cnt, st')"
    using g(1) scl_get_value_want [of SCL_STRING E st False] by (simp add: less_scl_type_def)
  moreover have "if text_of p = [] then q = 0 else load_str st' q = Inr (text_of p)"
    using g(2) by (simp add: received_def scalars_def arrays_def sp split: if_splits)
  moreover have "q \<noteq> 0" if "load_str st' q = Inr (text_of p)"
    using that by (auto simp: load_str_def in_packet_def)
  ultimately show ?thesis using g(3,4) by (auto simp: get_str_def split: if_splits)
qed

end
