(* ===== verification/Scl_Props.thy ===== *)
theory Scl_Props
  imports Scl_Reader_Props
begin

text \<open>
  The properties of the SCL packet layer over sockets: the queue, the packet on the wire, the way
  from one side to the other, and what happens at the edges.
\<close>

section \<open>Sample states\<close>

text \<open>A sender whose queue is one empty cell, at 32, and a receiver that has read nothing.\<close>

definition cell_mem_ctx :: mem_ctx where
  "cell_mem_ctx = push_entry sample_libc \<lparr>p_ptr = 32, ml_size = 24, ml_flags = 0, p_info = 16\<rparr>
     (typed_mem_ctx\<lparr>heap := [32 \<mapsto> replicate 24 0]\<rparr>)"

definition sample_conn :: suva_conn where
  "sample_conn = \<lparr>err_no = 0, err_text = 0, out_packet_len = 0, out_packet_opcode = SCL_FCALL,
     in_packet_opcode = 0, in_pdata = 0, in_pcursor = 0, err_handler = True, in_mem_id = 7, out_mem_id = 7,
     out_ele_queue = 32, out_cur_ele = 32\<rparr>"

definition sample_sender :: "sock scl" where
  "sample_sender = \<lparr>mem = cell_mem_ctx, eles = (\<lambda>_. zero_ele), cur_ele = 0,
     world = \<lparr>rd_calls = [], wr_calls = [Wr 7, Wr_Again 3, Wr 1000], wire = []\<rparr>, conn = sample_conn\<rparr>"

definition sample_receiver :: "byte list \<Rightarrow> sock scl" where
  "sample_receiver bs = \<lparr>mem = typed_mem_ctx, eles = (\<lambda>_. zero_ele), cur_ele = 0,
     world = \<lparr>rd_calls = [Rd bs], wr_calls = [], wire = []\<rparr>, conn = sample_conn\<rparr>"

lemma cell_mem_alloc: "mem_alloc sample_libc typed_mem_ctx 7 24 = Inr (32, cell_mem_ctx)"
  by (simp add: mem_alloc_def mem_find_type_def hash_type_eq typed_mem_ctx_def empty_mem_def
      mem_init_def sample_libc_def mem_fresh_def deref_info_def cell_mem_ctx_def)

lemma typed_mem_types: "mem_types sample_libc typed_mem_ctx = (\<lambda>_. None)"
  by (simp add: mem_types_def mem_abs_def lookup_def typed_mem_ctx_def empty_mem_def mem_init_def fun_eq_iff)

lemma typed_mem_heap: "heap typed_mem_ctx = (\<lambda>_. None)"
  by (simp add: typed_mem_ctx_def empty_mem_def mem_init_def)

lemmas typed_mem_ok = conjI [OF typed_mem_wf sample_libc_ok]

lemma cell_mem:
  "mem_wf sample_libc cell_mem_ctx" "mem_types sample_libc cell_mem_ctx = [32 \<mapsto> 7]"
  "heap cell_mem_ctx = [32 \<mapsto> replicate 24 0]"
  using typed_mem.alloc_law [OF typed_mem_ok, of 7 24] cell_mem_alloc
  by (auto simp: typed_mem_types typed_mem_heap)

lemma sample_sender_queue: "queue sample_libc sample_sender []"
  using cell_mem sample_libc_ok
  by (auto simp: queue_def queue_at_def sample_sender_def sample_conn_def payload_def zero_ele_def)

lemma sample_sender_prompt: "prompt (world sample_sender)" "room_left (world sample_sender) = 1007"
  by (simp_all add: sample_sender_def prompt_def room_left_def SCL_TIMEOUT_def)

lemma cell_mem_alloc_next: "\<exists>m. mem_alloc sample_libc cell_mem_ctx 7 24 = Inr (48, m)"
  by (simp add: mem_alloc_def mem_find_type_def hash_type_eq typed_mem_ctx_def empty_mem_def
      mem_init_def sample_libc_def mem_fresh_def deref_info_def cell_mem_ctx_def push_entry_def)

lemma typed_mem_alloc_any:
  "n < 2 ^ 31 \<Longrightarrow> \<exists>m. mem_alloc sample_libc typed_mem_ctx 7 (of_nat n) = Inr (32, m)"
  by (simp add: mem_alloc_def mem_find_type_def hash_type_eq typed_mem_ctx_def empty_mem_def
      mem_init_def sample_libc_def mem_fresh_def deref_info_def unat_of_nat)

section \<open>Sending\<close>

text \<open>C8: \<open>scl_queue_value\<close> refines the queue: it appends the value, raises the announced length by the
  exact number of bytes the value takes on the wire, sends nothing, and leaves the memory of other types
  and the reading side of the connection alone.\<close>

theorem scl_queue_value_appends:
  assumes "queue E st items" and "val_ok val type n"
    and "mem_alloc E (mem st) (out_mem_id (conn st)) 24 = Inr (p, m)" and "p \<noteq> 0"
  shows "\<exists>st'. scl_queue_value E st val type n = Inr st' \<and> queue E st' (items @ [(val, type, n)]) \<and>
    out_packet_len (conn st') = out_packet_len (conn st) + of_nat (length (encode val type n)) \<and>
    world st' = world st \<and> keeps_rest E st st' \<and> out_packet_opcode (conn st') = out_packet_opcode (conn st)"
proof -
  from assms obtain st' where st': "scl_queue_value E st val type n = Inr st'" "queue E st' (items @ [(val, type, n)])"
    "world st' = world st" "keeps_rest E st st'" "out_packet_opcode (conn st') = out_packet_opcode (conn st)"
    by (rule queue_queue_value)
  moreover have "payload (items @ [(val, type, n)]) = payload items @ encode val type n"
    by (simp add: payload_def enc_item_def)
  ultimately show ?thesis using assms(1) by (auto simp: queue_def)
qed

lemma scl_queue_value_appends_witness:
  "\<exists>st'. scl_queue_value sample_libc sample_sender (Block [104, 105, 0]) SCL_STRING 1 = Inr st' \<and>
     queue sample_libc st' [(Block [104, 105, 0], SCL_STRING, 1)] \<and> out_packet_len (conn st') = 7"
proof -
  obtain m where "mem_alloc sample_libc cell_mem_ctx 7 24 = Inr (48, m)" using cell_mem_alloc_next ..
  then have "mem_alloc sample_libc (mem sample_sender) (out_mem_id (conn sample_sender)) 24 = Inr (48, m)"
    by (simp add: sample_sender_def sample_conn_def)
  from scl_queue_value_appends [OF sample_sender_queue _ this, of "Block [104, 105, 0]" SCL_STRING 1] show ?thesis
    by (auto simp: val_ok_def scalars_def arrays_def sample_sender_def sample_conn_def encode_def
        enc_string_def string_ptr_def text_of_def)
qed

lemma sample_sent:
  fixes n :: c_int
  defines "items \<equiv> [(Block (le4 n), SCL_INT, 1)]"
  obtains st st' where "queue sample_libc st items" "prompt (world st)" "room_left (world st) = 1007" "wire (world st) = []"
    "out_packet_opcode (conn st) = SCL_FCALL" "scl_write_out sample_libc sock_io st = Inr st'"
    "wire (world st') = packet SCL_FCALL (le4 n)"
proof -
  obtain m where "mem_alloc sample_libc cell_mem_ctx 7 24 = Inr (48, m)" using cell_mem_alloc_next ..
  then have a: "mem_alloc sample_libc (mem sample_sender) (out_mem_id (conn sample_sender)) 24 = Inr (48, m)"
    by (simp add: sample_sender_def sample_conn_def)
  have v: "val_ok (Block (le4 n)) SCL_INT 1" by (simp add: val_ok_def scalars_def)
  obtain st where st: "queue sample_libc st items" "world st = world sample_sender"
      "out_packet_opcode (conn st) = SCL_FCALL"
    by (rule queue_queue_value [OF sample_sender_queue v a]) (auto simp: items_def sample_sender_def sample_conn_def)
  have pay: "payload items = le4 n" by (simp add: items_def payload_def enc_item_def encode_def scalars_def block_of_def)
  have p: "prompt (world st)" "room_left (world st) = 1007" "wire (world st) = []"
    using st(2) sample_sender_prompt by (simp_all add: sample_sender_def)
  then have "16 + length (payload items) \<le> room_left (world st)" by (simp add: pay)
  from sockets.scl_write_out_packet [OF st(1) p(1) this] obtain st' where
    "scl_write_out sample_libc sock_io st = Inr st'" "wire (world st') = packet SCL_FCALL (le4 n)"
    by (auto simp: sockets.wrote_def st(3) pay p(3))
  with st(1) p st(3) show thesis by (rule that)
qed

text \<open>C22: \<open>scl_write_out\<close> sends one packet, the header with the operation code and the length followed
  by the encodings of the queued values in order, and leaves an empty queue, as long as the peer takes the bytes. It frees
  exactly the cells of the values: the manager lists none of them any more, and the block of each that is the manager's own, one whose
  type has no handler, is given back; the empty last cell and all other memory stay.\<close>

theorem scl_write_out_sends:
  assumes "queue E st items" and "prompt (world st)" and "16 + length (payload items) \<le> room_left (world st)"
  shows "\<exists>st'. scl_write_out E sock_io st = Inr st' \<and>
    wire (world st') = wire (world st) @ packet (out_packet_opcode (conn st)) (payload items) \<and>
    to_read (world st') = to_read (world st) \<and> prompt (world st') \<and>
    queue E st' [] \<and> keeps_rest E st st' \<and>
    (\<exists>as. queue_at E st as \<and> items = map (\<lambda>a. item_of (eles st a)) as \<and>
      mem_types E (mem st') = (\<lambda>p. if p \<in> set as then None else mem_types E (mem st) p) \<and>
      heap (mem st') = (\<lambda>p. if p \<in> set as \<and> owned E (mem st) p then None else heap (mem st) p))"
proof -
  from sockets.scl_write_out_packet [OF assms] obtain st' as where
    "scl_write_out E sock_io st = Inr st'" "queue E st' []" "keeps_rest E st st'"
    "sockets.wrote (world st) (packet (out_packet_opcode (conn st)) (payload items)) (world st')"
    and as: "queue_at E st as" "items = map (\<lambda>a. item_of (eles st a)) as" "freed E (set as) (mem st) (mem st')"
    by blast
  moreover have "mem_types E (mem st') = (\<lambda>p. if p \<in> set as then None else mem_types E (mem st) p)"
    by (simp add: mem_types_def freed_mem_abs [OF as(3)] restrict_map_def fun_eq_iff)
  moreover have "heap (mem st') = (\<lambda>p. if p \<in> set as \<and> owned E (mem st) p then None else heap (mem st) p)"
    by (simp add: freed_heap [OF as(3)] fun_eq_iff)
  ultimately show ?thesis by (auto simp: sockets.wrote_def)
qed

lemma scl_write_out_sends_witness:
  "\<exists>st st' a. queue sample_libc st [(Block (le4 1234), SCL_INT, 1)] \<and> scl_write_out sample_libc sock_io st = Inr st' \<and>
     wire (world st') = packet SCL_FCALL (le4 1234) \<and> queue sample_libc st' [] \<and>
     mem_types sample_libc (mem st) a = Some (out_mem_id (conn st)) \<and> mem_types sample_libc (mem st') a = None"
proof -
  obtain st where st: "queue sample_libc st [(Block (le4 1234), SCL_INT, 1)]" "prompt (world st)" "room_left (world st) = 1007"
    "wire (world st) = []" "out_packet_opcode (conn st) = SCL_FCALL" by (rule sample_sent [of 1234])
  have pay: "payload [(Block (le4 1234), SCL_INT, 1 :: c_int)] = le4 1234"
    by (simp add: payload_def enc_item_def encode_def scalars_def block_of_def)
  from scl_write_out_sends [OF st(1,2)] obtain st' as where
    st': "scl_write_out sample_libc sock_io st = Inr st'" "wire (world st') = packet SCL_FCALL (le4 1234)" "queue sample_libc st' []"
      "queue_at sample_libc st as" "length as = 1"
      "mem_types sample_libc (mem st') = (\<lambda>p. if p \<in> set as then None else mem_types sample_libc (mem st) p)"
    by (auto simp: st(3-5) pay)
  from st'(5) obtain a where "as = [a]" by (auto simp: length_Suc_conv)
  with st' have "mem_types sample_libc (mem st) a = Some (out_mem_id (conn st))" "mem_types sample_libc (mem st') a = None"
    by (simp_all add: queue_at_def)
  with st(1) st'(1-3) show ?thesis by blast
qed

text \<open>C4: Round trip. What one side queues and writes out, the other side reads back, whatever pieces
  the sockets cut it into: the same operation code and value after value the same contents. Arrays
  of strings, which the reader rewrites in place, are the next property.\<close>

theorem scl_packet_round_trip:
  assumes "queue E st items" and "prompt (world st)" and "16 + length (payload items) \<le> room_left (world st)"
    and "scl_write_out E sock_io st = Inr st'" and "wire (world st') = wire (world st) @ msg"
    and "mem_ok F (mem rst)" and "in_mem_id (conn rst) \<noteq> 0" and "prompt (world rst)"
    and "to_read (world rst) = msg @ more_in" and "can_receive F rst (length (payload items))"
    and "length (payload items) < 2 ^ 31" and "\<forall>(v, t, n) \<in> set items. t \<noteq> SCL_STRING_A"
  shows "\<exists>r1 rs r2. scl_read_packet F sock_io rst = Inr (int (length (payload items)), r1) \<and>
    in_packet_opcode (conn r1) = out_packet_opcode (conn st) \<and>
    get_values F r1 (map (\<lambda>(v, t, n). t) items) = Inr (rs, r2) \<and> list_all2 (item_received r2) rs items \<and>
    to_read (world r2) = more_in"
proof -
  from sockets.scl_write_out_packet [OF assms(1-3)] assms(4,5)
  have msg: "msg = packet (out_packet_opcode (conn st)) (payload items)" by (auto simp: sockets.wrote_def)
  from sockets.scl_read_packet_payload [OF assms(6-8) assms(9) [unfolded msg] assms(11,10)] obtain r1 where
    r1: "scl_read_packet F sock_io rst = Inr (int (length (payload items)), r1)"
      "reading F r1 (payload items) 0" "in_packet_opcode (conn r1) = out_packet_opcode (conn st)"
      "to_read (world r1) = more_in" by blast
  from assms(1) have "list_all item_ok items" by (simp add: queue_def)
  from get_values_received [OF r1(2) this assms(12), of "[]"] obtain rs r2 where
    "get_values F r1 (map (\<lambda>(v, t, n). t) items) = Inr (rs, r2)" "list_all2 (item_received r2) rs items"
    "world r2 = world r1" by auto
  with r1 show ?thesis by auto
qed

lemma free_buckets_empty: "pMemList c = (\<lambda>_. []) \<Longrightarrow> free_buckets E c t bs = Inr c"
  by (induction bs) simp_all

lemma typed_mem_free_all: "mem_free_all sample_libc typed_mem_ctx 7 = Inr typed_mem_ctx"
proof -
  have "pMemList typed_mem_ctx = (\<lambda>_. [])" by (simp add: typed_mem_ctx_def empty_mem_def mem_init_def)
  then show ?thesis by (simp add: mem_free_all_def free_buckets_empty)
qed

lemma sample_receiver_ready:
  assumes "bs \<noteq> []"
  shows "mem_ok sample_libc (mem (sample_receiver bs))" "in_mem_id (conn (sample_receiver bs)) \<noteq> 0"
    "prompt (world (sample_receiver bs))" "to_read (world (sample_receiver bs)) = bs"
    "n < 2 ^ 31 \<Longrightarrow> can_receive sample_libc (sample_receiver bs) n"
proof -
  show "mem_ok sample_libc (mem (sample_receiver bs))" "in_mem_id (conn (sample_receiver bs)) \<noteq> 0"
    "prompt (world (sample_receiver bs))" "to_read (world (sample_receiver bs)) = bs"
    using assms typed_mem_ok by (simp_all add: sample_receiver_def sample_conn_def prompt_def to_read_def)
  show "can_receive sample_libc (sample_receiver bs) n" if n: "n < 2 ^ 31"
    using typed_mem_alloc_any [OF n] typed_mem_free_all
    by (auto simp: can_receive_def sample_receiver_def sample_conn_def)
qed

lemma scl_packet_round_trip_witness:
  "\<exists>r1 p r2. scl_read_packet sample_libc sock_io (sample_receiver (packet SCL_FCALL (le4 1234))) = Inr (4, r1) \<and>
     scl_get_value sample_libc r1 SCL_INT True = Inr (p, None, r2) \<and> load_int r2 p = Inr 1234"
proof -
  let ?items = "[(Block (le4 1234), SCL_INT, 1 :: c_int)]"
  have pay: "payload ?items = le4 1234" by (simp add: payload_def enc_item_def encode_def scalars_def block_of_def)
  obtain st st' where st: "queue sample_libc st ?items" "prompt (world st)" "room_left (world st) = 1007"
      "wire (world st) = []" "out_packet_opcode (conn st) = SCL_FCALL"
      "scl_write_out sample_libc sock_io st = Inr st'" "wire (world st') = packet SCL_FCALL (le4 1234)"
    by (rule sample_sent)
  let ?r = "sample_receiver (packet SCL_FCALL (le4 1234))"
  have "packet SCL_FCALL (le4 1234) \<noteq> []" by (simp add: packet_def le4_def)
  note r = sample_receiver_ready [OF this]
  have "\<exists>r1 rs r2. scl_read_packet sample_libc sock_io ?r = Inr (int (length (payload ?items)), r1) \<and>
    in_packet_opcode (conn r1) = out_packet_opcode (conn st) \<and>
    get_values sample_libc r1 (map (\<lambda>(v, t, n). t) ?items) = Inr (rs, r2) \<and> list_all2 (item_received r2) rs ?items \<and>
    to_read (world r2) = []"
    using st r by (intro scl_packet_round_trip [where E = sample_libc and st' = st']) (simp_all add: pay)
  then obtain r1 rs r2 where
    *: "scl_read_packet sample_libc sock_io ?r = Inr (4, r1)" "get_values sample_libc r1 [SCL_INT] = Inr (rs, r2)"
      "list_all2 (item_received r2) rs ?items" by (auto simp: pay)
  have "scl_get_value sample_libc r1 SCL_INT True = Inr (cursor r1, None, advance r1 (of_nat (unit_len SCL_INT)))"
    by (rule get_scalar) (simp add: scalars_def)
  with * show ?thesis
    by (auto simp: item_received_def received_def scalars_def load_int_def block_of_def)
qed

section \<open>String arrays, trusted lengths and the edges\<close>

lemma unat_add_of_nat:
  fixes p :: addr
  assumes "unat p + n < 2 ^ 64"
  shows "unat (p + of_nat n) = unat p + n"
proof -
  have "unat (of_nat n :: addr) = n" using assms by (simp add: unat_of_nat)
  with assms show ?thesis by (subst unat_plus_simple [THEN iffD1]) (simp_all add: no_olen_add_nat)
qed

text \<open>C25: An array of strings is received in place: \<open>scl_get_value\<close> returns an array of pointers into the
  packet, one for each string and NULL for an empty one; each is terminated although the strings
  are not on the wire, because the length of the next string is cleared.\<close>

theorem scl_string_array_round_trip:
  assumes "reading E st bs off" and "unat n = length ps"
    and "drop off bs = encode (Strings ps) SCL_STRING_A n @ rest"
    and "mem_alloc E (mem st) (in_mem_id (conn st)) (8 * n) = Inr (ptrs, m)" and "ptrs \<noteq> 0"
  shows "\<exists>st' bs'. scl_get_value E st SCL_STRING_A True = Inr (ptrs, Some n, st') \<and> strings_received st' ptrs ps \<and>
    reading E st' bs' (off + length (encode (Strings ps) SCL_STRING_A n)) \<and>
    drop (off + length (encode (Strings ps) SCL_STRING_A n)) bs' = rest"
  using scl_get_value_strings [OF assms] by blast

text \<open>A connection that has read the packet \<open>bs\<close> into the block at 32.\<close>

definition packet_mem :: "byte list \<Rightarrow> mem_ctx" where
  "packet_mem bs = push_entry sample_libc \<lparr>p_ptr = 32, ml_size = of_nat (length bs), ml_flags = 0, p_info = 16\<rparr>
     (typed_mem_ctx\<lparr>heap := [32 \<mapsto> bs]\<rparr>)"

definition packet_state :: "byte list \<Rightarrow> sock scl" where
  "packet_state bs = (sample_receiver [])\<lparr>mem := packet_mem bs, conn := sample_conn\<lparr>in_pdata := 32, in_pcursor := 32\<rparr>\<rparr>"

lemma sample_reading:
  assumes "length bs < 2 ^ 31"
  shows "reading sample_libc (packet_state bs) bs 0"
proof -
  let ?n = "of_nat (length bs) :: c_uint"
  have u: "unat ?n = length bs" using assms by (simp add: unat_of_nat)
  obtain c where c: "mem_alloc sample_libc typed_mem_ctx 7 ?n = Inr (32, c)" using typed_mem_alloc_any [OF assms] ..
  have "c = push_entry sample_libc \<lparr>p_ptr = 32, ml_size = ?n, ml_flags = 0, p_info = 16\<rparr>
     (typed_mem_ctx\<lparr>heap := [32 \<mapsto> replicate (length bs) 0]\<rparr>)"
    using c assms by (simp add: mem_alloc_def mem_find_type_def hash_type_eq typed_mem_ctx_def empty_mem_def
      mem_init_def sample_libc_def mem_fresh_def deref_info_def unat_of_nat)
  then have p: "packet_mem bs = c\<lparr>heap := (heap c)(32 \<mapsto> bs)\<rparr>"
    by (simp add: packet_mem_def push_entry_def typed_mem_heap Let_def)
  note m = mem_alloc_abs [OF typed_mem_ok c]
  have abs: "mem_abs sample_libc (packet_mem bs) = mem_abs sample_libc c" by (simp add: p mem_abs_heap)
  have "mem_wf sample_libc (packet_mem bs)"
    unfolding p using m by (intro mem_wf_write [where t = 7 and sz = ?n and st = False]) (simp_all add: u)
  with m abs assms show ?thesis
    by (simp add: reading_def packet_state_def sample_conn_def sample_receiver_def p sample_libc_ok)
qed

lemma packet_state_alloc: "\<exists>m. mem_alloc sample_libc (packet_mem bs) 7 16 = Inr (48, m)"
  by (simp add: mem_alloc_def mem_find_type_def hash_type_eq typed_mem_ctx_def empty_mem_def
      mem_init_def sample_libc_def mem_fresh_def deref_info_def packet_mem_def push_entry_def)

lemma scl_string_array_round_trip_witness:
  "\<exists>st' q. scl_get_value sample_libc (packet_state (encode (Strings [None, Some [104, 105, 0]]) SCL_STRING_A 2)) SCL_STRING_A True
       = Inr (48, Some 2, st') \<and> heap (mem st') 48 = Some (le8 0 @ le8 q) \<and> load_str st' q = Inr [104, 105]"
proof -
  let ?bs = "encode (Strings [None, Some [104, 105, 0]]) SCL_STRING_A 2"
  have len: "length ?bs < 2 ^ 31"
    by (simp add: encode_def scalars_def arrays_def strings_of_def enc_string_def text_of_def)
  obtain m where "mem_alloc sample_libc (packet_mem ?bs) 7 16 = Inr (48, m)" using packet_state_alloc ..
  then have m: "mem_alloc sample_libc (mem (packet_state ?bs)) (in_mem_id (conn (packet_state ?bs))) (8 * 2) = Inr (48, m)"
    by (simp add: packet_state_def sample_receiver_def sample_conn_def)
  from scl_string_array_round_trip [OF sample_reading [OF len], of 2 "[None, Some [104, 105, 0]]" "[]", OF _ _ m]
  obtain st' where "scl_get_value sample_libc (packet_state ?bs) SCL_STRING_A True = Inr (48, Some 2, st')"
      "strings_received st' 48 [None, Some [104, 105, 0]]" by auto
  then show ?thesis
    by (auto simp: strings_received_def list_all2_Cons2 text_of_def intro!: exI [of _ st'])
qed

text \<open>C33: \<open>scl_get_value\<close> believes the length of a string: one that is announced to reach past the end of the
  packet makes it write its terminator outside the block.\<close>

theorem scl_get_value_overrun:
  assumes "reading E st bs off" and "drop off bs = le4 k @ rest"
    and "0 < unat k" and "unat k < 2 ^ 31" and "length rest \<le> unat k"
    and "in_pdata (conn st) < 2 ^ 63"
  shows "scl_get_value E st SCL_STRING want = Inl Out_Of_Bounds"
proof -
  have len: "length bs = off + 4 + length rest"
    using arg_cong [OF assms(2), of length] readingD(3) [OF assms(1)] by simp
  have l: "load_int st (cursor st) = Inr k" using load_int_cursor [OF assms(1,2)] .
  have pk: "ptr_int k = of_nat (unat k)" using ptr_int_of_nat [OF assms(4)] by simp
  let ?st = "advance st 4"
  have c': "cursor ?st + ptr_int k = in_pdata (conn st) + of_nat (off + 4 + unat k)"
    using readingD(2) [OF assms(1)] by (simp add: pk)
  have c: "cursor ?st + ptr_int k - in_pdata (conn ?st) = of_nat (off + 4 + unat k)"
    using readingD(2) [OF assms(1)] by (simp add: pk)
  have "off + 4 + unat k < 2 ^ 64" using readingD(3,4) [OF assms(1)] assms(4) by simp
  then have u: "unat (cursor ?st + ptr_int k - in_pdata (conn ?st)) = off + 4 + unat k"
    unfolding c by (simp only: unat_of_nat) simp
  have h: "heap (mem ?st) (in_pdata (conn ?st)) = Some bs" using assms(1) by (simp add: reading_def)
  have "unat (in_pdata (conn st)) < 2 ^ 63" using assms(6) by (simp add: word_less_nat_alt)
  then have "unat (cursor ?st + ptr_int k) = unat (in_pdata (conn st)) + (off + 4 + unat k)"
    using c \<open>off + 4 + unat k < 2 ^ 64\<close> readingD(3,4) [OF assms(1)] assms(4)
    by (subst c' , intro unat_add_of_nat) simp
  then have nz: "cursor ?st + ptr_int k \<noteq> 0" by (metis add_is_0 unat_0 zero_neq_numeral)
  have "store ?st (cursor ?st + ptr_int k) [0] = Inl Out_Of_Bounds"
    using nz u len assms(5) h by (simp add: store_def in_packet_def Let_def)
  moreover have "k \<noteq> 0" using assms(3) by auto
  ultimately show ?thesis by (simp add: get_string [OF l] Let_def)
qed

lemma scl_get_value_overrun_witness:
  "scl_get_value sample_libc (packet_state (le4 100 @ [104, 105, 0])) SCL_STRING False = Inl Out_Of_Bounds"
  by (rule scl_get_value_overrun [OF sample_reading, where k = 100 and rest = "[104, 105, 0]"]) (simp_all add: packet_state_def sample_conn_def)

text \<open>The result 0 of \<open>scl_read_packet\<close> has two meanings: a packet without payload, which is complete and
  whose operation code is set, and a peer that has hung up, where nothing is set.\<close>

theorem scl_read_packet_zero:
  assumes "mem_ok E (mem st)" and "in_mem_id (conn st) \<noteq> 0" and "prompt (world st)"
    and "to_read (world st) = packet opcode [] @ more_in"
  shows "(\<exists>st'. scl_read_packet E sock_io st = Inr (0, st') \<and> in_packet_opcode (conn st') = opcode \<and>
      to_read (world st') = more_in) \<and>
    scl_read_packet E sock_io (st\<lparr>world := (world st)\<lparr>rd_calls := []\<rparr>\<rparr>) = Inr (0, st\<lparr>world := (world st)\<lparr>rd_calls := []\<rparr>\<rparr>)"
proof
  let ?id = "in_mem_id (conn st)"
  have u16: "unat (16 :: c_uint) = 16" "sint (16 :: c_uint) = 16" by simp_all
  have "unat (16 :: c_uint) \<le> length (to_read (world st))" unfolding assms(4) u16 by (simp add: length_packet)
  then obtain s' where s': "scl_read True (world st) 16 = (16, take 16 (packet opcode [] @ more_in), s')" "to_read s' = more_in"
  proof (rule scl_read_prompt [OF assms(3)])
    fix s' assume "scl_read True (world st) 16 = (sint (16 :: c_uint), take (unat (16 :: c_uint)) (to_read (world st)), s')"
      "to_read s' = drop (unat (16 :: c_uint)) (to_read (world st))"
    then show thesis using that [of s'] unfolding assms(4) u16 take_packet(2) by simp
  qed
  have hdr: "un_le4 (take 16 (packet opcode [] @ more_in)) = opcode" "un_le4 (drop 12 (take 16 (packet opcode [] @ more_in))) = 0"
    unfolding take_packet by simp_all
  from typed_mem.release_all_law [OF assms(1,2)] obtain m where
    m: "mem_free_all E (mem st) ?id = Inr m" "mem_ok E m" by blast
  from typed_mem.alloc_law [OF m(2), of ?id 0] obtain p m' where a: "mem_alloc E m ?id 0 = Inr (p, m')" by blast
  have r0: "scl_read b s 0 = (0, [], s)" for b s
    by (cases "rd_calls s"; cases "hd (rd_calls s)") (auto simp: scl_read_def)
  show "\<exists>st'. scl_read_packet E sock_io st = Inr (0, st') \<and> in_packet_opcode (conn st') = opcode \<and>
      to_read (world st') = more_in"
    unfolding scl_read_packet_def scl_free_packet_mem_def Let_def sock_io_def scl_io.simps s'(1) prod.case hdr
    using m a s'(2) by (simp add: r0)
  show "scl_read_packet E sock_io (st\<lparr>world := (world st)\<lparr>rd_calls := []\<rparr>\<rparr>) = Inr (0, st\<lparr>world := (world st)\<lparr>rd_calls := []\<rparr>\<rparr>)"
    by (simp add: scl_read_packet_def sock_io_def scl_read_def Let_def)
qed

lemma scl_read_packet_zero_witness:
  "\<exists>st'. scl_read_packet sample_libc sock_io (sample_receiver (packet SCL_FRETURN [])) = Inr (0, st') \<and>
     in_packet_opcode (conn st') = 6"
proof -
  have "packet SCL_FRETURN [] \<noteq> []" by (simp add: packet_def le4_def)
  note r = sample_receiver_ready [OF this]
  have "to_read (world (sample_receiver (packet SCL_FRETURN []))) = packet SCL_FRETURN [] @ []" using r by simp
  from scl_read_packet_zero [OF r(1-3) this] show ?thesis by auto
qed

text \<open>Without memory for the next cell \<open>scl_queue_value\<close> still returns, but the connection is lost:
  the next value queued is stored through a null pointer.\<close>

theorem scl_queue_value_no_memory:
  assumes "queue E st items" and "val_ok val type n"
    and "mem_alloc E (mem st) (out_mem_id (conn st)) 24 = Inr (0, m)"
  shows "\<exists>st'. scl_queue_value E st val type n = Inr st' \<and> out_cur_ele (conn st') = 0 \<and>
    (\<forall>v t k. scl_queue_value E st' v t k = Inl Null_Deref)"
proof -
  let ?q = "out_cur_ele (conn st)"
  from assms(1) have mok: "mem_ok E (mem st)" and q: "?q \<noteq> 0" "heap (mem st) ?q \<noteq> None"
    by (auto simp: queue_def queue_at_def)
  from typed_mem.alloc_law [OF mok, of "out_mem_id (conn st)" 24] assms(3) have "m = mem st" by simp
  with q assms(3) queue_len_encode [OF assms(2)] show ?thesis
    by (auto simp: scl_queue_value_def scl_alloc_ele_def deref_ele_def Let_def)
qed

lemma scl_queue_value_no_memory_witness:
  "\<exists>st'. scl_queue_value (sample_libc\<lparr>malloc := (\<lambda>_ _. None)\<rparr>) sample_sender Null SCL_STRING 1 = Inr st' \<and>
     out_cur_ele (conn st') = 0"
proof -
  let ?E = "sample_libc\<lparr>malloc := (\<lambda>_ _. None)\<rparr>"
  have h: "mem_hash ?E = mem_hash sample_libc" by (simp add: mem_hash_def fun_eq_iff cong: if_cong)
  have "mem_wf ?E c = mem_wf sample_libc c" "mem_types ?E c = mem_types sample_libc c" for c
    by (simp_all add: mem_wf_def info_wf_def table_wf_def entry_wf_def lookup_def mem_types_def mem_abs_def fun_eq_iff h)
  then have "queue ?E sample_sender [] = (queue sample_libc sample_sender [] \<and> libc_ok ?E)"
    using sample_libc_ok by (auto simp: queue_def queue_at_def)
  then have "queue ?E sample_sender []" using sample_sender_queue by (simp add: libc_ok_def sample_libc_def)
  moreover have "mem_alloc ?E (mem sample_sender) (out_mem_id (conn sample_sender)) 24 = Inr (0, mem sample_sender)"
    by (simp add: mem_alloc_def mem_find_type_def hash_type_eq typed_mem_ctx_def empty_mem_def sample_sender_def
      mem_init_def sample_libc_def mem_fresh_def deref_info_def cell_mem_ctx_def push_entry_def sample_conn_def Let_def)
  ultimately show ?thesis
    using scl_queue_value_no_memory [of ?E sample_sender "[]" Null SCL_STRING 1]
    by (auto simp: val_ok_def scalars_def arrays_def)
qed

end
