(* ===== verification/Suva_Conn_Props.thy ===== *)
theory Suva_Conn_Props
  imports Scl_Session Scl_Props
begin

text \<open>
  Connections: the memory types they take, the conversation that opens them, and what happens when
  they are closed or the peer is gone.
\<close>

section \<open>Memory types\<close>

definition taken :: "libc \<Rightarrow> mem_ctx \<Rightarrow> c_uint \<Rightarrow> bool" where
  "taken E c t \<longleftrightarrow> t = 0 \<or> type_exists E c t"

lemma add_type_taken:
  assumes "mem_ok E c" and "taken E c t \<or> malloc E c 56 = None"
  shows "\<exists>r < 0. mem_add_type E c t name = Inr (r, c)"
proof -
  from assms(1) have "mem_wf E c" "libc_ok E" by simp_all
  then show ?thesis
  proof (cases rule: mem_add_type_cases [where t = t and name = name])
    case (ok c')
    have "malloc E c 56 \<noteq> None"
    proof
      assume "malloc E c 56 = None"
      with ok(1,3) show False
        by (cases "mem_find_type E c t") (auto simp: mem_add_type_def Let_def split: if_splits)
    qed
    with ok assms(2) show ?thesis by (simp add: taken_def)
  qed auto
qed

lemma find_type_loops:
  "mem_ok E c \<Longrightarrow> malloc E c 56 = None \<Longrightarrow> find_type E name k c ident counter = Inl No_Return"
proof (induction k arbitrary: ident counter)
  case (Suc k)
  from add_type_taken [of E c ident name] Suc.prems obtain r where "r < 0" "mem_add_type E c ident name = Inr (r, c)" by auto
  with Suc show ?case by simp
qed simp

lemma add_type_free:
  assumes "mem_ok E c" and "\<not> taken E c t" and "malloc E c 56 \<noteq> None"
  obtains c' where "mem_add_type E c t name = Inr (0, c')" "mem_ok E c'" "type_exists E c' = (type_exists E c)(t := True)"
    "mem_abs E c' = mem_abs E c" "heap c' = heap c"
proof -
  from assms(1) have "mem_wf E c" "libc_ok E" by simp_all
  then show thesis
    by (cases rule: mem_add_type_cases [where t = t and name = name]) (use assms that in \<open>auto simp: taken_def\<close>)
qed

text \<open>The loop takes the first identifier after the counter that is not taken.\<close>

lemma find_type_first:
  assumes m: "mem_ok E c" and free: "\<not> taken E c (counter + of_nat j)" "malloc E c 56 \<noteq> None"
  obtains c' where "mem_ok E c'" "type_exists E c' = (type_exists E c)(counter + of_nat j := True)"
    "mem_abs E c' = mem_abs E c" "heap c' = heap c"
    "\<And>k ident. taken E c ident \<Longrightarrow> 0 < j \<Longrightarrow> j < k \<Longrightarrow> \<forall>i \<in> {0<..<j}. taken E c (counter + of_nat i) \<Longrightarrow>
       find_type E name k c ident counter = Inr (counter + of_nat j, counter + of_nat j, c')"
    "mem_add_type E c (counter + of_nat j) name = Inr (0, c')"
proof -
  obtain c' where c': "mem_add_type E c (counter + of_nat j) name = Inr (0, c')" "mem_ok E c'"
      "type_exists E c' = (type_exists E c)(counter + of_nat j := True)" "mem_abs E c' = mem_abs E c" "heap c' = heap c"
    using add_type_free [OF m free] .
  have run: "taken E c ident \<Longrightarrow> cnt + of_nat i = counter + of_nat j \<Longrightarrow> 0 < i \<Longrightarrow> i < k \<Longrightarrow>
      \<forall>l \<in> {0<..<i}. taken E c (cnt + of_nat l) \<Longrightarrow>
      find_type E name k c ident cnt = Inr (counter + of_nat j, counter + of_nat j, c')" for i k ident cnt
  proof (induction i arbitrary: k ident cnt)
    case (Suc i)
    obtain k' where k: "k = Suc k'" using Suc.prems(4) by (cases k) auto
    from add_type_taken [OF m, of ident name] Suc.prems(1) obtain r where
      r: "r < 0" "mem_add_type E c ident name = Inr (r, c)" by auto
    have step: "find_type E name k c ident cnt = find_type E name k' c (cnt + 1) (cnt + 1)" using r by (simp add: k)
    show ?case
    proof (cases "i = 0")
      case True
      with Suc.prems(2,4) k c'(1) show ?thesis unfolding step by (cases k') simp_all
    next
      case False
      have "taken E c (cnt + of_nat 1)" using Suc.prems(5) False by (intro bspec [OF Suc.prems(5)]) simp
      moreover have "\<forall>l \<in> {0<..<i}. taken E c (cnt + 1 + of_nat l)"
      proof
        fix l assume "l \<in> {0<..<i}"
        then have "taken E c (cnt + of_nat (Suc l))" by (intro bspec [OF Suc.prems(5)]) simp
        then show "taken E c (cnt + 1 + of_nat l)" by (simp add: algebra_simps)
      qed
      ultimately show ?thesis
        unfolding step using Suc.prems(2,4) False k by (intro Suc.IH) (simp_all add: algebra_simps)
    qed
  qed simp
  show thesis by (rule that [OF c'(2-5) _ c'(1)]) (auto intro: run)
qed

text \<open>C28: The search for a memory type ends exactly when it can: without memory for the entry it never
  returns, whatever the number of rounds; with it, it takes the first identifier after the counter
  that is neither 0 nor in use, and marks it as used.\<close>

theorem find_type_outcome:
  assumes "mem_ok E c"
  shows "(malloc E c 56 = None \<longrightarrow> (\<forall>k. find_type E name k c 0 counter = Inl No_Return)) \<and>
    (malloc E c 56 \<noteq> None \<and> 0 < j \<and> j \<le> 2 ^ 32 \<and> \<not> taken E c (counter + of_nat j) \<and>
      (\<forall>i \<in> {0<..<j}. taken E c (counter + of_nat i)) \<longrightarrow>
      (\<exists>c'. find_type E name ID_ROUNDS c 0 counter = Inr (counter + of_nat j, counter + of_nat j, c') \<and>
        mem_ok E c' \<and> type_exists E c' = (type_exists E c)(counter + of_nat j := True)))"
proof (intro conjI impI allI)
  show "find_type E name k c 0 counter = Inl No_Return" if "malloc E c 56 = None" for k
    using assms that by (rule find_type_loops)
  assume *: "malloc E c 56 \<noteq> None \<and> 0 < j \<and> j \<le> 2 ^ 32 \<and> \<not> taken E c (counter + of_nat j) \<and>
      (\<forall>i \<in> {0<..<j}. taken E c (counter + of_nat i))"
  then have "\<not> taken E c (counter + of_nat j)" "malloc E c 56 \<noteq> None" by simp_all
  from find_type_first [OF assms this] obtain c' where c': "mem_ok E c'"
     "type_exists E c' = (type_exists E c)(counter + of_nat j := True)"
     "\<And>k ident. taken E c ident \<Longrightarrow> 0 < j \<Longrightarrow> j < k \<Longrightarrow> \<forall>i \<in> {0<..<j}. taken E c (counter + of_nat i) \<Longrightarrow>
       find_type E name k c ident counter = Inr (counter + of_nat j, counter + of_nat j, c')" by metis
  then show "\<exists>c'. find_type E name ID_ROUNDS c 0 counter = Inr (counter + of_nat j, counter + of_nat j, c') \<and>
        mem_ok E c' \<and> type_exists E c' = (type_exists E c)(counter + of_nat j := True)"
    using c'(3) [of 0 ID_ROUNDS] * by (intro exI [of _ c']) (simp add: taken_def ID_ROUNDS_def)
qed

lemma find_type_result:
  "find_type E name k c ident counter = Inr (i, counter', c') \<Longrightarrow> mem_ok E c \<Longrightarrow>
   mem_ok E c' \<and> \<not> taken E c i \<and> type_exists E c' = (type_exists E c)(i := True) \<and> mem_abs E c' = mem_abs E c \<and> heap c' = heap c"
proof (induction k arbitrary: ident counter)
  case (Suc k)
  show ?case
  proof (cases "taken E c ident \<or> malloc E c 56 = None")
    case True
    from add_type_taken [OF Suc.prems(2) this, of name] Suc show ?thesis by auto
  next
    case False
    then have "\<not> taken E c ident" "malloc E c 56 \<noteq> None" by simp_all
    from add_type_free [OF Suc.prems(2) this, of name] obtain d where
      "mem_add_type E c ident name = Inr (0, d)" "mem_ok E d" "type_exists E d = (type_exists E c)(ident := True)"
      "mem_abs E d = mem_abs E c" "heap d = heap c" by metis
    with Suc.prems \<open>\<not> taken E c ident\<close> show ?thesis by auto
  qed
qed simp

lemma setup_memory_cases:
  assumes m: "mem_ok E (pmem pr)" and run: "setup_memory E pr c0 = Inr (c, pr')"
  obtains m2 p m3 i ou where "c = c0\<lparr>in_mem_id := i, out_mem_id := ou, out_cur_ele := p, out_ele_queue := p\<rparr>"
    "mem_ok E m2" "\<not> taken E (pmem pr) i" "\<not> taken E (pmem pr) ou" "i \<noteq> ou"
    "type_exists E m2 = (type_exists E (pmem pr))(i := True, ou := True)"
    "mem_abs E m2 = mem_abs E (pmem pr)" "heap m2 = heap (pmem pr)" "mem_alloc E m2 ou 24 = Inr (p, m3)" "pmem pr' = m3"
    "pcells pr' = (if p = 0 then pcells pr else (pcells pr)(p := zero_ele))"
proof -
  from run obtain i ic m1 where
    1: "find_type E (str ''SCL Inbound Packet Memory'') ID_ROUNDS (pmem pr) (in_mem_id c0) (last_in_id pr) = Inr (i, ic, m1)"
    unfolding setup_memory_def
    by (cases "find_type E (str ''SCL Inbound Packet Memory'') ID_ROUNDS (pmem pr) (in_mem_id c0) (last_in_id pr)") auto
  from run obtain ou oc m2 where
    2: "find_type E (str ''SCL Outbound Packet Memory'') ID_ROUNDS m1 (out_mem_id c0) ic = Inr (ou, oc, m2)"
    unfolding setup_memory_def 1
    by (cases "find_type E (str ''SCL Outbound Packet Memory'') ID_ROUNDS m1 (out_mem_id c0) ic") auto
  from run obtain p m3 where 3: "mem_alloc E m2 ou 24 = Inr (p, m3)"
    unfolding setup_memory_def 1 2 by (cases "mem_alloc E m2 ou 24") (auto simp: 2)
  note r1 = find_type_result [OF 1 m]
  have "mem_ok E m1" using r1 by simp
  note r2 = find_type_result [OF 2 this]
  have "type_exists E m1 i" using r1 by simp
  then have "i \<noteq> ou" "\<not> taken E (pmem pr) ou" using r1 r2 by (auto simp: taken_def split: if_splits)
  then show thesis
    using run r1 r2 unfolding setup_memory_def 1
    by (intro that [where i = i and ou = ou and p = p and ?m2.0 = m2 and ?m3.0 = m3]) (auto simp: 2 3)
qed

lemma setup_memory_fresh:
  assumes "mem_ok E (pmem pr)" and "setup_memory E pr c0 = Inr (c, pr')" and "out_packet_len c0 = 0"
  shows "in_mem_id c \<noteq> 0 \<and> out_mem_id c \<noteq> 0 \<and> in_mem_id c \<noteq> out_mem_id c \<and>
    \<not> type_exists E (pmem pr) (in_mem_id c) \<and> \<not> type_exists E (pmem pr) (out_mem_id c) \<and>
    mem_ok E (pmem pr') \<and> type_exists E (pmem pr') = (type_exists E (pmem pr))(in_mem_id c := True, out_mem_id c := True) \<and>
    (\<forall>q. mem_abs E (pmem pr) q \<noteq> None \<longrightarrow>
       mem_abs E (pmem pr') q = mem_abs E (pmem pr) q \<and> heap (pmem pr') q = heap (pmem pr) q) \<and>
    (out_cur_ele c \<noteq> 0 \<longrightarrow>
       queue E \<lparr>mem = pmem pr', eles = pcells pr', cur_ele = pcur_ele pr', world = w, conn = c\<rparr> []) \<and>
    err_handler c = err_handler c0"
proof -
  from setup_memory_cases [OF assms(1,2)] obtain m2 p m3 i ou where
    c: "c = c0\<lparr>in_mem_id := i, out_mem_id := ou, out_cur_ele := p, out_ele_queue := p\<rparr>"
    "mem_ok E m2" "\<not> taken E (pmem pr) i" "\<not> taken E (pmem pr) ou" "i \<noteq> ou"
    "type_exists E m2 = (type_exists E (pmem pr))(i := True, ou := True)"
    "mem_abs E m2 = mem_abs E (pmem pr)" "heap m2 = heap (pmem pr)" "mem_alloc E m2 ou 24 = Inr (p, m3)" "pmem pr' = m3"
    "pcells pr' = (if p = 0 then pcells pr else (pcells pr)(p := zero_ele))" by metis
  from c(2) have "mem_wf E m2" "libc_ok E" by simp_all
  then show ?thesis
  proof (cases rule: mem_alloc_cases [where t = ou and sz = 24])
    case failed
    with c show ?thesis by (auto simp: taken_def)
  next
    case (ok q d)
    then have eq: "q = p" "d = m3" using c(9) by simp_all
    note ok = ok [unfolded eq]
    have "mem_abs E m2 p = None" using ok(3) by (simp add: mem_abs_def mem_fresh_lookup)
    then have keep: "mem_abs E m3 x = mem_abs E (pmem pr) x \<and> heap m3 x = heap (pmem pr) x"
      if "mem_abs E (pmem pr) x \<noteq> None" for x using that ok(5,6) c(7,8) by auto
    have "p \<noteq> 0" using ok(3) by (simp add: mem_fresh_def)
    then have "queue E \<lparr>mem = pmem pr', eles = pcells pr', cur_ele = pcur_ele pr', world = w, conn = c\<rparr> []"
      using c ok assms(3) by (auto simp: queue_def queue_at_def payload_def zero_ele_def mem_types_def)
    moreover have "type_exists E m3 = type_exists E m2" using ok(7,8) by (simp add: type_exists_def fun_eq_iff)
    ultimately show ?thesis using c keep ok(4) by (auto simp: taken_def)
  qed
qed

text \<open>C14: A new connection gets two memory types of its own, different from each other, from 0 and from every
  type in use, so that freeing a packet frees no memory of anybody else; the types and
  pointers there were stay. When the first cell is allocated the queue is empty.\<close>

theorem setup_memory_types:
  assumes "mem_ok E (pmem pr)" and "setup_memory E pr c0 = Inr (c, pr')" and "out_packet_len c0 = 0"
  shows "in_mem_id c \<noteq> 0 \<and> out_mem_id c \<noteq> 0 \<and> in_mem_id c \<noteq> out_mem_id c \<and>
    \<not> type_exists E (pmem pr) (in_mem_id c) \<and> \<not> type_exists E (pmem pr) (out_mem_id c) \<and>
    mem_ok E (pmem pr') \<and> type_exists E (pmem pr') = (type_exists E (pmem pr))(in_mem_id c := True, out_mem_id c := True) \<and>
    (\<forall>q. mem_abs E (pmem pr) q \<noteq> None \<longrightarrow>
       mem_abs E (pmem pr') q = mem_abs E (pmem pr) q \<and> heap (pmem pr') q = heap (pmem pr) q) \<and>
    (out_cur_ele c \<noteq> 0 \<longrightarrow>
       queue E \<lparr>mem = pmem pr', eles = pcells pr', cur_ele = pcur_ele pr', world = w, conn = c\<rparr> [])"
  using setup_memory_fresh [OF assms, of w] by simp

lemma scl_write_out_dangling:
  assumes "out_ele_queue (conn st) \<noteq> 0" and "heap (mem st) (out_ele_queue (conn st)) = None"
  shows "scl_write_out E io st = Inl Dangling"
proof -
  obtain k where k: "ELE_ROUNDS = Suc k" by (metis ELE_ROUNDS_def not0_implies_Suc power_not_zero zero_neq_numeral)
  show ?thesis using assms by (simp add: scl_write_out_def k deref_ele_def)
qed

text \<open>C29: \<open>close_suva_conn\<close> uses memory it has freed: it gives the first cell of the queue back and then
  lets \<open>scl_write_out\<close> start from it, whatever the queue holds and whatever the peer does.\<close>

theorem close_suva_conn_dangling:
  assumes "queue E (scl s) items" and "in_mem_id (conn (scl s)) \<noteq> 0"
    and "owned E (mem (scl s)) (out_ele_queue (conn (scl s)))"
  shows "close_suva_conn E io s = Inl Dangling"
proof -
  let ?st = "scl s"
  let ?q = "out_ele_queue (conn ?st)"
  from assms(1) obtain as where as: "queue_at E ?st as" by (auto simp: queue_def)
  then have m: "mem_wf E (mem ?st)" and nz: "?q \<noteq> 0" by (auto simp: queue_at_def) (cases as; auto)+
  from mem_free_freed [OF m, of ?q] obtain m1 where
    m1: "mem_free E (mem ?st) ?q = Inr m1" "freed E {?q} (mem ?st) m1" .
  from mem_free_all_freed [OF freed_wf [OF m1(2)] assms(2)] obtain m2 where
    m2: "mem_free_all E m1 (in_mem_id (conn ?st)) = Inr m2" "freed E (of_type E m1 (in_mem_id (conn ?st))) m1 m2" .
  have "heap m2 ?q = None"
    using freed_heap [OF m1(2), of ?q] freed_heap [OF m2(2), of ?q] assms(3) by simp
  then have "scl_write_out E io (?st\<lparr>mem := m2, conn := (conn ?st)\<lparr>out_packet_opcode := SCL_CCONN\<rparr>\<rparr>) = Inl Dangling"
    using nz by (intro scl_write_out_dangling) simp_all
  then show ?thesis
    using m1(1) m2(1) by (simp add: close_suva_conn_def scl_free_packet_mem_def)
qed

lemma close_suva_conn_dangling_witness:
  "close_suva_conn sample_libc sock_io \<lparr>scl = sample_sender, conn_at = 0, fd_open = True, reports = []\<rparr> = Inl Dangling"
proof (rule close_suva_conn_dangling [where items = "[]"])
  show "owned sample_libc (mem (scl \<lparr>scl = sample_sender, conn_at = 0, fd_open = True, reports = []\<rparr>))
     (out_ele_queue (conn (scl \<lparr>scl = sample_sender, conn_at = 0, fd_open = True, reports = []\<rparr>)))"
    by (simp add: owned_def sample_sender_def sample_conn_def lookup_def cell_mem_ctx_def push_entry_def is_stored_def
        typed_mem_ctx_def empty_mem_def mem_init_def Let_def)
qed (use sample_sender_queue in \<open>simp_all add: sample_sender_def sample_conn_def\<close>)

section \<open>The conversation\<close>

lemma idle_advance: "idle E T (advance st k) = idle E T st"
  by (simp add: idle_def queue_def queue_at_def)

definition shown :: "byte list option \<Rightarrow> byte list option" where
  "shown t = (if text_of t = [] then None else Some (text_of t))"

definition result_bytes :: "c_int \<Rightarrow> byte list option \<Rightarrow> byte list" where
  "result_bytes code t = le4 code @ enc_string t @ [0]"

lemma length_result_bytes: "length (result_bytes code t) = 9 + length (text_of t)"
  by (simp add: result_bytes_def length_enc_string)

lemma read_result_reading:
  assumes r: "reading E (scl s) (result_bytes code t) 0" and h: "err_handler (conn (scl s))" and t: "string_ok t"
  obtains q k where "read_result E s = Inr (code, q, s\<lparr>scl := advance (scl s) k, reports := reports s @ [(code, shown t)]\<rparr>)"
proof -
  have "drop 0 (result_bytes code t) = le4 code @ enc_string t @ [0]" by (simp add: result_bytes_def)
  note i = get_int_reading [OF r this]
  have "drop (0 + 4) (result_bytes code t) = enc_string t @ 0 # []" by (simp add: result_bytes_def)
  from get_str_reading [OF i(2) this t] obtain q where
    "get_str E (advance (scl s) 4) = Inr ((q, shown t), advance (advance (scl s) 4) (of_nat (length (enc_string t) + 1)))"
    by (auto simp: shown_def)
  moreover have "advance (advance (scl s) 4) (of_nat (length (enc_string t) + 1)) =
      advance (scl s) (4 + of_nat (length (enc_string t) + 1))"
    by (simp add: add.assoc)
  ultimately show thesis
    using i(1) h by (intro that [of q "4 + of_nat (length (enc_string t) + 1)"]) (simp add: read_result_def call_handler_def)
qed

context scl_stream
begin

text \<open>A result packet is read and reported.\<close>

lemma result_packet:
  assumes i: "idle E T (scl s)" and w: "ok (world (scl s))"
    and inc: "incoming (world (scl s)) = packet opcode (result_bytes code t) @ more_in"
    and t: "string_ok t" "length (text_of t) < 2 ^ 30" and am: "ample E T k (mem (scl s))" "3 \<le> k"
    and h: "err_handler (conn (scl s))"
  obtains st n s' q where "scl_read_packet E io (scl s) = Inr (n, st)" "0 < n"
    "read_result E (s\<lparr>scl := st\<rparr>) = Inr (code, q, s')" "idle E T (scl s')" "ample E T (k - 3) (mem (scl s'))"
    "ok (world (scl s'))" "incoming (world (scl s')) = more_in" "sent (world (scl s')) = sent (world (scl s))"
    "room (world (scl s')) = room (world (scl s))"
    "reports s' = reports s @ [(code, shown t)]" "conn_at s' = conn_at s" "fd_open s' = fd_open s"
    "same_conn (scl s) (scl s')" "in_packet_opcode (conn (scl s')) = opcode"
proof -
  have len: "0 < length (result_bytes code t)" "length (result_bytes code t) < 2 ^ 31"
    using t(2) by (simp_all add: length_result_bytes)
  from scl_read_packet_idle [OF i w inc len(2) am] obtain st where
    st: "scl_read_packet E io (scl s) = Inr (int (length (result_bytes code t)), st)" "reading E st (result_bytes code t) 0"
      "idle E T st" "in_packet_opcode (conn st) = opcode" "incoming (world st) = more_in" "sent (world st) = sent (world (scl s))"
      "room (world st) = room (world (scl s))" "ok (world st)" "ample E T (k - 3) (mem st)" "same_conn (scl s) st" by blast
  have r: "reading E (scl (s\<lparr>scl := st\<rparr>)) (result_bytes code t) 0" "err_handler (conn (scl (s\<lparr>scl := st\<rparr>)))"
    using st(2,10) h by (simp_all add: same_conn_def)
  obtain q j where "read_result E (s\<lparr>scl := st\<rparr>) =
      Inr (code, q, s\<lparr>scl := advance st j, reports := reports s @ [(code, shown t)]\<rparr>)"
    by (rule read_result_reading [OF r t(1)]) simp
  then show thesis
    using st len(1) by (intro that [where st = st and n = "int (length (result_bytes code t))" and q = q and s' = "s\<lparr>scl := advance st j, reports := reports s @ [(code, shown t)]\<rparr>"])
      (simp_all add: idle_advance same_conn_def)
qed

lemma handshake_connects:
  assumes i: "idle E T (scl s)" and w: "ok (world (scl s))" and h: "err_handler (conn (scl s))"
    and inc: "incoming (world (scl s)) = packet op1 (result_bytes SRC_CONNECT t1) @ packet op2 (result_bytes SRC_CONNECTED t2) @ more_in"
    and t: "string_ok t1" "length (text_of t1) < 2 ^ 30" "string_ok t2" "length (text_of t2) < 2 ^ 30"
    and am: "ample E T k (mem (scl s))" "7 \<le> k"
  obtains pr' s' where "handshake E io pr s = Inr (pr', Some s')" "idle E T (scl s')" "ok (world (scl s'))"
    "incoming (world (scl s')) = more_in" "sent (world (scl s')) = sent (world (scl s))"
    "reports s' = reports s @ [(SRC_CONNECT, shown t1), (SRC_CONNECTED, shown t2)]" "conn_at s' = conn_at s" "fd_open s' = fd_open s"
    "same_conn (scl s) (scl s')" "ample E T (k - 7) (mem (scl s'))" "pmem pr' = mem (scl s')"
proof -
  have k: "3 \<le> k" using am(2) by simp
  obtain st1 n1 s1 q1 where
    1: "scl_read_packet E io (scl s) = Inr (n1, st1)" "0 < n1" "read_result E (s\<lparr>scl := st1\<rparr>) = Inr (SRC_CONNECT, q1, s1)"
      "idle E T (scl s1)" "ample E T (k - 3) (mem (scl s1))" "ok (world (scl s1))"
      "incoming (world (scl s1)) = packet op2 (result_bytes SRC_CONNECTED t2) @ more_in" "sent (world (scl s1)) = sent (world (scl s))"
      "reports s1 = reports s @ [(SRC_CONNECT, shown t1)]" "conn_at s1 = conn_at s" "fd_open s1 = fd_open s"
      "same_conn (scl s) (scl s1)"
    by (rule result_packet [OF i w inc t(1,2) am(1) k h])
  have k3: "3 \<le> k - 3" and h1: "err_handler (conn (scl s1))" using am(2) h 1(12) by (simp_all add: same_conn_def)
  obtain st2 n2 s2 q2 where
    2: "scl_read_packet E io (scl s1) = Inr (n2, st2)" "read_result E (s1\<lparr>scl := st2\<rparr>) = Inr (SRC_CONNECTED, q2, s2)"
      "idle E T (scl s2)" "ample E T (k - 3 - 3) (mem (scl s2))" "ok (world (scl s2))"
      "incoming (world (scl s2)) = more_in" "sent (world (scl s2)) = sent (world (scl s1))"
      "reports s2 = reports s1 @ [(SRC_CONNECTED, shown t2)]" "conn_at s2 = conn_at s1" "fd_open s2 = fd_open s1"
      "same_conn (scl s1) (scl s2)"
    by (rule result_packet [OF 1(4,6,7) t(3,4) 1(5) k3 h1])
  have "1 \<le> k - 3 - 3" using am(2) by simp
  from scl_free_packet_mem_idle [OF 2(3,4) this] obtain m where
    3: "scl_free_packet_mem E (scl s2) = Inr ((scl s2)\<lparr>mem := m\<rparr>)" "idle E T ((scl s2)\<lparr>mem := m\<rparr>)" "ample E T (k - 3 - 3 - 1) m" by blast
  show thesis
    using 1 2 3 by (intro that [where s' = "s2\<lparr>scl := (scl s2)\<lparr>mem := m\<rparr>\<rparr>"])
      (auto simp: handshake_def Let_def leave_def same_conn_def)
qed

end

lemma val_ok_int: "val_ok (c_int_obj n) SCL_INT k"
  by (simp add: c_int_obj_def val_ok_def scalars_def)

lemma val_ok_str: "val_ok (c_str_obj p) SCL_STRING k"
  by (simp add: c_str_obj_def val_ok_def scalars_def arrays_def split: option.splits)

lemma items_ok:
  "list_all item_ok (oconn_items timeout port host org)" "list_all item_ok (csuvlet_items ttl exclusive encrypted name)"
  by (simp_all add: oconn_items_def csuvlet_items_def item_ok_def val_ok_int val_ok_str)

text \<open>C5: Opening a connection to a server that accepts it. One request goes out, with the time-out, port, host and
  organisation asked for; the two answers are read and reported in order; nothing of them stays
  in memory, the queue is empty again and what else the server sent is still to be read.\<close>

theorem open_suva_conn_connects:
  assumes "suva_api_init E pr0 = Inr pr1" and "mem_alloc E (pmem pr1) SUVA_CONN_TYPE SUVA_CONN_SIZE = Inr (p, m)" and "p \<noteq> 0"
    and "mem_ok E m" and "setup_memory E (pr1\<lparr>pmem := m\<rparr>) (zero_conn\<lparr>err_handler := True\<rparr>) = Inr (c, pr3)"
    and "out_cur_ele c \<noteq> 0" and "ample E {in_mem_id c, out_mem_id c} 15 (pmem pr3)"
    and "prompt w" and "16 + length (payload (oconn_items timeout port host org)) \<le> room_left w"
    and "to_read w = packet op1 (result_bytes SRC_CONNECT t1) @ packet op2 (result_bytes SRC_CONNECTED t2) @ more_in"
    and "string_ok t1" "length (text_of t1) < 2 ^ 30" "string_ok t2" "length (text_of t2) < 2 ^ 30"
  shows "\<exists>pr s. open_suva_conn E sock_io (Dialled w) port host org timeout pr0 = Inr (pr, Some s) \<and>
    wire (world (scl s)) = wire w @ packet SCL_OCONN (payload (oconn_items timeout port host org)) \<and>
    to_read (world (scl s)) = more_in \<and> reports s = [(SRC_CONNECT, shown t1), (SRC_CONNECTED, shown t2)] \<and>
    queue E (scl s) [] \<and> conn_at s = p \<and> fd_open s"
proof -
  let ?T = "{in_mem_id c, out_mem_id c}"
  define st0 where "st0 = \<lparr>mem = pmem pr3, eles = pcells pr3, cur_ele = pcur_ele pr3, world = w, conn = c\<rparr>"
  have m: "mem_ok E (pmem (pr1\<lparr>pmem := m\<rparr>))" using assms(4) by simp
  have z: "out_packet_len (zero_conn\<lparr>err_handler := True\<rparr>) = 0" by (simp add: zero_conn_def)
  note fresh = setup_memory_fresh [OF m assms(5) z, of w, folded st0_def]
  then have i: "idle E ?T st0" and h: "err_handler (conn st0)"
    using assms(6) by (simp_all add: idle_def st0_def)
  have am: "ample E ?T 15 (mem st0)" "2 * length (oconn_items timeout port host org) \<le> 15"
    using assms(7) by (simp_all add: st0_def oconn_items_def)
  have w: "prompt (world st0)" "16 + length (payload (oconn_items timeout port host org)) \<le> room_left (world st0)"
    using assms(8,9) by (simp_all add: st0_def)
  from sockets.send_packet_wrote [OF i items_ok(1) am w, of SCL_OCONN] obtain st1 where
    st1: "send_packet E sock_io SCL_OCONN (oconn_items timeout port host org) st0 = Inr st1"
      "sockets.wrote (world st0) (packet SCL_OCONN (payload (oconn_items timeout port host org))) (world st1)"
      "idle E ?T st1" "ample E ?T (15 - 2 * length (oconn_items timeout port host org)) (mem st1)" "keeps_rest E st0 st1" by blast
  define s1 where "s1 = \<lparr>scl = st1, conn_at = p, fd_open = True, reports = []\<rparr>"
  have "idle E ?T (scl s1)" "prompt (world (scl s1))" "err_handler (conn (scl s1))"
    "to_read (world (scl s1)) = packet op1 (result_bytes SRC_CONNECT t1) @ packet op2 (result_bytes SRC_CONNECTED t2) @ more_in"
    "ample E ?T 7 (mem (scl s1))"
    using st1 h assms(10) by (simp_all add: s1_def sockets.wrote_def keeps_rest_def st0_def oconn_items_def)
  from sockets.handshake_connects [OF this(1-4) assms(11-14) this(5)] obtain pr' s' where
    "handshake E sock_io pr3 s1 = Inr (pr', Some s')" "idle E ?T (scl s')" "to_read (world (scl s')) = more_in"
    "wire (world (scl s')) = wire (world (scl s1))"
    "reports s' = reports s1 @ [(SRC_CONNECT, shown t1), (SRC_CONNECTED, shown t2)]" "conn_at s' = conn_at s1" "fd_open s' = fd_open s1"
    by (metis le_refl)
  then show ?thesis
    using assms(1,2,3,5) st1(1,2)
    by (simp add: open_suva_conn_def Let_def st0_def s1_def idle_def sockets.wrote_def)
qed

text \<open>C15: \<open>create_suvlet\<close> sends the request and returns 1 exactly for the result code \<open>SRC_OKAY\<close>; every answer is
  reported, with a second report when it is neither a success nor an \<open>SCL_RETURN\<close> packet, and the
  connection is ready for the next call.\<close>

theorem create_suvlet_result:
  assumes "idle E T (scl s)" and "err_handler (conn (scl s))" and "ample E T 12 (mem (scl s))"
    and "prompt (world (scl s))" and "16 + length (payload (csuvlet_items ttl exclusive encrypted name)) \<le> room_left (world (scl s))"
    and "to_read (world (scl s)) = packet opcode (result_bytes code t) @ more_in"
    and "string_ok t" and "length (text_of t) < 2 ^ 30"
  shows "\<exists>s'. create_suvlet E sock_io s name exclusive encrypted ttl = Inr (if code = SRC_OKAY then 1 else 0, s') \<and>
    wire (world (scl s')) = wire (world (scl s)) @ packet SCL_CSUVLET (payload (csuvlet_items ttl exclusive encrypted name)) \<and>
    to_read (world (scl s')) = more_in \<and> idle E T (scl s') \<and>
    reports s' = reports s @ [(code, shown t)] @
      (if code \<noteq> SRC_OKAY \<and> opcode \<noteq> SCL_RETURN then [(0, Some (str ''Received unexpected return code.''))] else [])"
proof -
  let ?items = "csuvlet_items ttl exclusive encrypted name"
  have "2 * length ?items \<le> 12" by (simp add: csuvlet_items_def)
  from sockets.send_packet_wrote [OF assms(1) items_ok(2) assms(3) this assms(4,5), of SCL_CSUVLET] obtain st1 where
    st1: "send_packet E sock_io SCL_CSUVLET ?items (scl s) = Inr st1"
      "sockets.wrote (world (scl s)) (packet SCL_CSUVLET (payload ?items)) (world st1)"
      "idle E T st1" "ample E T (12 - 2 * length ?items) (mem st1)" "keeps_rest E (scl s) st1" by blast
  define s1 where "s1 = s\<lparr>scl := st1\<rparr>"
  have "idle E T (scl s1)" "prompt (world (scl s1))" "to_read (world (scl s1)) = packet opcode (result_bytes code t) @ more_in"
    "ample E T 4 (mem (scl s1))" "3 \<le> (4 :: nat)" "err_handler (conn (scl s1))"
    using st1 assms(2,6) by (simp_all add: s1_def sockets.wrote_def keeps_rest_def csuvlet_items_def)
  from sockets.result_packet [OF this(1-3) assms(7,8) this(4-6)] obtain st2 n s2 q where
    s2: "scl_read_packet E sock_io (scl s1) = Inr (n, st2)" "read_result E (s1\<lparr>scl := st2\<rparr>) = Inr (code, q, s2)"
      "idle E T (scl s2)" "ample E T (4 - 3) (mem (scl s2))" "to_read (world (scl s2)) = more_in"
      "wire (world (scl s2)) = wire (world (scl s1))" "reports s2 = reports s1 @ [(code, shown t)]"
      "same_conn (scl s1) (scl s2)" "in_packet_opcode (conn (scl s2)) = opcode"
    by metis
  from scl_free_packet_mem_idle [OF s2(3,4)] obtain m where
    "scl_free_packet_mem E (scl s2) = Inr ((scl s2)\<lparr>mem := m\<rparr>)" "idle E T ((scl s2)\<lparr>mem := m\<rparr>)" by auto
  moreover have "err_handler (conn (scl s2))" using s2(8) \<open>err_handler (conn (scl s1))\<close> by (simp add: same_conn_def)
  ultimately show ?thesis
    using st1(1,2) s2 by (simp add: create_suvlet_def call_handler_def s1_def sockets.wrote_def)
qed

section \<open>A sample process\<close>

definition sample_process :: process where
  "sample_process = \<lparr>api_init = False, last_in_id = 0, last_out_id = 0, sigpipe_ignored = False, frees_at_exit = 0,
     pmem = empty_mem, pcells = (\<lambda>_. zero_ele), pcur_ele = 0\<rparr>"

definition small :: "nat \<Rightarrow> mem_ctx \<Rightarrow> bool" where
  "small n c \<longleftrightarrow> mem_ok large_libc c \<and> finite (used large_libc c) \<and> card (used large_libc c) \<le> n"

lemma small_malloc: "small n c \<Longrightarrow> n < 1000 \<Longrightarrow> k < 2 ^ 31 \<Longrightarrow> malloc large_libc c k \<noteq> None"
  by (intro large_malloc) (simp_all add: small_def)

lemma small_ample:
  "small n c \<Longrightarrow> n + k < 1000 \<Longrightarrow> \<forall>t \<in> T. t \<noteq> 0 \<and> type_exists large_libc c t \<Longrightarrow> ample large_libc T k c"
  by (intro large_ample) (simp_all add: small_def)

lemma small_grow:
  "small n c \<Longrightarrow> mem_ok large_libc c' \<Longrightarrow> used large_libc c' \<subseteq> insert a (used large_libc c) \<Longrightarrow> small (n + 1) c'"
proof -
  assume c: "small n c" "mem_ok large_libc c'" "used large_libc c' \<subseteq> insert a (used large_libc c)"
  have f: "finite (insert a (used large_libc c))" using c(1) by (simp add: small_def)
  from c(3) f have "card (used large_libc c') \<le> card (insert a (used large_libc c))" by (intro card_mono)
  also have "\<dots> \<le> n + 1" using c(1) by (simp add: small_def card_insert_if)
  finally show ?thesis using c(2) finite_subset [OF c(3) f] by (simp add: small_def)
qed

lemma small_add_type:
  assumes "small n c" and "mem_add_type large_libc c t name = Inr (0, c')" and "mem_ok large_libc c'"
  shows "small (n + 1) c'"
proof -
  from assms(2) obtain a i where "c' = c\<lparr>info_heap := (info_heap c)(a \<mapsto> i), pMemInfo := (pMemInfo c)(hash_type large_libc t := a # pMemInfo c (hash_type large_libc t))\<rparr>"
    by (cases "mem_find_type large_libc c t") (auto simp: mem_add_type_def Let_def split: if_splits option.splits)
  note c' = this
  have "lookup large_libc c' = lookup large_libc c" by (rule lookup_cong) (simp add: c')
  then have "used large_libc c' \<subseteq> insert a (used large_libc c)" by (auto simp: used_def c' split: if_splits)
  with assms(1,3) show ?thesis by (rule small_grow)
qed

lemma small_alloc:
  assumes "small n c" and "n < 999" and "t \<noteq> 0" and "type_exists large_libc c t" and "unat k < 2 ^ 31"
  obtains p c' where "mem_alloc large_libc c t k = Inr (p, c')" "p \<noteq> 0" "small (n + 1) c'"
    "type_exists large_libc c' = type_exists large_libc c"
proof -
  have "ample large_libc {t} 1 c" using assms by (intro small_ample) simp_all
  then obtain p c' where run: "mem_alloc large_libc c t k = Inr (p, c')" "p \<noteq> 0"
    using assms(5) by (auto elim: ample_alloc)
  have "mem_wf large_libc c" using assms(1) by (simp add: small_def)
  then show thesis using large_libc_ok
  proof (cases rule: mem_alloc_cases [where t = t and sz = k])
    case failed
    with run show ?thesis by simp
  next
    case (ok q d)
    with run have eq: "q = p" "d = c'" by simp_all
    note ok = ok [unfolded eq]
    have dm: "dom (lookup large_libc e) = dom (mem_abs large_libc e)" for e by (auto simp: mem_abs_def dom_def)
    have "used large_libc c' \<subseteq> insert p (used large_libc c)" using ok by (auto simp: used_def dm)
    with assms(1) ok large_libc_ok have "small (n + 1) c'" by (intro small_grow) simp_all
    moreover have "type_exists large_libc c' = type_exists large_libc c" using ok(7,8) by (simp add: type_exists_def fun_eq_iff)
    ultimately show ?thesis using run by (intro that)
  qed
qed

lemma sample_opening:
  obtains pr1 p m c pr3 where "suva_api_init large_libc sample_process = Inr pr1"
    "mem_alloc large_libc (pmem pr1) SUVA_CONN_TYPE SUVA_CONN_SIZE = Inr (p, m)" "p \<noteq> 0" "mem_ok large_libc m"
    "setup_memory large_libc (pr1\<lparr>pmem := m\<rparr>) (zero_conn\<lparr>err_handler := True\<rparr>) = Inr (c, pr3)"
    "in_mem_id c = 1" "out_mem_id c = 2"
    "out_cur_ele c \<noteq> 0" "ample large_libc {in_mem_id c, out_mem_id c} 900 (pmem pr3)"
proof -
  let ?E = large_libc
  have wf: "mem_wf ?E (mem_init empty_mem)" unfolding empty_mem_def by (rule mem_wf_init)
  have none: "type_exists ?E (mem_init empty_mem) = (\<lambda>_. False)"
    by (simp add: type_exists_def mem_init_def fun_eq_iff)
  have s0: "small 0 (mem_init empty_mem)"
    using wf large_libc_ok by (simp add: small_def used_def lookup_def mem_init_def empty_mem_def fun_eq_iff [symmetric] dom_def)
  have "mem_ok ?E (mem_init empty_mem)" "\<not> taken ?E (mem_init empty_mem) SUVA_CONN_TYPE" "malloc ?E (mem_init empty_mem) 56 \<noteq> None"
    using s0 small_malloc [OF s0, of 56] by (simp_all add: small_def taken_def none)
  then obtain m1 where m1: "mem_add_type ?E (mem_init empty_mem) SUVA_CONN_TYPE (str ''Suva Connection'') = Inr (0, m1)" "mem_ok ?E m1"
      "type_exists ?E m1 = (type_exists ?E (mem_init empty_mem))(SUVA_CONN_TYPE := True)"
    by (rule add_type_free)
  have s1: "small 1 m1" using small_add_type [OF s0 m1(1,2)] by simp
  have u: "unat SUVA_CONN_SIZE < 2 ^ 31" "unat (24 :: c_uint) < 2 ^ 31" by simp_all
  have t1: "type_exists ?E m1 SUVA_CONN_TYPE" using m1(3) by simp
  obtain p m where "mem_alloc ?E m1 SUVA_CONN_TYPE SUVA_CONN_SIZE = Inr (p, m)" "p \<noteq> 0" "small (1 + 1) m" "type_exists ?E m = type_exists ?E m1"
    by (rule small_alloc [OF s1 _ _ t1 u(1)]) simp_all
  then have m: "mem_alloc ?E m1 SUVA_CONN_TYPE SUVA_CONN_SIZE = Inr (p, m)" "p \<noteq> 0" "small 2 m" "type_exists ?E m = type_exists ?E m1"
    by (simp_all only: one_add_one simp_thms)
  have mok: "mem_ok ?E m" using m(3) by (simp add: small_def)
  have free: "\<not> taken ?E m (0 + of_nat 1)" "malloc ?E m 56 \<noteq> None"
    using m(4) m1(3) small_malloc [OF m(3), of 56] by (simp_all add: taken_def none)
  obtain m2 where m2: "mem_ok ?E m2" "type_exists ?E m2 = (type_exists ?E m)(0 + of_nat 1 := True)"
      "\<And>k ident. taken ?E m ident \<Longrightarrow> 0 < (1 :: nat) \<Longrightarrow> 1 < k \<Longrightarrow> \<forall>i \<in> {0<..<1}. taken ?E m (0 + of_nat i) \<Longrightarrow>
         find_type ?E (str ''SCL Inbound Packet Memory'') k m ident 0 = Inr (0 + of_nat 1, 0 + of_nat 1, m2)"
      "mem_add_type ?E m (0 + of_nat 1) (str ''SCL Inbound Packet Memory'') = Inr (0, m2)"
    by (rule find_type_first [OF mok free, of "str ''SCL Inbound Packet Memory''"]) blast
  have s2: "small 3 m2" using small_add_type [OF m(3) m2(4,1)] by simp
  have free2: "\<not> taken ?E m2 (1 + of_nat 1)" "malloc ?E m2 56 \<noteq> None"
    using m2(2) m(4) m1(3) small_malloc [OF s2, of 56] by (simp_all add: taken_def none)
  obtain m3 where m3: "mem_ok ?E m3" "type_exists ?E m3 = (type_exists ?E m2)(1 + of_nat 1 := True)"
      "\<And>k ident. taken ?E m2 ident \<Longrightarrow> 0 < (1 :: nat) \<Longrightarrow> 1 < k \<Longrightarrow> \<forall>i \<in> {0<..<1}. taken ?E m2 (1 + of_nat i) \<Longrightarrow>
         find_type ?E (str ''SCL Outbound Packet Memory'') k m2 ident 1 = Inr (1 + of_nat 1, 1 + of_nat 1, m3)"
      "mem_add_type ?E m2 (1 + of_nat 1) (str ''SCL Outbound Packet Memory'') = Inr (0, m3)"
    by (rule find_type_first [OF m2(1) free2, of "str ''SCL Outbound Packet Memory''"]) blast
  have s3: "small 4 m3" using small_add_type [OF s2 m3(4,1)] by simp
  have t2: "type_exists ?E m3 2" using m3(2) by simp
  obtain q m4 where m4: "mem_alloc ?E m3 2 24 = Inr (q, m4)" "q \<noteq> 0" "small (4 + 1) m4" "type_exists ?E m4 = type_exists ?E m3"
    by (rule small_alloc [OF s3 _ _ t2 u(2)]) simp_all
  have f1: "find_type ?E (str ''SCL Inbound Packet Memory'') ID_ROUNDS m 0 0 = Inr (1, 1, m2)"
    using m2(3) [of 0 ID_ROUNDS] by (simp add: taken_def ID_ROUNDS_def)
  have f2: "find_type ?E (str ''SCL Outbound Packet Memory'') ID_ROUNDS m2 0 1 = Inr (2, 2, m3)"
    using m3(3) [of 0 ID_ROUNDS] by (simp add: taken_def ID_ROUNDS_def)
  let ?pr1 = "sample_process\<lparr>api_init := True, frees_at_exit := 1, sigpipe_ignored := True, pmem := m1\<rparr>"
  have i: "suva_api_init ?E sample_process = Inr ?pr1"
    using m1(1) by (simp add: suva_api_init_def sample_process_def)
  let ?c = "zero_conn\<lparr>err_handler := True, in_mem_id := 1, out_mem_id := 2, out_cur_ele := q, out_ele_queue := q\<rparr>"
  let ?pr3 = "?pr1\<lparr>pmem := m4, last_in_id := 1, last_out_id := 2, pcells := (pcells sample_process)(q := zero_ele)\<rparr>"
  have st: "setup_memory ?E (?pr1\<lparr>pmem := m\<rparr>) (zero_conn\<lparr>err_handler := True\<rparr>) = Inr (?c, ?pr3)"
    using f1 f2 m4(1,2) by (simp add: setup_memory_def sample_process_def zero_conn_def)
  have "\<forall>t \<in> {1, 2}. t \<noteq> 0 \<and> type_exists ?E m4 t" using m4(4) m3(2) m2(2) by simp
  from small_ample [OF m4(3) _ this, of 900] have am: "ample ?E {1, 2} 900 m4" by simp
  show thesis
    by (rule that [OF i _ m(2) mok st]) (use m(1) m4(2) am in \<open>simp_all add: zero_conn_def\<close>)
qed


lemma setup_memory_types_witness:
  "\<exists>pr c pr'. setup_memory large_libc pr (zero_conn\<lparr>err_handler := True\<rparr>) = Inr (c, pr') \<and>
     in_mem_id c \<noteq> out_mem_id c \<and> type_exists large_libc (pmem pr') (in_mem_id c)"
proof -
  obtain pr1 m c pr3 where o: "mem_ok large_libc m"
    "setup_memory large_libc (pr1\<lparr>pmem := m\<rparr>) (zero_conn\<lparr>err_handler := True\<rparr>) = Inr (c, pr3)"
    by (rule sample_opening)
  have "mem_ok large_libc (pmem (pr1\<lparr>pmem := m\<rparr>))" using o(1) by simp
  from setup_memory_types [OF this o(2), where w = "()"]
  have "in_mem_id c \<noteq> out_mem_id c \<and> type_exists large_libc (pmem pr3) (in_mem_id c)" by (simp add: zero_conn_def)
  with o(2) show ?thesis by blast
qed

lemma find_type_outcome_witness:
  "find_type (sample_libc\<lparr>malloc := (\<lambda>_ _. None)\<rparr>) [] 1000000 empty_mem 0 0 = Inl No_Return"
proof -
  have "mem_ok (sample_libc\<lparr>malloc := (\<lambda>_ _. None)\<rparr>) empty_mem"
    using mem_wf_init [of "sample_libc\<lparr>malloc := (\<lambda>_ _. None)\<rparr>"] by (simp add: empty_mem_def libc_ok_def sample_libc_def)
  from find_type_outcome [OF this] show ?thesis by simp
qed

text \<open>A connected socket, with the answers of a server that accepts the connection.\<close>

definition dialled :: "byte list \<Rightarrow> sock" where
  "dialled bs = \<lparr>rd_calls = [Rd_Again 1, Rd bs], wr_calls = [Wr 5, Wr 9999], wire = []\<rparr>"

lemma dialled: "bs \<noteq> [] \<Longrightarrow> prompt (dialled bs)" "to_read (dialled bs) = bs" "room_left (dialled bs) = 10004"
  by (simp_all add: dialled_def prompt_def to_read_def room_left_def SCL_TIMEOUT_def)

lemma sample_session:
  assumes "bs \<noteq> []"
  obtains T and s :: "sock session" where "idle large_libc T (scl s)" "err_handler (conn (scl s))" "ample large_libc T 900 (mem (scl s))"
    "world (scl s) = dialled bs" "reports s = []"
proof -
  obtain pr1 m c pr3 where o: "mem_ok large_libc m"
    "setup_memory large_libc (pr1\<lparr>pmem := m\<rparr>) (zero_conn\<lparr>err_handler := True\<rparr>) = Inr (c, pr3)"
    "out_cur_ele c \<noteq> 0" "ample large_libc {in_mem_id c, out_mem_id c} 900 (pmem pr3)"
    by (rule sample_opening)
  let ?st = "\<lparr>mem = pmem pr3, eles = pcells pr3, cur_ele = pcur_ele pr3, world = dialled bs, conn = c\<rparr>"
  have "mem_ok large_libc (pmem (pr1\<lparr>pmem := m\<rparr>))" using o(1) by simp
  note f = setup_memory_fresh [OF this o(2), of "dialled bs"]
  show thesis
    by (rule that [of "{in_mem_id c, out_mem_id c}" "\<lparr>scl = ?st, conn_at = 0, fd_open = True, reports = []\<rparr>"])
      (use f o in \<open>simp_all add: idle_def zero_conn_def\<close>)
qed

lemma packet_nonempty: "packet opcode bs @ cs \<noteq> []"
  by (simp add: packet_def le4_def)

lemma sample_oconn_length: "length (payload (oconn_items n k (Some [104]) None)) = 19"
  by (simp add: oconn_items_def payload_def enc_item_def encode_def scalars_def arrays_def c_int_obj_def c_str_obj_def
      block_of_def enc_string_def string_ptr_def text_of_def)

lemma open_suva_conn_connects_witness:
  "\<exists>pr s. open_suva_conn large_libc sock_io
       (Dialled (dialled (packet SCL_RETURN (result_bytes SRC_CONNECT None) @ packet SCL_RETURN (result_bytes SRC_CONNECTED None))))
       1876 (Some [104]) None 30 sample_process = Inr (pr, Some s) \<and>
     reports s = [(SRC_CONNECT, None), (SRC_CONNECTED, None)]"
proof -
  let ?w = "dialled (packet SCL_RETURN (result_bytes SRC_CONNECT None) @ packet SCL_RETURN (result_bytes SRC_CONNECTED None))"
  obtain pr1 p m c pr3 where o: "suva_api_init large_libc sample_process = Inr pr1"
    "mem_alloc large_libc (pmem pr1) SUVA_CONN_TYPE SUVA_CONN_SIZE = Inr (p, m)" "p \<noteq> 0" "mem_ok large_libc m"
    "setup_memory large_libc (pr1\<lparr>pmem := m\<rparr>) (zero_conn\<lparr>err_handler := True\<rparr>) = Inr (c, pr3)"
    "out_cur_ele c \<noteq> 0" "ample large_libc {in_mem_id c, out_mem_id c} 900 (pmem pr3)"
    by (rule sample_opening)
  have "ample large_libc {in_mem_id c, out_mem_id c} 15 (pmem pr3)" using o(7) by (rule ample_le) simp
  moreover have "prompt ?w" by (rule dialled) (rule packet_nonempty)
  ultimately show ?thesis
    using open_suva_conn_connects [OF o(1-6), where w = ?w and timeout = 30 and port = 1876 and host = "Some [104]" and org = None
      and ?op1.0 = SCL_RETURN and ?op2.0 = SCL_RETURN and ?t1.0 = None and ?t2.0 = None and more_in = "[]"]
    by (auto simp: dialled sample_oconn_length string_ok_def text_of_def shown_def)
qed

lemma create_suvlet_result_witness:
  "\<exists>s s'. create_suvlet large_libc sock_io s (Some [104]) 0 1 60 = Inr (0, s') \<and>
     reports s' = [(9, Some [98]), (0, Some (str ''Received unexpected return code.''))]"
proof -
  let ?bs = "packet SCL_FERROR (result_bytes 9 (Some [98, 0]))"
  have ne: "?bs \<noteq> []" using packet_nonempty [of SCL_FERROR _ "[]"] by simp
  obtain T and s :: "sock session" where s: "idle large_libc T (scl s)" "err_handler (conn (scl s))" "ample large_libc T 900 (mem (scl s))"
    "world (scl s) = dialled ?bs" "reports s = []" by (rule sample_session [OF ne])
  have a: "ample large_libc T 12 (mem (scl s))" using s(3) by (rule ample_le) simp
  have len: "length (payload (csuvlet_items 60 0 1 (Some [104]))) = 18"
    by (simp add: csuvlet_items_def payload_def enc_item_def encode_def scalars_def arrays_def c_int_obj_def c_str_obj_def
      block_of_def enc_string_def string_ptr_def text_of_def)
  have "prompt (world (scl s))" unfolding s(4) by (rule dialled(1) [OF ne])
  from create_suvlet_result [OF s(1,2) a this, of 60 0 1 "Some [104]" SCL_FERROR 9 "Some [98, 0]" "[]"] len s(4,5) show ?thesis
    by (auto simp: dialled string_ok_def text_of_def shown_def)
qed

end
