(* ===== verification/Host_Files.thy ===== *)
theory Host_Files
  imports Suva_Prelude
begin

text \<open>
  The files of a machine and the part of stdio the programs use: \<open>fopen\<close>, \<open>fread\<close>, \<open>fwrite\<close>,
  \<open>stat\<close> and \<open>chmod\<close>. What the kernel may refuse is an input: which files cannot be opened or
  changed, and which sizes do not fit. Output is not buffered.
\<close>

type_synonym path = "byte list"

record inode =
  f_bytes :: "byte list"
  f_mode :: c_int

type_synonym files = "path \<rightharpoonup> inode"

record kernel =
  denied :: "path \<Rightarrow> bool"
  full :: "path \<Rightarrow> nat \<Rightarrow> bool"
  new_mode :: c_int
  err_str :: "byte list"       \<comment> \<open>what \<open>strerror\<close> says\<close>

record stream =
  s_path :: path
  s_reads :: bool
  s_writes :: bool
  s_append :: bool
  s_pos :: nat

abbreviation chr :: "char \<Rightarrow> byte" where
  "chr \<equiv> of_char"

text \<open>\<open>fopen\<close>: NULL for a missing name, a mode that begins with no letter it knows, or a refusal.\<close>

definition fopen :: "kernel \<Rightarrow> files \<Rightarrow> path option \<Rightarrow> byte list \<Rightarrow> stream option \<times> files" where
  "fopen K fs name mode =
     (case name of
        None \<Rightarrow> (None, fs)
      | Some p \<Rightarrow>
          let both = chr CHR ''+'' \<in> set mode;
              stream = (\<lambda>r w a. Some \<lparr>s_path = p, s_reads = r, s_writes = w, s_append = a, s_pos = 0\<rparr>);
              created = fs(p := Some (case fs p of None \<Rightarrow> \<lparr>f_bytes = [], f_mode = new_mode K\<rparr> | Some f \<Rightarrow> f))
          in if denied K p \<or> mode = [] then (None, fs)
             else if hd mode = chr CHR ''r''
             then (if fs p = None then (None, fs) else (stream True both False, fs))
             else if hd mode = chr CHR ''w''
             then (stream both True False, created(p := map_option (f_bytes_update (\<lambda>_. [])) (created p)))
             else if hd mode = chr CHR ''a'' then (stream both True True, created)
             else (None, fs))"

text \<open>\<open>fread(data, 1, n, f)\<close>: the bytes read. \<open>fwrite(data, len, 1, f)\<close>: whether the one item was written.\<close>

definition fread :: "files \<Rightarrow> stream \<Rightarrow> nat \<Rightarrow> byte list \<times> stream" where
  "fread fs s n =
     (case fs (s_path s) of
        None \<Rightarrow> ([], s)
      | Some f \<Rightarrow>
          if s_reads s
          then let bs = take n (drop (s_pos s) (f_bytes f)) in (bs, s\<lparr>s_pos := s_pos s + length bs\<rparr>)
          else ([], s))"

definition overlay :: "byte list \<Rightarrow> nat \<Rightarrow> byte list \<Rightarrow> byte list" where
  "overlay old pos bs = take pos (old @ replicate (pos - length old) 0) @ bs @ drop (pos + length bs) old"

definition fwrite_item :: "kernel \<Rightarrow> files \<Rightarrow> stream \<Rightarrow> byte list \<Rightarrow> bool \<times> stream \<times> files" where
  "fwrite_item K fs s bs =
     (case fs (s_path s) of
        None \<Rightarrow> (False, s, fs)
      | Some f \<Rightarrow>
          let pos = (if s_append s then length (f_bytes f) else s_pos s);
              new = overlay (f_bytes f) pos bs
          in if bs = [] \<or> \<not> s_writes s \<or> full K (s_path s) (length new) then (False, s, fs)
             else (True, s\<lparr>s_pos := pos + length bs\<rparr>, fs(s_path s \<mapsto> f\<lparr>f_bytes := new\<rparr>)))"

definition chmod :: "kernel \<Rightarrow> files \<Rightarrow> path option \<Rightarrow> c_int \<Rightarrow> bool \<times> files" where
  "chmod K fs name mode =
     (case name of
        None \<Rightarrow> (False, fs)
      | Some p \<Rightarrow>
          (case fs p of
             None \<Rightarrow> (False, fs)
           | Some f \<Rightarrow>
               if denied K p then (False, fs)
               else (True, fs(p \<mapsto> f\<lparr>f_mode := or (and (f_mode f) (not 0xfff)) (and mode 0xfff)\<rparr>))))"

lemma overlay_end: "overlay old (length old) bs = old @ bs"
  by (simp add: overlay_def)

lemma fopen_read:
  "fs p = Some f \<Longrightarrow> \<not> denied K p \<Longrightarrow>
   fopen K fs (Some p) (str ''r'') = (Some \<lparr>s_path = p, s_reads = True, s_writes = False, s_append = False, s_pos = 0\<rparr>, fs)"
  by (simp add: fopen_def str_def Let_def)

lemma fopen_write:
  "\<not> denied K p \<Longrightarrow>
   fopen K fs (Some p) (str ''w'') = (Some \<lparr>s_path = p, s_reads = False, s_writes = True, s_append = False, s_pos = 0\<rparr>,
     fs(p \<mapsto> \<lparr>f_bytes = [], f_mode = (case fs p of None \<Rightarrow> new_mode K | Some f \<Rightarrow> f_mode f)\<rparr>))"
  by (auto simp: fopen_def str_def Let_def split: option.splits)

end
