(* ===== verification/Scl_Inlines.thy ===== *)
theory Scl_Inlines
  imports Suva_Conn Host_Files
begin

text \<open>
  The inline functions (scl_inlines.c), which every suvlet serves beside its own: the remote side reads
  and writes one file for its peer and answers questions about the process; the local side calls
  it. A string pointer of a packet is modelled by the text behind it, NULL by \<open>None\<close>.
\<close>

section \<open>The remote side\<close>

text \<open>The global \<open>scl_inline_file\<close>; it is not reset when the file is closed.\<close>

datatype handle = No_File | Open_File stream | Closed_File

record 'w host =
  hscl :: "'w scl"
  fs :: files
  inline_file :: handle
  suvlet_version :: c_int
  cwd :: path
  pid :: c_int

definition SUVA_API_VERSION :: c_int where [simp]: "SUVA_API_VERSION = 3"
definition SD_BASE :: path where "SD_BASE = str ''/var/lib/suvlets''"

definition deref_file :: "handle \<Rightarrow> stream res" where
  "deref_file h = (case h of No_File \<Rightarrow> Inl Null_Deref | Open_File s \<Rightarrow> Inr s | Closed_File \<Rightarrow> Inl Dangling)"

text \<open>\<open>scl_get_value(conn, SCL_DATA, &data_len)\<close>, and a block of that length behind its pointer.\<close>

definition get_data :: "libc \<Rightarrow> 'w scl \<Rightarrow> ((addr \<times> c_int) \<times> 'w scl) res" where
  "get_data E st =
     bind_res (scl_get_value E st SCL_DATA True) (\<lambda>(p, n, st').
       Inr ((p, case n of None \<Rightarrow> 0 | Some k \<Rightarrow> k), st'))"

definition item_bytes :: "'w scl \<Rightarrow> addr \<Rightarrow> c_int \<Rightarrow> byte list res" where
  "item_bytes st p n =
     (if n = 0 then Inr [] else if n <s 0 then Inl Out_Of_Bounds else load st p (unat n))"

definition c_bool_obj :: "byte \<Rightarrow> object" where
  "c_bool_obj b = Block [b]"

text \<open>The reply of a function: \<open>SCL_FRETURN\<close> and its values.\<close>

definition reply :: "libc \<Rightarrow> 'w scl_io \<Rightarrow> (object \<times> scl_type \<times> c_int) list \<Rightarrow> 'w host \<Rightarrow> 'w host res" where
  "reply E io items h = bind_res (send_packet E io SCL_FRETURN items (hscl h)) (\<lambda>st. Inr (h\<lparr>hscl := st\<rparr>))"

definition free_packet :: "libc \<Rightarrow> 'w host \<Rightarrow> 'w host res" where
  "free_packet E h = bind_res (scl_free_packet_mem E (hscl h)) (\<lambda>st. Inr (h\<lparr>hscl := st\<rparr>))"

definition scl_il_r_open_file :: "libc \<Rightarrow> 'w scl_io \<Rightarrow> kernel \<Rightarrow> 'w host \<Rightarrow> 'w host res" where
  "scl_il_r_open_file E io K h =
     bind_res (get_str E (hscl h)) (\<lambda>((_, file_name), st1).
     bind_res (get_str E st1) (\<lambda>((_, mode), st2).
       case mode of
         None \<Rightarrow> Inl Null_Deref
       | Some md \<Rightarrow>
           let (s, fs') = fopen K (fs h) file_name md;
               h1 = h\<lparr>hscl := st2, fs := fs', inline_file := (case s of None \<Rightarrow> No_File | Some s \<Rightarrow> Open_File s)\<rparr>
           in bind_res (free_packet E h1) (\<lambda>h2.
                reply E io
                  (if s \<noteq> None then [(c_int_obj 0, SCL_INT, 1), (Null, SCL_STRING, 1)]
                   else [(c_int_obj 1, SCL_INT, 1), (c_str_obj (Some (err_str K)), SCL_STRING, 1)]) h2)))"

definition scl_il_r_close_file :: "libc \<Rightarrow> 'w scl_io \<Rightarrow> 'w host \<Rightarrow> 'w host res" where
  "scl_il_r_close_file E io h =
     bind_res (deref_file (inline_file h)) (\<lambda>_. reply E io [] (h\<lparr>inline_file := Closed_File\<rparr>))"

text \<open>\<open>fwrite(data, data_len, 1, f)\<close>; a length of 0 writes no item and looks at nothing.\<close>

definition put_item ::
  "kernel \<Rightarrow> 'w scl \<Rightarrow> files \<Rightarrow> handle \<Rightarrow> addr \<Rightarrow> c_int \<Rightarrow> (bool \<times> files \<times> handle) res" where
  "put_item K st files f p n =
     (if n = 0 then Inr (False, files, f)
      else bind_res (deref_file f) (\<lambda>s.
           bind_res (item_bytes st p n) (\<lambda>bs.
             let (done, s', files') = fwrite_item K files s bs in Inr (done, files', Open_File s'))))"

definition scl_il_r_put_data :: "libc \<Rightarrow> 'w scl_io \<Rightarrow> kernel \<Rightarrow> 'w host \<Rightarrow> 'w host res" where
  "scl_il_r_put_data E io K h =
     bind_res (get_data E (hscl h)) (\<lambda>((p, n), st1).
     bind_res (put_item K st1 (fs h) (inline_file h) p n) (\<lambda>(done, fs', f').
     bind_res (free_packet E (h\<lparr>hscl := st1, fs := fs', inline_file := f'\<rparr>)) (\<lambda>h1.
       reply E io [(c_bool_obj (if done then 0 else 1), SCL_BOOL, 1)] h1)))"

text \<open>
  \<open>fread(data, 1, n, f)\<close>; bytes that arrive without a buffer go to a null pointer. \<open>malloc\<close> of an \<open>int\<close>:
  a negative one is a \<open>size_t\<close> that no \<open>malloc\<close> serves. The block is given back by the function that
  takes it, so only whether there is one is kept.
\<close>

definition malloc_int :: "libc \<Rightarrow> mem_ctx \<Rightarrow> c_int \<Rightarrow> bool" where
  "malloc_int E c n = (\<not> n <s 0 \<and> malloc E c (unat n) \<noteq> None)"

definition read_chunk :: "bool \<Rightarrow> files \<Rightarrow> handle \<Rightarrow> c_int \<Rightarrow> (byte list \<times> handle) res" where
  "read_chunk buf files f n =
     (if n = 0 then Inr ([], f)
      else bind_res (deref_file f) (\<lambda>s.
        let (bs, s') = fread files s (if n <s 0 then 2 ^ 64 else unat n)
        in if bs \<noteq> [] \<and> \<not> buf then Inl Null_Deref else Inr (bs, Open_File s')))"

definition scl_il_r_get_data :: "libc \<Rightarrow> 'w scl_io \<Rightarrow> 'w host \<Rightarrow> 'w host res" where
  "scl_il_r_get_data E io h =
     bind_res (get_int E (hscl h)) (\<lambda>(data_len, st1).
     bind_res (free_packet E (h\<lparr>hscl := st1\<rparr>)) (\<lambda>h1.
     bind_res (read_chunk (malloc_int E (mem (hscl h1)) data_len) (fs h1) (inline_file h1) data_len) (\<lambda>(bs, f').
       reply E io
         (if bs \<noteq> [] then [(Block bs, SCL_DATA, of_nat (length bs))] else [(Null, SCL_DATA, 0)])
         (h1\<lparr>inline_file := f'\<rparr>))))"

definition stat_file :: "files \<Rightarrow> path option \<Rightarrow> inode option" where
  "stat_file files name = (case name of None \<Rightarrow> None | Some p \<Rightarrow> files p)"

definition scl_il_r_get_fsize_mode :: "libc \<Rightarrow> 'w scl_io \<Rightarrow> 'w host \<Rightarrow> 'w host res" where
  "scl_il_r_get_fsize_mode E io h =
     bind_res (get_str E (hscl h)) (\<lambda>((_, file_name), st1).
       let (file_size, file_mode) =
             (case stat_file (fs h) file_name of
                None \<Rightarrow> (-1, -1)
              | Some f \<Rightarrow> (of_nat (length (f_bytes f)), and (f_mode f) 0xfff))
       in bind_res (reply E io [(c_int_obj file_size, SCL_INT, 0), (c_int_obj file_mode, SCL_INT, 0)] (h\<lparr>hscl := st1\<rparr>))
            (free_packet E))"

text \<open>The result is an \<open>int\<close> of which \<open>SCL_BOOL\<close> sends the first byte.\<close>

definition scl_il_r_set_fmode :: "libc \<Rightarrow> 'w scl_io \<Rightarrow> kernel \<Rightarrow> 'w host \<Rightarrow> 'w host res" where
  "scl_il_r_set_fmode E io K h =
     bind_res (get_str E (hscl h)) (\<lambda>((_, file_name), st1).
     bind_res (get_int E st1) (\<lambda>(file_mode, st2).
       let (done, fs') = chmod K (fs h) file_name file_mode;
           ret_val = (if done then 1 else 0)
       in bind_res (reply E io [(c_int_obj ret_val, SCL_BOOL, 0)] (h\<lparr>hscl := st2, fs := fs'\<rparr>)) (free_packet E)))"

text \<open>What \<open>scl_il_r_get_info\<close> answers; nothing for a question it does not know.\<close>

definition info_items :: "'w host \<Rightarrow> byte list \<Rightarrow> (object \<times> scl_type \<times> c_int) list option" where
  "info_items h var =
     (if var = str ''suvlet_version'' then Some [(c_int_obj (suvlet_version h), SCL_INT, 0)]
      else if var = str ''api_version'' then Some [(c_int_obj SUVA_API_VERSION, SCL_INT, 0)]
      else if var = str ''cwd'' then Some [(c_str_obj (Some (cwd h)), SCL_STRING, 0)]
      else if var = str ''suva_base'' then Some [(c_str_obj (Some SD_BASE), SCL_STRING, 0)]
      else if var = str ''pid'' then Some [(c_int_obj (pid h), SCL_INT, 0)]
      else None)"

definition scl_il_r_get_info :: "libc \<Rightarrow> 'w scl_io \<Rightarrow> 'w host \<Rightarrow> 'w host res" where
  "scl_il_r_get_info E io h =
     bind_res (get_str E (hscl h)) (\<lambda>((_, var), st1).
       case var of
         None \<Rightarrow> Inl Null_Deref
       | Some v \<Rightarrow>
           let h1 = h\<lparr>hscl := upd_conn (out_packet_opcode_update (\<lambda>_. SCL_FRETURN)) st1\<rparr>
           in bind_res (case info_items h v of None \<Rightarrow> Inr h1 | Some items \<Rightarrow> reply E io items h1) (free_packet E))"

definition scl_call_inlines :: "libc \<Rightarrow> 'w scl_io \<Rightarrow> kernel \<Rightarrow> byte list \<Rightarrow> 'w host \<Rightarrow> 'w host res" where
  "scl_call_inlines E io K func_name h =
     (if func_name = str ''inline-open_file'' then scl_il_r_open_file E io K h
      else if func_name = str ''inline-close_file'' then scl_il_r_close_file E io h
      else if func_name = str ''inline-get_data'' then scl_il_r_get_data E io h
      else if func_name = str ''inline-put_data'' then scl_il_r_put_data E io K h
      else if func_name = str ''inline-get_info'' then scl_il_r_get_info E io h
      else if func_name = str ''inline-get_fsize_mode'' then scl_il_r_get_fsize_mode E io h
      else if func_name = str ''inline-set_fmode'' then scl_il_r_set_fmode E io K h
      else Inr h)"

text \<open>\<open>scl_throw_error\<close> ends the process; the result is the state it ends in.\<close>

definition scl_throw_error :: "libc \<Rightarrow> 'w scl_io \<Rightarrow> c_int \<Rightarrow> byte list option \<Rightarrow> 'w scl \<Rightarrow> 'w scl res" where
  "scl_throw_error E io err_num err_msg st =
     send_packet E io SCL_FERROR [(c_int_obj err_num, SCL_INT, 1), (c_str_obj err_msg, SCL_STRING, 1)] st"

section \<open>The local side\<close>

text \<open>A call: the name of the function and its arguments go out, the answer is read.\<close>

definition call_items :: "string \<Rightarrow> (object \<times> scl_type \<times> c_int) list \<Rightarrow> (object \<times> scl_type \<times> c_int) list" where
  "call_items name args = (c_str_obj (Some (str name)), SCL_STRING, 1) # args"

definition fcall :: "libc \<Rightarrow> 'w scl_io \<Rightarrow> string \<Rightarrow> (object \<times> scl_type \<times> c_int) list \<Rightarrow> 'w scl \<Rightarrow> 'w scl res" where
  "fcall E io name args st =
     bind_res (send_packet E io SCL_FCALL (call_items name args) st) (\<lambda>st1.
     bind_res (scl_read_packet E io st1) (\<lambda>(_, st2). Inr st2))"

definition ask_int :: "libc \<Rightarrow> 'w scl_io \<Rightarrow> string \<Rightarrow> 'w scl \<Rightarrow> (c_int \<times> 'w scl) res" where
  "ask_int E io var st =
     bind_res (fcall E io ''inline-get_info'' [(c_str_obj (Some (str var)), SCL_STRING, 1)] st) (\<lambda>st1.
     bind_res (get_int E st1) (\<lambda>(retval, st2).
     bind_res (scl_free_packet_mem E st2) (\<lambda>st3. Inr (retval, st3))))"

text \<open>The string is copied out of the packet; \<open>strlen\<close> of the null pointer an empty one becomes fails.\<close>

definition ask_str :: "libc \<Rightarrow> 'w scl_io \<Rightarrow> string \<Rightarrow> 'w scl \<Rightarrow> (byte list \<times> 'w scl) res" where
  "ask_str E io var st =
     bind_res (fcall E io ''inline-get_info'' [(c_str_obj (Some (str var)), SCL_STRING, 1)] st) (\<lambda>st1.
     bind_res (get_str E st1) (\<lambda>((_, dir), st2).
       case dir of
         None \<Rightarrow> Inl Null_Deref
       | Some d \<Rightarrow>
           if malloc E (mem st2) (length d + 1) = None then Inl Null_Deref
           else bind_res (scl_free_packet_mem E st2) (\<lambda>st3. Inr (d, st3))))"

definition scl_il_get_suvlet_version :: "libc \<Rightarrow> 'w scl_io \<Rightarrow> 'w scl \<Rightarrow> (c_int \<times> 'w scl) res" where
  "scl_il_get_suvlet_version E io = ask_int E io ''suvlet_version''"

definition scl_il_get_api_version :: "libc \<Rightarrow> 'w scl_io \<Rightarrow> 'w scl \<Rightarrow> (c_int \<times> 'w scl) res" where
  "scl_il_get_api_version E io = ask_int E io ''api_version''"

definition scl_il_get_pid :: "libc \<Rightarrow> 'w scl_io \<Rightarrow> 'w scl \<Rightarrow> (c_int \<times> 'w scl) res" where
  "scl_il_get_pid E io = ask_int E io ''pid''"

definition scl_il_get_cwd :: "libc \<Rightarrow> 'w scl_io \<Rightarrow> 'w scl \<Rightarrow> (byte list \<times> 'w scl) res" where
  "scl_il_get_cwd E io = ask_str E io ''cwd''"

definition scl_il_get_suva_base :: "libc \<Rightarrow> 'w scl_io \<Rightarrow> 'w scl \<Rightarrow> (byte list \<times> 'w scl) res" where
  "scl_il_get_suva_base E io = ask_str E io ''suva_base''"

end
