(* ===== verification/Suvlet.thy ===== *)
theory Suvlet
  imports Scl_Inlines
begin

text \<open>
  Suvlets: programs the server starts, which answer calls on standard input and output. Every suvlet has
  its own copy of suva_receiver.c; the copies differ in the table of functions, which is the parameter
  \<open>V\<close> here. The state of the suvlet's own functions is of any type \<open>'a\<close>. What is printed on stderr is left out.
\<close>

section \<open>Start\<close>

text \<open>
  As in \<open>open_suva_conn\<close>, but the counters are local and start at 0, and there is no error handler.
\<close>

definition suva_init_receiver :: "libc \<Rightarrow> process \<Rightarrow> 'w \<Rightarrow> 'w scl res" where
  "suva_init_receiver E pr w =
     bind_res (suva_api_init E pr) (\<lambda>pr1.
     bind_res (find_type E (str ''SCL Inbound Packet Memory'') ID_ROUNDS (pmem pr1) 0 0) (\<lambda>(i, ic, m1).
     bind_res (find_type E (str ''SCL Outbound Packet Memory'') ID_ROUNDS m1 0 ic) (\<lambda>(ou, _, m2).
     bind_res (mem_alloc E m2 ou SCL_ELE_SIZE) (\<lambda>(p, m3).
       Inr \<lparr>mem = m3, eles = (if p = 0 then pcells pr1 else (pcells pr1)(p := zero_ele)), cur_ele = pcur_ele pr1, world = w,
            conn = zero_conn\<lparr>in_mem_id := i, out_mem_id := ou, out_cur_ele := p, out_ele_queue := p\<rparr>\<rparr>))))"

section \<open>Requests\<close>

text \<open>
  A suvlet goes on or exits; \<open>deconstructor\<close> is what it does when it is told to end, \<open>at_exit\<close> what it
  registered for \<open>exit\<close>. The functions of a suvlet read their arguments from the packet and
  answer; the table gives them by name.
\<close>

datatype ('a, 'w) served = Running 'a "'w host" | Exited c_int 'a "'w host"

record ('a, 'w) suvlet =
  func_table :: "byte list \<Rightarrow> ('a \<Rightarrow> 'w host \<Rightarrow> ('a \<times> 'w host) res) option"
  has_inlines :: bool
  throw_exits :: bool
  deconstructor :: "'a \<Rightarrow> files \<Rightarrow> ('a \<times> files) res"
  at_exit :: "'a \<Rightarrow> files \<Rightarrow> files res"

text \<open>The result of the call of a name: an unknown one is not answered.\<close>

definition call_function ::
  "('a, 'w) suvlet \<Rightarrow> libc \<Rightarrow> 'w scl_io \<Rightarrow> kernel \<Rightarrow> byte list \<Rightarrow> 'a \<Rightarrow> 'w host \<Rightarrow> ('a \<times> 'w host) res" where
  "call_function V E io K func_name a h =
     (if has_inlines V \<and> take 7 func_name = str ''inline-''
      then bind_res (scl_call_inlines E io K func_name h) (\<lambda>h'. Inr (a, h'))
      else case func_table V func_name of
        Some f \<Rightarrow> f a h
      | None \<Rightarrow> Inr (a, h\<lparr>hscl := upd_conn (out_packet_opcode_update (\<lambda>_. SCL_FERROR)) (hscl h)\<rparr>))"

definition exit_suvlet :: "('a, 'w) suvlet \<Rightarrow> c_int \<Rightarrow> 'a \<Rightarrow> 'w host \<Rightarrow> ('a, 'w) served res" where
  "exit_suvlet V code a h = bind_res (at_exit V a (fs h)) (\<lambda>fs'. Inr (Exited code a (h\<lparr>fs := fs'\<rparr>)))"

definition suva_get_request ::
  "('a, 'w) suvlet \<Rightarrow> libc \<Rightarrow> 'w scl_io \<Rightarrow> kernel \<Rightarrow> 'a \<Rightarrow> 'w host \<Rightarrow> ('a, 'w) served res" where
  "suva_get_request V E io K a h =
     bind_res (scl_read_packet E io (hscl h)) (\<lambda>(_, st1).
       if in_packet_opcode (conn st1) = SCL_DSUVLET
       then bind_res (deconstructor V a (fs h)) (\<lambda>(a', fs'). exit_suvlet V 0 a' (h\<lparr>hscl := st1, fs := fs'\<rparr>))
       else if in_packet_opcode (conn st1) \<noteq> SCL_FCALL
       then bind_res (scl_throw_error E io 1 (Some (str ''Expected: SCL_FCALL'')) st1) (\<lambda>st2.
              if throw_exits V then exit_suvlet V 1 a (h\<lparr>hscl := st2\<rparr>) else Inr (Running a (h\<lparr>hscl := st2\<rparr>)))
       else bind_res (get_str E st1) (\<lambda>((_, func_name), st2).
              case func_name of
                None \<Rightarrow> Inl Null_Deref
              | Some f \<Rightarrow> bind_res (call_function V E io K f a (h\<lparr>hscl := st2\<rparr>)) (\<lambda>(a', h'). Inr (Running a' h'))))"

text \<open>\<open>for(;;) suva_get_request();\<close> for at most \<open>n\<close> rounds.\<close>

fun serve_requests ::
  "nat \<Rightarrow> ('a, 'w) suvlet \<Rightarrow> libc \<Rightarrow> 'w scl_io \<Rightarrow> kernel \<Rightarrow> 'a \<Rightarrow> 'w host \<Rightarrow> ('a, 'w) served res" where
  "serve_requests 0 V E io K a h = Inr (Running a h)"
| "serve_requests (Suc n) V E io K a h =
     bind_res (suva_get_request V E io K a h) (\<lambda>r. case r of
       Exited code a' h' \<Rightarrow> Inr r
     | Running a' h' \<Rightarrow> serve_requests n V E io K a' h')"

text \<open>The states a suvlet comes to, one request after the other; after its exit there is none.\<close>

inductive reachable ::
  "('a, 'w) suvlet \<Rightarrow> libc \<Rightarrow> 'w scl_io \<Rightarrow> kernel \<Rightarrow> 'a \<Rightarrow> 'w host \<Rightarrow> ('a, 'w) served \<Rightarrow> bool" for V E io K a0 h0 where
  at_start: "reachable V E io K a0 h0 (Running a0 h0)"
| one_more: "reachable V E io K a0 h0 (Running a h) \<Longrightarrow> suva_get_request V E io K a h = Inr s \<Longrightarrow> reachable V E io K a0 h0 s"

inductive_cases reachable_running: "reachable V E io K a0 h0 (Running a h)"

lemma reachable_serve_requests:
  "reachable V E io K a0 h0 (Running a h) \<Longrightarrow> serve_requests n V E io K a h = Inr s \<Longrightarrow> reachable V E io K a0 h0 s"
proof (induction n arbitrary: a h)
  case (Suc n)
  then obtain r where r: "suva_get_request V E io K a h = Inr r" by (auto simp: res_iff)
  then have "reachable V E io K a0 h0 r" by (rule one_more [OF Suc.prems(1)])
  with Suc.IH Suc.prems(2) r show ?case by (cases r) auto
qed simp

text \<open>What holds at the start and is kept by every request that does not end the suvlet.\<close>

lemma reachable_invariant:
  assumes "reachable V E io K a0 h0 (Running a h)" and "P a0"
    and "\<And>a h a' h'. suva_get_request V E io K a h = Inr (Running a' h') \<Longrightarrow> P a \<Longrightarrow> P a'"
  shows "P a"
proof -
  have "reachable V E io K a0 h0 s \<Longrightarrow> s = Running a h \<Longrightarrow> P a" for s a h
    by (induction s arbitrary: a h rule: reachable.induct) (use assms(2,3) in auto)
  with assms(1) show ?thesis by blast
qed

text \<open>
  The end of every function of a suvlet: the packet is freed and one value sent. A string it returns
  may be NULL.
\<close>

definition skel_reply ::
  "libc \<Rightarrow> 'w scl_io \<Rightarrow> object \<times> scl_type \<times> c_int \<Rightarrow> 'w host \<Rightarrow> 'w host res" where
  "skel_reply E io item h = bind_res (free_packet E h) (reply E io [item])"

text \<open>The arguments of a function that are strings, and the strings a function returns.\<close>

definition text_item :: "byte list \<Rightarrow> object \<times> scl_type \<times> c_int" where
  "text_item t = (c_str_obj (Some t), SCL_STRING, 1)"

fun get_args :: "nat \<Rightarrow> libc \<Rightarrow> 'w host \<Rightarrow> (byte list option list \<times> 'w host) res" where
  "get_args 0 E h = Inr ([], h)"
| "get_args (Suc n) E h =
     bind_res (get_str E (hscl h)) (\<lambda>((_, s), st).
     bind_res (get_args n E (h\<lparr>hscl := st\<rparr>)) (\<lambda>(ss, h'). Inr (s # ss, h')))"

section \<open>The suvlets without functions of their own\<close>

definition blank_suvlet :: "('a, 'w) suvlet" where
  "blank_suvlet = \<lparr>func_table = (\<lambda>_. None), has_inlines = True, throw_exits = True, deconstructor = (\<lambda>a files. Inr (a, files)), at_exit = (\<lambda>a files. Inr files)\<rparr>"

definition snort_suvlet :: "('a, 'w) suvlet" where
  "snort_suvlet = \<lparr>func_table = (\<lambda>_. None), has_inlines = True, throw_exits = True, deconstructor = (\<lambda>a files. Inr (a, files)), at_exit = (\<lambda>a files. Inr files)\<rparr>"

end
