(* ===== verification/Inlines_Server.thy ===== *)
theory Inlines_Server
  imports Scl_Inlines Suva_Conn_Props
begin

text \<open>
  The remote side as a server: \<open>serve\<close> is what a request does to the files and the open file and
  what it answers; each handler of \<open>Scl_Inlines\<close> implements it on packets.
\<close>

section \<open>The abstract server\<close>

datatype request =
    Open_Req "byte list option" "byte list"
  | Close_Req
  | Get_Req c_int
  | Put_Req "byte list"
  | Size_Req "byte list option"
  | Mode_Req "byte list option" c_int
  | Info_Req "byte list"

fun req_name :: "request \<Rightarrow> string" where
  "req_name (Open_Req _ _) = ''inline-open_file''"
| "req_name Close_Req = ''inline-close_file''"
| "req_name (Get_Req _) = ''inline-get_data''"
| "req_name (Put_Req _) = ''inline-put_data''"
| "req_name (Size_Req _) = ''inline-get_fsize_mode''"
| "req_name (Mode_Req _ _) = ''inline-set_fmode''"
| "req_name (Info_Req _) = ''inline-get_info''"

fun req_args :: "request \<Rightarrow> (object \<times> scl_type \<times> c_int) list" where
  "req_args (Open_Req name mode) = [(c_str_obj name, SCL_STRING, 1), (c_str_obj (Some mode), SCL_STRING, 1)]"
| "req_args Close_Req = []"
| "req_args (Get_Req n) = [(c_int_obj n, SCL_INT, 1)]"
| "req_args (Put_Req bs) = [(Block bs, SCL_DATA, of_nat (length bs))]"
| "req_args (Size_Req name) = [(c_str_obj name, SCL_STRING, 1)]"
| "req_args (Mode_Req name mode) = [(c_str_obj name, SCL_STRING, 1), (c_int_obj mode, SCL_INT, 1)]"
| "req_args (Info_Req var) = [(c_str_obj (Some var), SCL_STRING, 1)]"

text \<open>A name arrives as NULL when it is empty.\<close>

definition arrived :: "byte list option \<Rightarrow> byte list option" where
  "arrived name = (if name = Some [] then None else name)"

fun serve :: "kernel \<Rightarrow> 'w host \<Rightarrow> request \<Rightarrow> files \<times> handle \<times> (object \<times> scl_type \<times> c_int) list" where
  "serve K h (Open_Req name mode) =
     (case fopen K (fs h) (arrived name) mode of
        (Some s, fs') \<Rightarrow> (fs', Open_File s, [(c_int_obj 0, SCL_INT, 1), (Null, SCL_STRING, 1)])
      | (None, fs') \<Rightarrow> (fs', No_File, [(c_int_obj 1, SCL_INT, 1), (c_str_obj (Some (err_str K)), SCL_STRING, 1)]))"
| "serve K h Close_Req = (fs h, Closed_File, [])"
| "serve K h (Get_Req n) =
     (case inline_file h of
        Open_File s \<Rightarrow>
          let (bs, s') = fread (fs h) s (unat n)
          in (fs h, Open_File s', [(if bs = [] then Null else Block bs, SCL_DATA, of_nat (length bs))])
      | f \<Rightarrow> (fs h, f, []))"
| "serve K h (Put_Req bs) =
     (case inline_file h of
        Open_File s \<Rightarrow>
          let (done, s', fs') = fwrite_item K (fs h) s bs
          in (fs', Open_File s', [(c_bool_obj (if done then 0 else 1), SCL_BOOL, 1)])
      | f \<Rightarrow> (fs h, f, []))"
| "serve K h (Size_Req name) =
     (fs h, inline_file h,
      case stat_file (fs h) (arrived name) of
        None \<Rightarrow> [(c_int_obj (-1), SCL_INT, 0), (c_int_obj (-1), SCL_INT, 0)]
      | Some f \<Rightarrow> [(c_int_obj (of_nat (length (f_bytes f))), SCL_INT, 0), (c_int_obj (and (f_mode f) 0xfff), SCL_INT, 0)])"
| "serve K h (Mode_Req name mode) =
     (let (done, fs') = chmod K (fs h) (arrived name) mode
      in (fs', inline_file h, [(c_int_obj (if done then 1 else 0), SCL_BOOL, 0)]))"
| "serve K h (Info_Req var) = (fs h, inline_file h, case info_items h var of Some items \<Rightarrow> items | None \<Rightarrow> [])"

text \<open>
  The requests a handler survives: reading, writing and closing need an open file, the mode of an opening
  and the question must not be empty, a block must have room in a packet.
\<close>

fun servable :: "'w host \<Rightarrow> request \<Rightarrow> bool" where
  "servable h (Open_Req name mode) \<longleftrightarrow> mode \<noteq> [] \<and> 0 \<notin> set mode \<and> (\<forall>s. name = Some s \<longrightarrow> 0 \<notin> set s)"
| "servable h Close_Req \<longleftrightarrow> (\<exists>s. inline_file h = Open_File s)"
| "servable h (Get_Req n) \<longleftrightarrow> (\<exists>s. inline_file h = Open_File s) \<and> 0 < unat n \<and> unat n < 2 ^ 30"
| "servable h (Put_Req bs) \<longleftrightarrow> (\<exists>s. inline_file h = Open_File s) \<and> bs \<noteq> [] \<and> length bs < 2 ^ 30"
| "servable h (Size_Req name) \<longleftrightarrow> (\<forall>s. name = Some s \<longrightarrow> 0 \<notin> set s)"
| "servable h (Mode_Req name mode) \<longleftrightarrow> (\<forall>s. name = Some s \<longrightarrow> 0 \<notin> set s)"
| "servable h (Info_Req var) \<longleftrightarrow> var \<noteq> [] \<and> 0 \<notin> set var \<and> info_items h var \<noteq> None"

section \<open>Values of a request\<close>

lemma enc_item_int: "enc_item (c_int_obj n, SCL_INT, k) = le4 n"
  by (simp add: enc_item_def encode_def scalars_def c_int_obj_def block_of_def)

lemma enc_item_str: "enc_item (c_str_obj p, SCL_STRING, k) = enc_string (map_option (\<lambda>s. s @ [0]) p) @ [0]"
  by (simp add: enc_item_def encode_def scalars_def arrays_def c_str_obj_def string_ptr_def split: option.splits)

lemma text_of_arrived:
  assumes "\<forall>s. p = Some s \<longrightarrow> 0 \<notin> set s"
  shows "(if text_of (map_option (\<lambda>s. s @ [0]) p) = [] then None else Some (text_of (map_option (\<lambda>s. s @ [0]) p))) = arrived p"
proof (cases p)
  case None
  then show ?thesis by (simp add: text_of_def arrived_def)
next
  case (Some s)
  with assms have "takeWhile (\<lambda>b. b \<noteq> 0) (s @ [0]) = s" by (simp add: takeWhile_append)
  with Some show ?thesis by (simp add: text_of_def arrived_def)
qed

lemma string_ok_c_str: "string_ok (map_option (\<lambda>s. s @ [0]) p)"
  by (simp add: string_ok_def split: option.splits)

text \<open>Reading the first of the values that are left.\<close>

lemma get_int_items:
  assumes r: "reading E st bs off" and d: "drop off bs = payload ((c_int_obj n, SCL_INT, k) # items)"
  obtains j where "get_int E st = Inr (n, advance st j)" "reading E (advance st j) bs (off + 4)"
    "drop (off + 4) bs = payload items"
proof -
  from d have d': "drop off bs = le4 n @ payload items" by (simp add: payload_def enc_item_int)
  have "drop (off + 4) bs = drop 4 (drop off bs)" by (simp add: add.commute)
  then have "drop (off + 4) bs = payload items" unfolding d' by simp
  with get_int_reading [OF r d'] show thesis by (rule that)
qed

lemma get_str_items:
  assumes r: "reading E st bs off" and d: "drop off bs = payload ((c_str_obj p, SCL_STRING, k) # items)"
    and p: "\<forall>s. p = Some s \<longrightarrow> 0 \<notin> set s"
  obtains q j o' where "get_str E st = Inr ((q, arrived p), advance st j)" "reading E (advance st j) bs o'"
    "drop o' bs = payload items"
proof -
  let ?p = "map_option (\<lambda>s. s @ [0]) p"
  from d have d': "drop off bs = enc_string ?p @ 0 # payload items" by (simp add: payload_def enc_item_str)
  from get_str_reading [OF r d' string_ok_c_str] obtain q where
    q: "get_str E st = Inr ((q, arrived p), advance st (of_nat (length (enc_string ?p) + 1)))"
      "reading E (advance st (of_nat (length (enc_string ?p) + 1))) bs (off + (length (enc_string ?p) + 1))"
    unfolding text_of_arrived [OF p] by blast
  have "drop (off + (length (enc_string ?p) + 1)) bs = drop (length (enc_string ?p) + 1) (drop off bs)"
    by (simp add: add.commute)
  also have "\<dots> = payload items" unfolding d' by simp
  finally show thesis using q by (intro that)
qed

lemma get_data_items:
  assumes r: "reading E st bs off" and d: "drop off bs = payload ((Block ds, SCL_DATA, of_nat (length ds)) # items)"
    and len: "length ds < 2 ^ 31"
  obtains q j o' where "get_data E st = Inr ((q, of_nat (length ds)), advance st j)" "reading E (advance st j) bs o'"
    "drop o' bs = payload items" "load (advance st j) q (length ds) = Inr ds"
proof -
  let ?n = "of_nat (length ds) :: c_int"
  have u: "unat ?n = length ds" using len by (simp add: unat_of_nat)
  have e: "encode (Block ds) SCL_DATA ?n = le4 ?n @ ds"
    using u by (simp add: encode_def scalars_def arrays_def block_of_def)
  have v: "val_ok (Block ds) SCL_DATA ?n" using u len by (simp add: val_ok_def scalars_def arrays_def)
  have d': "drop off bs = encode (Block ds) SCL_DATA ?n @ payload items" using d by (simp add: payload_def enc_item_def)
  from scl_get_value_received [OF r v _ d'] obtain q cnt st' where
    g: "scl_get_value E st SCL_DATA True = Inr (q, cnt, st')" "received st' q cnt (Block ds) SCL_DATA ?n"
      "reading E st' bs (off + length (encode (Block ds) SCL_DATA ?n))" "st' = advance st (of_nat (length (encode (Block ds) SCL_DATA ?n)))"
    by blast
  have "drop (off + length (encode (Block ds) SCL_DATA ?n)) bs = drop (length (encode (Block ds) SCL_DATA ?n)) (drop off bs)"
    by (simp add: add.commute)
  then have "drop (off + length (encode (Block ds) SCL_DATA ?n)) bs = payload items" unfolding d' by simp
  moreover have "cnt = Some ?n" "load st' q (length ds) = Inr ds"
    using g(2) u by (auto simp: received_def scalars_def arrays_def block_of_def)
  ultimately show thesis using g by (intro that) (auto simp: get_data_def)
qed

section \<open>The handlers implement the server\<close>

lemma alloc_malloc: "mem_alloc E c t n = Inr (p, c') \<Longrightarrow> p \<noteq> 0 \<Longrightarrow> malloc E c (unat n) \<noteq> None"
  by (cases "mem_find_type E c t") (auto simp: mem_alloc_def split: if_splits option.splits)

lemma ample_malloc: "ample E T k c \<Longrightarrow> 0 < k \<Longrightarrow> t \<in> T \<Longrightarrow> unat (n :: c_uint) < 2 ^ 31 \<Longrightarrow> malloc E c (unat n) \<noteq> None"
proof -
  assume a: "ample E T k c" "0 < k" "t \<in> T" "unat n < 2 ^ 31"
  obtain p c' where "mem_alloc E c t n = Inr (p, c')" "p \<noteq> 0" using ample_alloc [OF a(1,3,4,2)] .
  then show ?thesis by (rule alloc_malloc)
qed

lemma free_packet_idle:
  assumes "idle E T (hscl h)" and "ample E T k (mem (hscl h))" and "1 \<le> k"
  obtains m where "free_packet E h = Inr (h\<lparr>hscl := (hscl h)\<lparr>mem := m\<rparr>\<rparr>)" "idle E T ((hscl h)\<lparr>mem := m\<rparr>)" "ample E T (k - 1) m"
  using scl_free_packet_mem_idle [OF assms] by (auto simp: free_packet_def)

lemma val_ok_more: "val_ok Null SCL_STRING k" "val_ok (c_int_obj n) SCL_BOOL k" "val_ok (c_bool_obj b) SCL_BOOL k"
  by (simp_all add: val_ok_def scalars_def arrays_def c_int_obj_def c_bool_obj_def le4_def)

lemma serve_items_ok: "servable h r \<Longrightarrow> serve K h r = (fs', f', items) \<Longrightarrow> list_all item_ok items"
proof (cases r)
  case (Get_Req n)
  assume "servable h r" "serve K h r = (fs', f', items)"
  with Get_Req obtain s where s: "inline_file h = Open_File s" "unat n < 2 ^ 30"
      "items = [(if fst (fread (fs h) s (unat n)) = [] then Null else Block (fst (fread (fs h) s (unat n))), SCL_DATA,
         of_nat (length (fst (fread (fs h) s (unat n)))))]"
    by (auto split: prod.splits)
  have "length (fst (fread (fs h) s (unat n))) \<le> unat n" by (simp add: fread_def Let_def split: option.splits)
  with s(2) have "unat (of_nat (length (fst (fread (fs h) s (unat n)))) :: c_int) = length (fst (fread (fs h) s (unat n)))"
    "length (fst (fread (fs h) s (unat n))) < 2 ^ 31" by (simp_all add: unat_of_nat)
  then show ?thesis by (simp add: s(3) item_ok_def val_ok_def scalars_def arrays_def)
qed (auto simp: item_ok_def val_ok_int val_ok_str val_ok_more info_items_def Let_def
    split: option.splits prod.splits handle.splits if_splits)

context scl_stream
begin

lemma reply_idle:
  assumes "idle E T (hscl h)" and "list_all item_ok items" and "ample E T k (mem (hscl h))" "4 \<le> k" "length items \<le> 2"
    and "ok (world (hscl h))" and "16 + length (payload items) \<le> room (world (hscl h))"
  obtains st' where "reply E io items h = Inr (h\<lparr>hscl := st'\<rparr>)"
    "wrote (world (hscl h)) (packet SCL_FRETURN (payload items)) (world st')" "idle E T st'" "ample E T (k - 4) (mem st')"
    "same_conn (hscl h) st'"
proof -
  have "2 * length items \<le> k" using assms(4,5) by simp
  from send_packet_wrote [OF assms(1-3) this assms(6,7), of SCL_FRETURN] obtain st' where
    st': "send_packet E io SCL_FRETURN items (hscl h) = Inr st'" "idle E T st'" "keeps_rest E (hscl h) st'"
      "wrote (world (hscl h)) (packet SCL_FRETURN (payload items)) (world st')" "ample E T (k - 2 * length items) (mem st')" by blast
  have "ample E T (k - 4) (mem st')" using st'(5) by (rule ample_le) (use assms(5) in simp)
  with st' show thesis by (intro that) (auto simp: reply_def keeps_rest_same_conn)
qed

end

text \<open>The state after a request was answered.\<close>

lemma small_nonneg: "unat (n :: c_int) < 2 ^ 31 \<Longrightarrow> \<not> n <s 0"
  by (simp add: word_sless_alt sint_small del: of_nat_unat)

lemma host_same: "h\<lparr>fs := fs h, inline_file := inline_file h, hscl := st\<rparr> = h\<lparr>hscl := st\<rparr>"
  by (cases h) simp

lemma host_same_fs: "h\<lparr>fs := fs h, inline_file := f, hscl := st\<rparr> = h\<lparr>inline_file := f, hscl := st\<rparr>"
  by (cases h) simp

lemma host_same_file: "h\<lparr>fs := f, inline_file := inline_file h, hscl := st\<rparr> = h\<lparr>fs := f, hscl := st\<rparr>"
  by (cases h) simp

lemma host_order:
  "h\<lparr>hscl := st, fs := a\<rparr> = h\<lparr>fs := a, hscl := st\<rparr>" "h\<lparr>hscl := st, inline_file := f\<rparr> = h\<lparr>inline_file := f, hscl := st\<rparr>"
  "h\<lparr>inline_file := f, fs := a\<rparr> = h\<lparr>fs := a, inline_file := f\<rparr>"
  by (cases h, simp)+

lemmas host_upd = host_same host_same_fs host_same_file host_order

context scl_stream
begin

definition answered ::
  "libc \<Rightarrow> c_uint set \<Rightarrow> nat \<Rightarrow> 'w host \<Rightarrow> files \<times> handle \<times> (object \<times> scl_type \<times> c_int) list \<Rightarrow> 'w host \<Rightarrow> bool" where
  "answered E T k h = (\<lambda>(fs', f', items) h'. \<exists>st'. h' = h\<lparr>fs := fs', inline_file := f', hscl := st'\<rparr> \<and>
     wrote (world (hscl h)) (packet SCL_FRETURN (payload items)) (world st') \<and> idle E T st' \<and> ample E T k (mem st') \<and>
     same_conn (hscl h) st')"

lemma answer_then_free:
  assumes "idle E T st1" and "list_all item_ok items" and "ample E T (5 + k) (mem st1)" "length items \<le> 2"
    and "ok (world (hscl h))" and "16 + length (payload items) \<le> room (world (hscl h))"
    and "world st1 = world (hscl h)" "same_conn (hscl h) st1"
  shows "\<exists>h'. bind_res (reply E io items (h\<lparr>fs := fs', inline_file := f', hscl := st1\<rparr>)) (free_packet E) = Inr h' \<and> answered E T k h (fs', f', items) h'"
proof -
  define h1 where "h1 = h\<lparr>fs := fs', inline_file := f', hscl := st1\<rparr>"
  have h1: "hscl h1 = st1" "world (hscl h1) = world (hscl h)" using assms(7) by (simp_all add: h1_def)
  have p: "idle E T (hscl h1)" "ample E T (5 + k) (mem (hscl h1))" "ok (world (hscl h1))"
    "16 + length (payload items) \<le> room (world (hscl h1))" using assms by (simp_all add: h1)
  obtain st2 where st2: "reply E io items h1 = Inr (h1\<lparr>hscl := st2\<rparr>)" "idle E T st2" "ample E T (5 + k - 4) (mem st2)"
    "wrote (world (hscl h1)) (packet SCL_FRETURN (payload items)) (world st2)" "same_conn (hscl h1) st2"
    by (rule reply_idle [OF p(1) assms(2) p(2) _ assms(4) p(3,4)]) simp
  have "idle E T (hscl (h1\<lparr>hscl := st2\<rparr>))" "ample E T (1 + k) (mem (hscl (h1\<lparr>hscl := st2\<rparr>)))" "1 \<le> 1 + k" using st2 by simp_all
  then obtain m where m: "free_packet E (h1\<lparr>hscl := st2\<rparr>) = Inr (h1\<lparr>hscl := st2\<lparr>mem := m\<rparr>\<rparr>)"
      "idle E T (st2\<lparr>mem := m\<rparr>)" "ample E T (1 + k - 1) m"
    by (rule free_packet_idle) simp
  then show ?thesis
    using st2 assms(7,8) by (auto simp: answered_def same_conn_def h1_def intro!: exI [of _ "st2\<lparr>mem := m\<rparr>"])
qed

lemma free_then_answer:
  assumes "idle E T st1" and "list_all item_ok items" and "ample E T (5 + k) (mem st1)" "length items \<le> 2"
    and "ok (world (hscl h))" and "16 + length (payload items) \<le> room (world (hscl h))"
    and "world st1 = world (hscl h)" "same_conn (hscl h) st1"
  shows "\<exists>h'. bind_res (free_packet E (h\<lparr>fs := fs', inline_file := f', hscl := st1\<rparr>)) (reply E io items) = Inr h' \<and> answered E T k h (fs', f', items) h'"
proof -
  define h1 where "h1 = h\<lparr>fs := fs', inline_file := f', hscl := st1\<rparr>"
  have h1: "hscl h1 = st1" "world (hscl h1) = world (hscl h)" using assms(7) by (simp_all add: h1_def)
  have "idle E T (hscl h1)" "ample E T (5 + k) (mem (hscl h1))" "1 \<le> 5 + k" using assms(1,3) by (simp_all add: h1)
  then obtain m where m: "free_packet E h1 = Inr (h1\<lparr>hscl := (hscl h1)\<lparr>mem := m\<rparr>\<rparr>)"
      "idle E T ((hscl h1)\<lparr>mem := m\<rparr>)" "ample E T (5 + k - 1) m"
    by (rule free_packet_idle)
  let ?h2 = "h1\<lparr>hscl := (hscl h1)\<lparr>mem := m\<rparr>\<rparr>"
  have "idle E T (hscl ?h2)" "ample E T (4 + k) (mem (hscl ?h2))" "ok (world (hscl ?h2))"
    "16 + length (payload items) \<le> room (world (hscl ?h2))" using m assms(5,6) h1(2) by simp_all
  note h2 = this
  obtain st2 where "reply E io items ?h2 = Inr (?h2\<lparr>hscl := st2\<rparr>)" "idle E T st2" "ample E T (4 + k - 4) (mem st2)"
    "wrote (world (hscl ?h2)) (packet SCL_FRETURN (payload items)) (world st2)" "same_conn (hscl ?h2) st2"
    by (rule reply_idle [OF h2(1) assms(2) h2(2) _ assms(4) h2(3,4)]) simp
  with m(1) show ?thesis
    using assms(7,8) by (auto simp: answered_def same_conn_def h1_def intro!: exI [of _ st2])
qed

text \<open>Every handler does on packets what \<open>serve\<close> says.\<close>

lemma scl_call_inlines_answers:
  assumes r: "reading E (hscl h) bs off" and d: "drop off bs = payload (req_args req)" and i: "idle E T (hscl h)"
    and s: "servable h req" and am: "ample E T (5 + k) (mem (hscl h))" and w: "ok (world (hscl h))"
    and room: "16 + length (payload (snd (snd (serve K h req)))) \<le> room (world (hscl h))"
  shows "\<exists>h'. scl_call_inlines E io K (str (req_name req)) h = Inr h' \<and> answered E T k h (serve K h req) h'"
proof -
  obtain fs' f' items where sv: "serve K h req = (fs', f', items)" by (cases "serve K h req") auto
  have ok: "list_all item_ok items" using s sv by (rule serve_items_ok)
  have room: "16 + length (payload items) \<le> room (world (hscl h))" using room sv by simp
  show ?thesis
  proof (cases req)
    case (Size_Req name)
    from d have "drop off bs = payload ((c_str_obj name, SCL_STRING, 1) # [])" by (simp add: Size_Req)
    then obtain q j o' where g: "get_str E (hscl h) = Inr ((q, arrived name), advance (hscl h) j)"
      by (rule get_str_items [OF r]) (use s in \<open>simp_all add: Size_Req\<close>)
    have "\<exists>h'. bind_res (reply E io items (h\<lparr>fs := fs', inline_file := f', hscl := advance (hscl h) j\<rparr>)) (free_packet E) = Inr h' \<and>
        answered E T k h (fs', f', items) h'"
      by (rule answer_then_free) (use i ok am w room sv in \<open>auto simp: Size_Req idle_advance same_conn_def split: option.splits\<close>)
    then show ?thesis using g sv
      by (auto simp: Size_Req scl_call_inlines_def scl_il_r_get_fsize_mode_def Let_def str_def host_upd split: option.splits)
  next
    case (Mode_Req name mode)
    from d have "drop off bs = payload ((c_str_obj name, SCL_STRING, 1) # [(c_int_obj mode, SCL_INT, 1)])" by (simp add: Mode_Req)
    then obtain q j o' where g: "get_str E (hscl h) = Inr ((q, arrived name), advance (hscl h) j)"
        "reading E (advance (hscl h) j) bs o'" "drop o' bs = payload ((c_int_obj mode, SCL_INT, 1) # [])"
      by (rule get_str_items [OF r]) (use s in \<open>simp_all add: Mode_Req\<close>)
    obtain j' where g2: "get_int E (advance (hscl h) j) = Inr (mode, advance (advance (hscl h) j) j')"
      by (rule get_int_items [OF g(2,3)])
    let ?st = "advance (advance (hscl h) j) j'"
    have "\<exists>h'. bind_res (reply E io items (h\<lparr>fs := fs', inline_file := f', hscl := ?st\<rparr>)) (free_packet E) = Inr h' \<and>
        answered E T k h (fs', f', items) h'"
      by (rule answer_then_free) (use i ok am w room sv in \<open>auto simp: Mode_Req idle_def queue_def queue_at_def same_conn_def Let_def split: prod.splits\<close>)
    then show ?thesis using g(1) g2 sv
      by (auto simp: Mode_Req scl_call_inlines_def scl_il_r_set_fmode_def Let_def str_def host_upd split: prod.splits)
  next
    case (Open_Req name mode)
    from d have "drop off bs = payload ((c_str_obj name, SCL_STRING, 1) # [(c_str_obj (Some mode), SCL_STRING, 1)])" by (simp add: Open_Req)
    then obtain q j o' where g: "get_str E (hscl h) = Inr ((q, arrived name), advance (hscl h) j)"
        "reading E (advance (hscl h) j) bs o'" "drop o' bs = payload ((c_str_obj (Some mode), SCL_STRING, 1) # [])"
      by (rule get_str_items [OF r]) (use s in \<open>simp_all add: Open_Req\<close>)
    obtain q' j' where g2: "get_str E (advance (hscl h) j) = Inr ((q', arrived (Some mode)), advance (advance (hscl h) j) j')"
      by (rule get_str_items [OF g(2,3)]) (use s in \<open>simp_all add: Open_Req\<close>)
    let ?st = "advance (advance (hscl h) j) j'"
    have "\<exists>h'. bind_res (free_packet E (h\<lparr>fs := fs', inline_file := f', hscl := ?st\<rparr>)) (reply E io items) = Inr h' \<and>
        answered E T k h (fs', f', items) h'"
      by (rule free_then_answer) (use i ok am w room sv in \<open>auto simp: Open_Req idle_def queue_def queue_at_def same_conn_def split: prod.splits option.splits\<close>)
    moreover have "arrived (Some mode) = Some mode" using s by (simp add: Open_Req arrived_def)
    ultimately show ?thesis using g(1) g2 sv
      by (auto simp: Open_Req scl_call_inlines_def scl_il_r_open_file_def Let_def str_def host_upd split: prod.splits option.splits)
  next
    case Close_Req
    obtain st' where "reply E io items (h\<lparr>fs := fs h, inline_file := Closed_File\<rparr>) = Inr (h\<lparr>fs := fs h, inline_file := Closed_File, hscl := st'\<rparr>)"
      "wrote (world (hscl h)) (packet SCL_FRETURN (payload items)) (world st')" "idle E T st'" "ample E T (1 + k) (mem st')" "same_conn (hscl h) st'"
      using reply_idle [of E T "h\<lparr>fs := fs h, inline_file := Closed_File\<rparr>" items "5 + k"] i ok am w room sv Close_Req by auto
    moreover from this have "ample E T k (mem st')" by (elim ample_le) simp
    ultimately show ?thesis using sv s
      by (auto simp: Close_Req scl_call_inlines_def scl_il_r_close_file_def deref_file_def answered_def str_def host_upd)
  next
    case (Get_Req n)
    from s obtain f where f: "inline_file h = Open_File f" "0 < unat n" "unat n < 2 ^ 30" by (auto simp: Get_Req)
    then have n: "n \<noteq> 0" "\<not> n <s 0" "unat n < 2 ^ 31" by (auto simp: small_nonneg)
    obtain got f2 where rd: "fread (fs h) f (unat n) = (got, f2)" by (cases "fread (fs h) f (unat n)")
    from d have "drop off bs = payload ((c_int_obj n, SCL_INT, 1) # [])" by (simp add: Get_Req)
    then obtain j where g: "get_int E (hscl h) = Inr (n, advance (hscl h) j)" by (rule get_int_items [OF r])
    let ?h0 = "h\<lparr>hscl := advance (hscl h) j\<rparr>"
    have "idle E T (hscl ?h0)" "ample E T (5 + k) (mem (hscl ?h0))" "1 \<le> 5 + k" using i am by (simp_all add: idle_advance)
    then obtain m where m: "free_packet E ?h0 = Inr (?h0\<lparr>hscl := (hscl ?h0)\<lparr>mem := m\<rparr>\<rparr>)"
        "idle E T ((hscl ?h0)\<lparr>mem := m\<rparr>)" "ample E T (5 + k - 1) m"
      by (rule free_packet_idle)
    let ?h1 = "h\<lparr>hscl := (advance (hscl h) j)\<lparr>mem := m\<rparr>, inline_file := Open_File f2\<rparr>"
    have "in_mem_id (conn (hscl h)) \<in> T" using i by (simp add: idle_def)
    from ample_malloc [OF m(3) _ this n(3)] have buf: "malloc_int E m n" using n(2) by (simp add: malloc_int_def)
    have "idle E T (hscl ?h1)" "ample E T (4 + k) (mem (hscl ?h1))" "ok (world (hscl ?h1))"
        "16 + length (payload items) \<le> room (world (hscl ?h1))" "length items \<le> 2"
      using m w room sv f(1) rd by (auto simp: Get_Req)
    then obtain st2 where "reply E io items ?h1 = Inr (?h1\<lparr>hscl := st2\<rparr>)" "idle E T st2" "ample E T (4 + k - 4) (mem st2)"
      "wrote (world (hscl ?h1)) (packet SCL_FRETURN (payload items)) (world st2)" "same_conn (hscl ?h1) st2"
      by (elim reply_idle [OF _ ok, where k = "4 + k"]) simp_all
    then show ?thesis using g m buf sv f n rd
      by (auto simp: Get_Req scl_call_inlines_def scl_il_r_get_data_def read_chunk_def deref_file_def answered_def
          str_def host_upd same_conn_def split: if_splits)
  next
    case (Put_Req ds)
    from s obtain f where f: "inline_file h = Open_File f" "ds \<noteq> []" "length ds < 2 ^ 30" by (auto simp: Put_Req)
    let ?n = "of_nat (length ds) :: c_int"
    have u: "unat ?n = length ds" using f(3) by (simp add: unat_of_nat)
    then have n: "?n \<noteq> 0" "\<not> ?n <s 0" "length ds < 2 ^ 31" using f(2,3) by (auto simp: small_nonneg simp del: of_nat_eq_0_iff)
    obtain fin f2 fs2 where wr: "fwrite_item K (fs h) f ds = (fin, f2, fs2)" by (cases "fwrite_item K (fs h) f ds") auto
    from d have "drop off bs = payload ((Block ds, SCL_DATA, of_nat (length ds)) # [])" by (simp add: Put_Req)
    then obtain q j where g: "get_data E (hscl h) = Inr ((q, ?n), advance (hscl h) j)" "load (advance (hscl h) j) q (length ds) = Inr ds"
      by (rule get_data_items [OF r _ n(3)])
    then have "put_item K (advance (hscl h) j) (fs h) (inline_file h) q ?n = Inr (fin, fs2, Open_File f2)"
      using f n u wr by (simp add: put_item_def deref_file_def item_bytes_def)
    moreover have "\<exists>h'. bind_res (free_packet E (h\<lparr>fs := fs', inline_file := f', hscl := advance (hscl h) j\<rparr>)) (reply E io items) = Inr h' \<and>
        answered E T k h (fs', f', items) h'"
      by (rule free_then_answer) (use i ok am w room sv f wr in \<open>auto simp: Put_Req idle_advance same_conn_def\<close>)
    ultimately show ?thesis using g sv f wr
      by (auto simp: Put_Req scl_call_inlines_def scl_il_r_put_data_def str_def host_upd)
  next
    case (Info_Req var)
    from d have "drop off bs = payload ((c_str_obj (Some var), SCL_STRING, 1) # [])" by (simp add: Info_Req)
    then obtain q j o' where g: "get_str E (hscl h) = Inr ((q, arrived (Some var)), advance (hscl h) j)"
      by (rule get_str_items [OF r]) (use s in \<open>simp_all add: Info_Req\<close>)
    let ?st = "upd_conn (out_packet_opcode_update (\<lambda>_. SCL_FRETURN)) (advance (hscl h) j)"
    have "\<exists>h'. bind_res (reply E io items (h\<lparr>fs := fs', inline_file := f', hscl := ?st\<rparr>)) (free_packet E) = Inr h' \<and>
        answered E T k h (fs', f', items) h'"
      by (rule answer_then_free) (use i ok am w room sv in \<open>auto simp: Info_Req idle_def queue_def queue_at_def same_conn_def info_items_def split: if_splits\<close>)
    moreover have "arrived (Some var) = Some var" using s by (simp add: Info_Req arrived_def)
    moreover have "info_items (h\<lparr>hscl := st\<rparr>) var = info_items h var" for st by (simp add: info_items_def)
    ultimately show ?thesis using g sv s
      by (auto simp: Info_Req scl_call_inlines_def scl_il_r_get_info_def Let_def str_def host_upd)
  qed
qed

end

end
