(* ===== verification/Scl_Log.thy ===== *)
theory Scl_Log
  imports Scl_Writer_Props
begin

text \<open>
  Sockets with a log. \<open>logged_io\<close> is the socket input and output of \<open>Scl_IO\<close>, and notes every byte it reads and every byte
  it writes, in order; it is an interpretation of \<open>scl_stream\<close> whose history is the log. Two logs fit together when the
  two ends can have run at the same time: \<open>joint\<close> is a step of two ends over two channels, one for each direction, where a
  byte can only be read after the other end has written it.
\<close>

datatype event = Sent byte | Received byte

type_synonym logged = "sock \<times> event list"

definition logged_io :: "logged scl_io" where
  "logged_io = \<lparr>io_read = (\<lambda>room (s, log) len.
       let (r, bs, s') = scl_read room s len in (r, bs, (s', log @ map Received bs))),
     io_write = (\<lambda>(s, log) bs.
       let (r, s') = scl_write s bs in (r, (s', log @ map Sent (drop (length (wire s)) (wire s')))))\<rparr>"

interpretation logged: scl_stream logged_io "\<lambda>w. to_read (fst w)" "\<lambda>w. wire (fst w)" "\<lambda>w. room_left (fst w)" "\<lambda>w. prompt (fst w)"
  snd "\<lambda>bs log. log @ map Received bs" "\<lambda>bs log. log @ map Sent bs"
proof
  fix w :: logged and n :: c_uint and bs :: "byte list"
  obtain s log where w: "w = (s, log)" by (cases w)
  show "\<exists>w'. io_read logged_io True w n = (sint n, take (unat n) (to_read (fst w)), w') \<and>
      to_read (fst w') = drop (unat n) (to_read (fst w)) \<and> wire (fst w') = wire (fst w) \<and> room_left (fst w') = room_left (fst w) \<and>
      prompt (fst w') \<and> snd w' = snd w @ map Received (take (unat n) (to_read (fst w)))"
    if "prompt (fst w)" "unat n \<le> length (to_read (fst w))"
    using sockets.read_law [of s n] that by (auto simp: w sock_io_def logged_io_def)
  show "\<exists>w'. io_write logged_io w bs = (int (length bs), w') \<and> wire (fst w') = wire (fst w) @ bs \<and>
      to_read (fst w') = to_read (fst w) \<and> room_left (fst w') = room_left (fst w) - length bs \<and> prompt (fst w') \<and>
      snd w' = snd w @ map Sent bs"
    if "prompt (fst w)" "length bs \<le> room_left (fst w)"
    using sockets.write_law [of s bs] that by (auto simp: w sock_io_def logged_io_def)
qed simp_all

text \<open>The log does not change what is read and written.\<close>

lemma logged_io_sock:
  "io_read logged_io room (s, log) len = (case io_read sock_io room s len of (r, bs, s') \<Rightarrow> (r, bs, (s', log @ map Received bs)))"
  "fst (io_write logged_io (s, log) bs) = fst (io_write sock_io s bs)"
  "fst (snd (io_write logged_io (s, log) bs)) = snd (io_write sock_io s bs)"
  by (simp_all add: logged_io_def sock_io_def split: prod.splits)

section \<open>Two ends\<close>

text \<open>The events still to come at the two ends, and the bytes under way from the first to the second and back.\<close>

inductive joint :: "event list \<times> event list \<times> byte list \<times> byte list \<Rightarrow> event list \<times> event list \<times> byte list \<times> byte list \<Rightarrow> bool" where
  first_sends: "joint (Sent b # xs, ys, up, down) (xs, ys, up @ [b], down)"
| first_receives: "joint (Received b # xs, ys, up, b # down) (xs, ys, up, down)"
| second_sends: "joint (xs, Sent b # ys, up, down) (xs, ys, up, down @ [b])"
| second_receives: "joint (xs, Received b # ys, b # up, down) (xs, ys, up, down)"

inductive_cases joint_stuckE: "joint (Received b # xs, Received c # ys, [], []) z"

fun other_end :: "event \<Rightarrow> event" where
  "other_end (Sent b) = Received b"
| "other_end (Received b) = Sent b"

text \<open>A log and its mirror image run together, from empty channels to empty channels; two ends that both wait do not.\<close>

lemma joint_mirror: "joint\<^sup>*\<^sup>* (xs, map other_end xs, [], []) ([], [], [], [])"
proof (induction xs)
  case (Cons x xs)
  show ?case
  proof (cases x)
    case (Sent b)
    have "joint (Sent b # xs, Received b # map other_end xs, [], []) (xs, Received b # map other_end xs, [b], [])"
      using first_sends [of b xs _ "[]" "[]"] by simp
    moreover have "joint (xs, Received b # map other_end xs, [b], []) (xs, map other_end xs, [], [])" by (rule second_receives)
    ultimately show ?thesis using Cons.IH Sent by (simp add: converse_rtranclp_into_rtranclp)
  next
    case (Received b)
    have "joint (Received b # xs, Sent b # map other_end xs, [], []) (Received b # xs, map other_end xs, [], [b])"
      using second_sends [of "Received b # xs" b _ "[]" "[]"] by simp
    moreover have "joint (Received b # xs, map other_end xs, [], [b]) (xs, map other_end xs, [], [])" by (rule first_receives)
    ultimately show ?thesis using Cons.IH Received by (simp add: converse_rtranclp_into_rtranclp)
  qed
qed simp

lemma joint_both_wait: "joint\<^sup>*\<^sup>* (Received b # xs, Received c # ys, [], []) z \<Longrightarrow> z = (Received b # xs, Received c # ys, [], [])"
  by (erule converse_rtranclpE) (auto elim: joint_stuckE)

end
