(* ===== verification/Suvlet_Props.thy ===== *)
theory Suvlet_Props
  imports Suvlet Inlines_Server Scl_Log
begin

text \<open>
  A suvlet over a whole conversation: what the abstract server of \<open>Inlines_Server\<close> answers to a sequence of
  requests is what \<open>serve_requests\<close> sends.
\<close>

section \<open>Conversations\<close>

definition after :: "kernel \<Rightarrow> 'w host \<Rightarrow> request \<Rightarrow> 'w host" where
  "after K h r = (case serve K h r of (fs', f', _) \<Rightarrow> h\<lparr>fs := fs', inline_file := f'\<rparr>)"

fun answers :: "kernel \<Rightarrow> 'w host \<Rightarrow> request list \<Rightarrow> (object \<times> scl_type \<times> c_int) list list" where
  "answers K h [] = []"
| "answers K h (r # rs) = snd (snd (serve K h r)) # answers K (after K h r) rs"

fun all_servable :: "kernel \<Rightarrow> 'w host \<Rightarrow> request list \<Rightarrow> bool" where
  "all_servable K h [] \<longleftrightarrow> True"
| "all_servable K h (r # rs) \<longleftrightarrow> servable h r \<and> all_servable K (after K h r) rs"

definition request_payload :: "request \<Rightarrow> byte list" where
  "request_payload r = payload (call_items (req_name r) (req_args r))"

definition requests :: "request list \<Rightarrow> byte list" where
  "requests rs = concat (map (\<lambda>r. packet SCL_FCALL (request_payload r)) rs)"

definition replies :: "(object \<times> scl_type \<times> c_int) list list \<Rightarrow> byte list" where
  "replies as = concat (map (\<lambda>items. packet SCL_FRETURN (payload items)) as)"

text \<open>The connection does not matter to the server.\<close>

lemma serve_hscl [simp]: "serve K (h\<lparr>hscl := st\<rparr>) r = serve K h r"
  by (cases r) (auto simp: info_items_def split: handle.splits prod.splits option.splits)

lemma servable_hscl [simp]: "servable (h\<lparr>hscl := st\<rparr>) r = servable h r"
  by (cases r) (simp_all add: info_items_def)

lemma after_hscl [simp]: "after K (h\<lparr>hscl := st\<rparr>) r = (after K h r)\<lparr>hscl := st\<rparr>"
  by (simp add: after_def host_upd split: prod.splits)

lemma answers_hscl [simp]: "answers K (h\<lparr>hscl := st\<rparr>) rs = answers K h rs"
  by (induction rs arbitrary: h) simp_all

lemma all_servable_hscl [simp]: "all_servable K (h\<lparr>hscl := st\<rparr>) rs = all_servable K h rs"
  by (induction rs arbitrary: h) simp_all

lemma foldl_after_hscl: "foldl (after K) (h\<lparr>hscl := st\<rparr>) rs = (foldl (after K) h rs)\<lparr>hscl := st\<rparr>"
  by (induction rs arbitrary: h) simp_all

lemma req_name_inline: "take 7 (str (req_name r)) = str ''inline-''" "str (req_name r) \<noteq> []" "0 \<notin> set (str (req_name r))"
  by (cases r; simp add: str_def)+

context scl_stream
begin

text \<open>The history of a side that is asked and answers.\<close>

definition serving :: "request list \<Rightarrow> (object \<times> scl_type \<times> c_int) list list \<Rightarrow> 'h \<Rightarrow> 'h" where
  "serving rs as = fold (\<lambda>(r, items) g. gave (packet SCL_FRETURN (payload items)) (took (packet SCL_FCALL (request_payload r)) g)) (zip rs as)"

lemma serving_simps [simp]:
  "serving [] as g = g"
  "serving (r # rs) (items # as) g = serving rs as (gave (packet SCL_FRETURN (payload items)) (took (packet SCL_FCALL (request_payload r)) g))"
  by (simp_all add: serving_def)

lemma suva_get_request_serves:
  assumes i: "idle E T (hscl h)" and am: "ample E T (8 + k) (mem (hscl h))" and w: "ok (world (hscl h))"
    and inc: "incoming (world (hscl h)) = packet SCL_FCALL (request_payload r) @ more_in"
    and len: "length (request_payload r) < 2 ^ 31" and s: "servable h r" and V: "has_inlines V"
    and room: "16 + length (payload (snd (snd (serve K h r)))) \<le> room (world (hscl h))"
  shows "\<exists>st'. suva_get_request V E io K a h = Inr (Running a ((after K h r)\<lparr>hscl := st'\<rparr>)) \<and>
    idle E T st' \<and> ample E T k (mem st') \<and> ok (world st') \<and> incoming (world st') = more_in \<and>
    sent (world st') = sent (world (hscl h)) @ packet SCL_FRETURN (payload (snd (snd (serve K h r)))) \<and>
    room (world st') = room (world (hscl h)) - (16 + length (payload (snd (snd (serve K h r))))) \<and>
    hist (world st') = serving [r] [snd (snd (serve K h r))] (hist (world (hscl h)))"
proof -
  let ?name = "str (req_name r)"
  have "3 \<le> 8 + k" by simp
  from scl_read_packet_idle [OF i w inc len am this] obtain n st1 where
    st1: "scl_read_packet E io (hscl h) = Inr (n, st1)" "reading E st1 (request_payload r) 0" "idle E T st1"
      "in_packet_opcode (conn st1) = SCL_FCALL" "incoming (world st1) = more_in" "sent (world st1) = sent (world (hscl h))"
      "room (world st1) = room (world (hscl h))" "ok (world st1)" "ample E T (8 + k - 3) (mem st1)"
      "hist (world st1) = took (packet SCL_FCALL (request_payload r)) (hist (world (hscl h)))" by metis
  have "drop 0 (request_payload r) = payload ((c_str_obj (Some ?name), SCL_STRING, 1) # req_args r)"
    by (simp add: request_payload_def call_items_def)
  then obtain q j o' where g: "get_str E st1 = Inr ((q, arrived (Some ?name)), advance st1 j)"
      "reading E (advance st1 j) (request_payload r) o'" "drop o' (request_payload r) = payload (req_args r)"
    by (rule get_str_items [OF st1(2)]) (use req_name_inline in simp_all)
  let ?h = "h\<lparr>hscl := advance st1 j\<rparr>"
  have "reading E (hscl ?h) (request_payload r) o'" "idle E T (hscl ?h)" "servable ?h r" "ample E T (5 + k) (mem (hscl ?h))"
      "ok (world (hscl ?h))" "16 + length (payload (snd (snd (serve K ?h r)))) \<le> room (world (hscl ?h))"
    using g(2) st1 s room by (simp_all add: idle_advance)
  from scl_call_inlines_answers [OF this(1) g(3) this(2-6)] obtain h' where
    h': "scl_call_inlines E io K ?name ?h = Inr h'" "answered E T k ?h (serve K h r) h'" by auto
  obtain fs' f' items where sv: "serve K h r = (fs', f', items)" by (cases "serve K h r") auto
  from h'(2) obtain st' where st': "h' = ?h\<lparr>fs := fs', inline_file := f', hscl := st'\<rparr>"
      "wrote (world (advance st1 j)) (packet SCL_FRETURN (payload items)) (world st')" "idle E T st'" "ample E T k (mem st')"
    by (auto simp: answered_def sv)
  have "h' = (after K h r)\<lparr>hscl := st'\<rparr>" by (simp add: st'(1) after_def sv host_upd)
  moreover have "call_function V E io K ?name a ?h = Inr (a, h')"
    using h'(1) V req_name_inline(1) [of r] by (simp add: call_function_def)
  moreover have "arrived (Some ?name) = Some ?name" using req_name_inline(2) [of r] by (simp add: arrived_def)
  ultimately show ?thesis
    using st1 g(1) st'(3,4) wroteD [OF st'(2)] wrote_hist [OF st'(2)] sv
    by (intro exI [of _ st']) (simp add: suva_get_request_def length_packet)
qed

lemma serve_requests_serves:
  assumes "idle E T (hscl h)" and "ample E T (8 * length rs) (mem (hscl h))" and "ok (world (hscl h))"
    and "incoming (world (hscl h)) = requests rs @ more_in"
    and "\<forall>r \<in> set rs. length (request_payload r) < 2 ^ 31" and "all_servable K h rs" and "has_inlines V"
    and "length (replies (answers K h rs)) \<le> room (world (hscl h))"
  shows "\<exists>st'. serve_requests (length rs) V E io K a h = Inr (Running a ((foldl (after K) h rs)\<lparr>hscl := st'\<rparr>)) \<and>
    idle E T st' \<and> incoming (world st') = more_in \<and>
    sent (world st') = sent (world (hscl h)) @ replies (answers K h rs) \<and>
    hist (world st') = serving rs (answers K h rs) (hist (world (hscl h)))"
  using assms
proof (induction rs arbitrary: h)
  case Nil
  then show ?case by (auto simp: requests_def replies_def intro: exI [of _ "hscl h"])
next
  case (Cons r rs)
  have "ample E T (8 + 8 * length rs) (mem (hscl h))" using Cons.prems(2) by simp
  moreover have "incoming (world (hscl h)) = packet SCL_FCALL (request_payload r) @ (requests rs @ more_in)"
    using Cons.prems(4) by (simp add: requests_def)
  moreover have "16 + length (payload (snd (snd (serve K h r)))) \<le> room (world (hscl h))" "length (request_payload r) < 2 ^ 31"
      "servable h r"
    using Cons.prems(5,6,8) by (simp_all add: replies_def length_packet)
  ultimately obtain st1 where st1: "suva_get_request V E io K a h = Inr (Running a ((after K h r)\<lparr>hscl := st1\<rparr>))"
    "idle E T st1" "ample E T (8 * length rs) (mem st1)" "ok (world st1)" "incoming (world st1) = requests rs @ more_in"
    "sent (world st1) = sent (world (hscl h)) @ packet SCL_FRETURN (payload (snd (snd (serve K h r))))"
    "room (world st1) = room (world (hscl h)) - (16 + length (payload (snd (snd (serve K h r)))))"
    "hist (world st1) = serving [r] [snd (snd (serve K h r))] (hist (world (hscl h)))"
    using suva_get_request_serves [OF Cons.prems(1) _ Cons.prems(3) _ _ _ Cons.prems(7), of "8 * length rs" r] by blast
  let ?h = "(after K h r)\<lparr>hscl := st1\<rparr>"
  have "\<exists>st'. serve_requests (length rs) V E io K a ?h = Inr (Running a ((foldl (after K) ?h rs)\<lparr>hscl := st'\<rparr>)) \<and>
    idle E T st' \<and> incoming (world st') = more_in \<and> sent (world st') = sent (world (hscl ?h)) @ replies (answers K ?h rs) \<and>
    hist (world st') = serving rs (answers K ?h rs) (hist (world (hscl ?h)))"
    by (rule Cons.IH) (use st1 Cons.prems in \<open>simp_all add: replies_def length_packet\<close>)
  with st1 show ?case by (simp add: foldl_after_hscl replies_def)
qed

end

section \<open>Properties\<close>

text \<open>C2: A suvlet implements the abstract file server on packets: as long as the connection keeps up and there
  is memory, it answers a sequence of requests, split over the calls of \<open>read\<close> in any way, with what the server answers,
  one packet each and in order, and the files and the open file end as the server leaves them.\<close>

theorem suvlet_serves_conversation:
  assumes "idle E T (hscl h)" and "ample E T (8 * length rs) (mem (hscl h))" and "prompt (world (hscl h))"
    and "to_read (world (hscl h)) = requests rs @ more_in"
    and "\<forall>r \<in> set rs. length (request_payload r) < 2 ^ 31" and "all_servable K h rs"
    and "length (replies (answers K h rs)) \<le> room_left (world (hscl h))"
  shows "\<exists>st'. serve_requests (length rs) blank_suvlet E sock_io K a h = Inr (Running a ((foldl (after K) h rs)\<lparr>hscl := st'\<rparr>)) \<and>
    idle E T st' \<and> to_read (world st') = more_in \<and>
    wire (world st') = wire (world (hscl h)) @ replies (answers K h rs)"
  using sockets.serve_requests_serves [OF assms(1-6) _ assms(7), of blank_suvlet a] by (auto simp: blank_suvlet_def)

text \<open>A suvlet with one file, and the requests that read it.\<close>

definition sample_kernel :: kernel where
  "sample_kernel = \<lparr>denied = (\<lambda>_. False), full = (\<lambda>_ _. False), new_mode = 0x81a4, err_str = str ''No such file''\<rparr>"

definition sample_files :: files where
  "sample_files = [[102] \<mapsto> \<lparr>f_bytes = [104, 105], f_mode = 0x81a4\<rparr>]"

definition sample_host :: "'w scl \<Rightarrow> 'w host" where
  "sample_host st = \<lparr>hscl = st, fs = sample_files, inline_file = No_File, suvlet_version = 6, cwd = str ''/'', pid = 17\<rparr>"

definition sample_requests :: "request list" where
  "sample_requests = [Open_Req (Some [102]) [114], Get_Req 10, Close_Req]"

lemma sample_conversation:
  "all_servable sample_kernel (sample_host st) sample_requests"
  "answers sample_kernel (sample_host st) sample_requests =
     [[(c_int_obj 0, SCL_INT, 1), (Null, SCL_STRING, 1)], [(Block [104, 105], SCL_DATA, 2)], []]"
  "inline_file (foldl (after sample_kernel) (sample_host st) sample_requests) = Closed_File"
  by (simp_all add: sample_requests_def after_def sample_host_def sample_kernel_def sample_files_def fopen_def Let_def
      arrived_def fread_def)

lemma sample_lengths:
  "\<forall>r \<in> set sample_requests. length (request_payload r) < 2 ^ 31"
  "length (replies [[(c_int_obj 0, SCL_INT, 1), (Null, SCL_STRING, 1)], [(Block [104, 105], SCL_DATA, 2)], []]) \<le> 10004"
  by (simp_all add: sample_requests_def request_payload_def call_items_def replies_def length_packet payload_def enc_item_def
      encode_def scalars_def arrays_def c_int_obj_def c_str_obj_def block_of_def enc_string_def string_ptr_def text_of_def str_def)

lemma suvlet_serves_conversation_witness:
  "\<exists>st h' :: sock host. serve_requests 3 blank_suvlet large_libc sock_io sample_kernel () (sample_host st) = Inr (Running () h') \<and>
     inline_file h' = Closed_File \<and>
     wire (world (hscl h')) = replies [[(c_int_obj 0, SCL_INT, 1), (Null, SCL_STRING, 1)], [(Block [104, 105], SCL_DATA, 2)], []]"
proof -
  have "requests sample_requests \<noteq> []" 
    using packet_nonempty [of SCL_FCALL _ "[]"] by (simp add: requests_def sample_requests_def)
  then obtain T and s :: "sock session" where s: "idle large_libc T (scl s)" "ample large_libc T 900 (mem (scl s))"
    "world (scl s) = dialled (requests sample_requests)" by (rule sample_session)
  let ?h = "sample_host (scl s)"
  have l: "length sample_requests = 3" by (simp add: sample_requests_def)
  have 1: "idle large_libc T (hscl ?h)" "ample large_libc T (8 * length sample_requests) (mem (hscl ?h))"
    using s ample_le [OF s(2), of 24] by (simp_all add: sample_host_def l)
  have 2: "prompt (world (hscl ?h))" "to_read (world (hscl ?h)) = requests sample_requests @ []"
    using s(3) \<open>requests sample_requests \<noteq> []\<close> by (simp_all add: sample_host_def dialled)
  have 3: "length (replies (answers sample_kernel ?h sample_requests)) \<le> room_left (world (hscl ?h))"
    unfolding sample_conversation using sample_lengths(2) s(3) by (simp add: sample_host_def dialled)
  from suvlet_serves_conversation [where a = "()", OF 1 2 sample_lengths(1) sample_conversation(1) 3] obtain st' where
    "serve_requests 3 blank_suvlet large_libc sock_io sample_kernel () ?h =
       Inr (Running () ((foldl (after sample_kernel) ?h sample_requests)\<lparr>hscl := st'\<rparr>))"
    "wire (world st') = replies (answers sample_kernel ?h sample_requests)" unfolding l using s(3) by (auto simp: sample_host_def dialled_def)
  then show ?thesis
    by (intro exI [of _ "scl s"] exI [of _ "(foldl (after sample_kernel) ?h sample_requests)\<lparr>hscl := st'\<rparr>"])
      (simp add: sample_conversation)
qed

end
