(* ===== verification/Scl_Xfer.thy ===== *)
theory Scl_Xfer
  imports Scl_Inlines "HOL-Library.Signed_Division"
begin

text \<open>
  The file transfer (\<open>scl_il_xfer_ex\<close> of scl_inlines.c): the local side of a copy in either direction,
  with its progress callback and every exit code. The clock is a list of what \<open>gettimeofday\<close> will
  return; what the machine makes of the quotient of two floats in the bytes per second, converted to
  \<open>int\<close>, is an input.
\<close>

section \<open>State\<close>

datatype direction = SCL_IL_XFER_GET | SCL_IL_XFER_PUT

definition SCL_IL_XFER_DEFAULT_PSIZE :: c_int where [simp]: "SCL_IL_XFER_DEFAULT_PSIZE = 8192"
definition SCL_IL_XFER_NUM_BPS_AVGS :: nat where [simp]: "SCL_IL_XFER_NUM_BPS_AVGS = 5"

record scl_copy_progress =
  bytes_total :: c_int
  bytes_transfered :: c_int
  msec_elapsed :: c_int
  avg_bps :: c_int
  eta :: c_int

text \<open>
  What the caller passes beside the files: the callback, which may be NULL and stops the copy by a
  non-zero result, and its interval. \<open>bps\<close> is the float quotient.
\<close>

record xfer_args =
  callback :: "(scl_copy_progress \<Rightarrow> bool) option"
  callback_interval :: c_int
  bps :: "c_int \<Rightarrow> c_int \<Rightarrow> c_int"

record 'w xfer =
  sess :: "'w session"
  lfiles :: files
  clock :: "(c_int \<times> c_int) option list"    \<comment> \<open>seconds and microseconds; \<open>None\<close> for an error\<close>
  messages :: "byte list list"                \<comment> \<open>on stderr\<close>
  progress :: "scl_copy_progress list"

record xfer_vars =
  total :: c_int
  transfered :: c_int
  prev_transfered :: c_int
  interval_count :: c_int
  bps_avgs :: "c_int list"
  bps_avg_index :: nat
  cur_msec :: c_int
  start_sec :: c_int
  start_usec :: c_int

abbreviation xscl :: "'w xfer \<Rightarrow> 'w scl" where "xscl x \<equiv> scl (sess x)"

definition set_scl :: "'w scl \<Rightarrow> 'w xfer \<Rightarrow> 'w xfer" where
  "set_scl st x = x\<lparr>sess := (sess x)\<lparr>scl := st\<rparr>\<rparr>"

definition gettimeofday :: "'w xfer \<Rightarrow> (c_int \<times> c_int) option \<times> 'w xfer" where
  "gettimeofday x = (case clock x of [] \<Rightarrow> (None, x) | t # ts \<Rightarrow> (t, x\<lparr>clock := ts\<rparr>))"

definition c_div :: "c_int \<Rightarrow> c_int \<Rightarrow> c_int res" where
  "c_div a b = (if b = 0 \<or> a = 0x80000000 \<and> b = -1 then Inl Div_By_Zero else Inr (word_of_int (sint a sdiv sint b)))"

section \<open>Leaving\<close>

text \<open>\<open>scl_il_xfer_exit\<close>; closing the local file and freeing the buffer change nothing else.\<close>

definition scl_il_xfer_exit ::
  "libc \<Rightarrow> 'w scl_io \<Rightarrow> c_int \<Rightarrow> bool \<Rightarrow> byte list \<Rightarrow> bool \<Rightarrow> 'w xfer \<Rightarrow> (c_int \<times> 'w xfer) res" where
  "scl_il_xfer_exit E io exit_code print_errno err_msg kill_remote_file x =
     (let x1 = (if print_errno then x\<lparr>messages := messages x @ [err_msg]\<rparr> else x)
      in bind_res (scl_free_packet_mem E (xscl x1)) (\<lambda>st1.
         if kill_remote_file
         then bind_res (fcall E io ''inline-close_file'' [] st1) (\<lambda>st2.
              bind_res (scl_free_packet_mem E st2) (\<lambda>st3. Inr (exit_code, set_scl st3 x1)))
         else Inr (exit_code, set_scl st1 x1)))"

text \<open>The reply is not a function return: an error that follows is reported, and the transfer ends.\<close>

definition unexpected ::
  "libc \<Rightarrow> 'w scl_io \<Rightarrow> c_int \<Rightarrow> bool \<Rightarrow> byte list \<Rightarrow> bool \<Rightarrow> 'w xfer \<Rightarrow> (c_int \<times> 'w xfer) res" where
  "unexpected E io exit_code print_errno err_msg kill_remote_file x =
     bind_res (suva_unexpected_return E io (sess x)) (\<lambda>s.
       scl_il_xfer_exit E io exit_code print_errno err_msg kill_remote_file (x\<lparr>sess := s\<rparr>))"

section \<open>Progress\<close>

definition average :: "c_int list \<Rightarrow> c_int res" where
  "average avgs = (let known = filter (\<lambda>a. a \<noteq> -1) avgs in c_div (sum_list known) (of_nat (length known)))"

text \<open>
  The report to the callback. The result says whether to stop, and the new variables; \<open>None\<close> when
  \<open>gettimeofday\<close> fails.
\<close>

definition report ::
  "xfer_args \<Rightarrow> (scl_copy_progress \<Rightarrow> bool) \<Rightarrow> xfer_vars \<Rightarrow> 'w xfer \<Rightarrow> ((bool \<times> xfer_vars) option \<times> 'w xfer) res" where
  "report A cb v x =
     (let prev_msec = cur_msec v; (now, x1) = gettimeofday x
      in case now of
           None \<Rightarrow> Inr (None, x1)
         | Some (sec, usec) \<Rightarrow>
             bind_res (c_div (usec - start_usec v) 1000) (\<lambda>ms.
               let msec = (sec - start_sec v) * 1000 + ms;
                   i = (if bps_avg_index v + 1 = SCL_IL_XFER_NUM_BPS_AVGS then 0 else bps_avg_index v + 1);
                   avgs = (bps_avgs v)[i := bps A (transfered v - prev_transfered v) (msec - prev_msec)]
               in bind_res (average avgs) (\<lambda>avg.
                  bind_res (c_div (total v - transfered v) avg) (\<lambda>left.
                    let prog = \<lparr>bytes_total = total v, bytes_transfered = transfered v, msec_elapsed = msec,
                                 avg_bps = avg, eta = left\<rparr>;
                        v' = v\<lparr>cur_msec := msec, bps_avg_index := i, bps_avgs := avgs, prev_transfered := transfered v\<rparr>
                    in Inr (Some (cb prog, v'), x1\<lparr>progress := progress x1 @ [prog]\<rparr>)))))"

text \<open>The callback code of one round: go on with the variables, or leave with an exit code.\<close>

definition callback_code :: "xfer_args \<Rightarrow> xfer_vars \<Rightarrow> 'w xfer \<Rightarrow> ((c_int + xfer_vars) \<times> 'w xfer) res" where
  "callback_code A v x =
     (let v1 = v\<lparr>interval_count := interval_count v - 1\<rparr>
      in if interval_count v1 \<noteq> 0 then Inr (Inr v1, x)
         else case callback A of
           None \<Rightarrow> Inr (Inr (v1\<lparr>interval_count := callback_interval A\<rparr>), x)
         | Some cb \<Rightarrow>
             bind_res (report A cb v1 x) (\<lambda>(r, x1).
               case r of
                 None \<Rightarrow> Inr (Inl 10, x1)
               | Some (stop, v2) \<Rightarrow>
                   if stop then Inr (Inl 8, x1)
                   else Inr (Inr (v2\<lparr>interval_count := callback_interval A\<rparr>), x1)))"

section \<open>The loop\<close>

text \<open>The result is \<open>Inl\<close> of an exit code and what is printed with it, or \<open>Inr\<close> when the loop is done.\<close>

type_synonym 'w loop_result = "((c_int \<times> 'w xfer) + (xfer_vars \<times> 'w xfer)) res"

text \<open>One block to the remote file; there was something to read.\<close>

definition put_block ::
  "libc \<Rightarrow> 'w scl_io \<Rightarrow> byte list \<Rightarrow> byte list \<Rightarrow> xfer_vars \<Rightarrow> 'w xfer \<Rightarrow> 'w loop_result" where
  "put_block E io err_msg bs v x =
     (let v1 = v\<lparr>transfered := transfered v + of_nat (length bs)\<rparr>
      in bind_res (fcall E io ''inline-put_data'' [(Block bs, SCL_DATA, of_nat (length bs))] (xscl x)) (\<lambda>st1.
         if in_packet_opcode (conn st1) \<noteq> SCL_FRETURN
         then bind_res (unexpected E io 4 False err_msg True (set_scl st1 x)) (\<lambda>r. Inr (Inl r))
         else bind_res (scl_get_value E st1 SCL_BOOL False) (\<lambda>(p, _, st2).
              bind_res (load st2 p 1) (\<lambda>ret_val.
              bind_res (scl_free_packet_mem E st2) (\<lambda>st3.
                if ret_val \<noteq> [0]
                then bind_res (scl_il_xfer_exit E io 6 False err_msg True (set_scl st3 x)) (\<lambda>r. Inr (Inl r))
                else Inr (Inr (v1, set_scl st3 x)))))))"

text \<open>One block from the remote file, and its length.\<close>

definition get_block ::
  "libc \<Rightarrow> 'w scl_io \<Rightarrow> kernel \<Rightarrow> c_int \<Rightarrow> handle \<Rightarrow> xfer_vars \<Rightarrow> 'w xfer \<Rightarrow>
   ((c_int \<times> 'w xfer) + (c_int \<times> handle \<times> xfer_vars \<times> 'w xfer)) res" where
  "get_block E io K block_size f v x =
     bind_res (fcall E io ''inline-get_data'' [(c_int_obj block_size, SCL_INT, 1)] (xscl x)) (\<lambda>st1.
       if in_packet_opcode (conn st1) \<noteq> SCL_FRETURN
       then bind_res (unexpected E io 4 False (err_str K) True (set_scl st1 x)) (\<lambda>r. Inr (Inl r))
       else bind_res (get_data E st1) (\<lambda>((p, data_len), st2).
            if p = 0 then bind_res (scl_il_xfer_exit E io 5 False (err_str K) True (set_scl st2 x)) (\<lambda>r. Inr (Inl r))
            else let v1 = v\<lparr>transfered := transfered v + data_len\<rparr>
                 in bind_res (put_item K st2 (lfiles x) f p data_len) (\<lambda>(done, fs', f').
                    let x1 = (set_scl st2 x)\<lparr>lfiles := fs'\<rparr>
                    in if \<not> done
                       then bind_res (scl_il_xfer_exit E io 7 True (err_str K) True x1) (\<lambda>r. Inr (Inl r))
                       else bind_res (scl_free_packet_mem E st2) (\<lambda>st3.
                              Inr (Inr (data_len, f', v1, set_scl st3 x1))))))"

text \<open>
  The endless loop, in one copy for each direction. A round ends early with the exit code of the
  callback; getting stops after a block that is not full, putting when nothing is left to read.
\<close>

definition after_round ::
  "libc \<Rightarrow> 'w scl_io \<Rightarrow> kernel \<Rightarrow> xfer_args \<Rightarrow> xfer_vars \<Rightarrow> 'w xfer \<Rightarrow>
   ((c_int \<times> 'w xfer) + (xfer_vars \<times> 'w xfer)) res" where
  "after_round E io K A v x =
     bind_res (callback_code A v x) (\<lambda>(r, x1).
       case r of
         Inl code \<Rightarrow> bind_res (scl_il_xfer_exit E io code True (err_str K) True x1) (\<lambda>r. Inr (Inl r))
       | Inr v1 \<Rightarrow> Inr (Inr (v1, x1)))"

fun get_loop ::
  "nat \<Rightarrow> libc \<Rightarrow> 'w scl_io \<Rightarrow> kernel \<Rightarrow> xfer_args \<Rightarrow> c_int \<Rightarrow> handle \<Rightarrow> xfer_vars \<Rightarrow> 'w xfer \<Rightarrow> 'w loop_result" where
  "get_loop 0 E io K A block_size f v x = Inl No_Return"
| "get_loop (Suc k) E io K A block_size f v x =
     bind_res (get_block E io K block_size f v x) (\<lambda>r. case r of
       Inl gone \<Rightarrow> Inr (Inl gone)
     | Inr (data_len, f1, v1, x1) \<Rightarrow>
         bind_res (after_round E io K A v1 x1) (\<lambda>r. case r of
           Inl gone \<Rightarrow> Inr (Inl gone)
         | Inr (v2, x2) \<Rightarrow>
             if data_len \<noteq> block_size then Inr (Inr (v2, x2))
             else get_loop k E io K A block_size f1 v2 x2))"

fun put_loop ::
  "nat \<Rightarrow> libc \<Rightarrow> 'w scl_io \<Rightarrow> kernel \<Rightarrow> xfer_args \<Rightarrow> bool \<Rightarrow> c_int \<Rightarrow> handle \<Rightarrow> xfer_vars \<Rightarrow> 'w xfer \<Rightarrow> 'w loop_result" where
  "put_loop 0 E io K A buf block_size f v x = Inl No_Return"
| "put_loop (Suc k) E io K A buf block_size f v x =
     bind_res (read_chunk buf (lfiles x) f block_size) (\<lambda>(bs, f1).
       if bs = [] then Inr (Inr (v, x))
       else bind_res (put_block E io (err_str K) bs v x) (\<lambda>r. case r of
              Inl gone \<Rightarrow> Inr (Inl gone)
            | Inr (v1, x1) \<Rightarrow>
                bind_res (after_round E io K A v1 x1) (\<lambda>r. case r of
                  Inl gone \<Rightarrow> Inr (Inl gone)
                | Inr (v2, x2) \<Rightarrow> put_loop k E io K A buf block_size f1 v2 x2)))"

section \<open>The transfer\<close>

text \<open>Size and mode of the remote file, from version 3 of the interface on.\<close>

definition remote_size_mode ::
  "libc \<Rightarrow> 'w scl_io \<Rightarrow> c_int \<Rightarrow> byte list option \<Rightarrow> 'w scl \<Rightarrow> ((c_int \<times> c_int) \<times> 'w scl) res" where
  "remote_size_mode E io api_vers remote_name st =
     (if 3 \<le>s api_vers
      then bind_res (fcall E io ''inline-get_fsize_mode'' [(c_str_obj remote_name, SCL_STRING, 1)] st) (\<lambda>st1.
           bind_res (get_int E st1) (\<lambda>(n, st2).
           bind_res (get_int E st2) (\<lambda>(mode, st3).
           bind_res (scl_free_packet_mem E st3) (\<lambda>st4.
             Inr ((if n = -1 then 0 else n, mode), st4)))))
      else Inr ((0, -1), st))"

text \<open>The answer to the opening of the remote file is a number, of which a \<open>char\<close> is kept.\<close>

definition open_remote ::
  "libc \<Rightarrow> 'w scl_io \<Rightarrow> kernel \<Rightarrow> byte list option \<Rightarrow> string \<Rightarrow> 'w xfer \<Rightarrow> ((c_int \<times> 'w xfer) + 'w xfer) res" where
  "open_remote E io K remote_name mode x =
     bind_res (fcall E io ''inline-open_file''
         [(c_str_obj remote_name, SCL_STRING, 1), (c_str_obj (Some (str mode)), SCL_STRING, 1)] (xscl x)) (\<lambda>st1.
       if in_packet_opcode (conn st1) \<noteq> SCL_FRETURN
       then bind_res (unexpected E io 3 True (err_str K) False (set_scl st1 x)) (\<lambda>r. Inr (Inl r))
       else bind_res (get_int E st1) (\<lambda>(n, st2).
            if (ucast n :: byte) = 0
            then bind_res (scl_free_packet_mem E st2) (\<lambda>st3. Inr (Inr (set_scl st3 x)))
            else bind_res (get_str E st2) (\<lambda>((_, text), st3).
                 bind_res (scl_free_packet_mem E st3) (\<lambda>st4.
                 bind_res (scl_il_xfer_exit E io 4 False (err_str K) False
                     ((set_scl st4 x)\<lparr>messages := messages x @ [case text of None \<Rightarrow> str ''(null)'' | Some t \<Rightarrow> t]\<rparr>))
                   (\<lambda>r. Inr (Inl r))))))"

definition set_remote_mode ::
  "libc \<Rightarrow> 'w scl_io \<Rightarrow> byte list option \<Rightarrow> c_int \<Rightarrow> 'w xfer \<Rightarrow> 'w xfer res" where
  "set_remote_mode E io remote_name mode x =
     bind_res (fcall E io ''inline-set_fmode'' [(c_str_obj remote_name, SCL_STRING, 1), (c_int_obj mode, SCL_INT, 1)] (xscl x)) (\<lambda>st1.
     bind_res (get_int E st1) (\<lambda>(ret_val, st2).
     bind_res (scl_free_packet_mem E st2) (\<lambda>st3.
       Inr ((set_scl st3 x)\<lparr>messages := messages x @
         (if ret_val = -1 then [str ''Warning: Couldn't chmod remote file''] else [])\<rparr>))))"

definition start_vars :: "xfer_args \<Rightarrow> c_int \<Rightarrow> c_int \<times> c_int \<Rightarrow> xfer_vars" where
  "start_vars A size_of_file t =
     \<lparr>total = size_of_file, transfered = 0, prev_transfered = 0, interval_count = callback_interval A,
       bps_avgs = replicate SCL_IL_XFER_NUM_BPS_AVGS (-1), bps_avg_index = 0, cur_msec = 0,
       start_sec = fst t, start_usec = snd t\<rparr>"

definition scl_il_get ::
  "nat \<Rightarrow> libc \<Rightarrow> 'w scl_io \<Rightarrow> kernel \<Rightarrow> xfer_args \<Rightarrow> byte list option \<Rightarrow> byte list option \<Rightarrow> c_int \<Rightarrow> 'w xfer \<Rightarrow>
   (c_int \<times> 'w xfer) res" where
  "scl_il_get k E io K A local_name remote_name block_size x =
     bind_res (scl_il_get_api_version E io (xscl x)) (\<lambda>(api_vers, st1).
       let (f, fs1) = fopen K (lfiles x) local_name (str ''w''); x1 = (set_scl st1 x)\<lparr>lfiles := fs1\<rparr>
       in case f of
            None \<Rightarrow> scl_il_xfer_exit E io 1 False (err_str K) False (x1\<lparr>messages := messages x1 @ [err_str K]\<rparr>)
          | Some s \<Rightarrow>
              bind_res (remote_size_mode E io api_vers remote_name (xscl x1)) (\<lambda>((n, remote_mode), st2).
              bind_res (open_remote E io K remote_name ''r'' (set_scl st2 x1)) (\<lambda>r. case r of
                Inl gone \<Rightarrow> Inr gone
              | Inr x2 \<Rightarrow>
                  case gettimeofday x2 of
                    (None, x3) \<Rightarrow> scl_il_xfer_exit E io 10 True (err_str K) True x3
                  | (Some t, x3) \<Rightarrow>
                      bind_res (get_loop k E io K A block_size (Open_File s) (start_vars A n t) x3) (\<lambda>r. case r of
                        Inl gone \<Rightarrow> Inr gone
                      | Inr (v, x4) \<Rightarrow>
                          let fs' = (if remote_mode \<noteq> -1 then snd (chmod K (lfiles x4) local_name remote_mode) else lfiles x4)
                          in scl_il_xfer_exit E io 0 False (err_str K) True (x4\<lparr>lfiles := fs'\<rparr>)))))"

definition scl_il_put ::
  "nat \<Rightarrow> libc \<Rightarrow> 'w scl_io \<Rightarrow> kernel \<Rightarrow> xfer_args \<Rightarrow> byte list option \<Rightarrow> byte list option \<Rightarrow> c_int \<Rightarrow> 'w xfer \<Rightarrow>
   (c_int \<times> 'w xfer) res" where
  "scl_il_put k E io K A local_name remote_name block_size x =
     bind_res (scl_il_get_api_version E io (xscl x)) (\<lambda>(api_vers, st1).
       let buf = malloc_int E (mem (xscl x)) block_size;
           (f, fs1) = fopen K (lfiles x) local_name (str ''r''); x1 = (set_scl st1 x)\<lparr>lfiles := fs1\<rparr>
       in case f of
            None \<Rightarrow> scl_il_xfer_exit E io 1 False (err_str K) False (x1\<lparr>messages := messages x1 @ [err_str K]\<rparr>)
          | Some s \<Rightarrow>
              (case stat_file (lfiles x1) local_name of
                 None \<Rightarrow> scl_il_xfer_exit E io 2 False (err_str K) False (x1\<lparr>messages := messages x1 @ [err_str K]\<rparr>)
               | Some st_file \<Rightarrow>
                   bind_res (open_remote E io K remote_name ''w'' x1) (\<lambda>r. case r of
                     Inl gone \<Rightarrow> Inr gone
                   | Inr x2 \<Rightarrow>
                       case gettimeofday x2 of
                         (None, x3) \<Rightarrow> scl_il_xfer_exit E io 10 True (err_str K) True x3
                       | (Some t, x3) \<Rightarrow>
                           bind_res (put_loop k E io K A buf block_size (Open_File s)
                               (start_vars A (of_nat (length (f_bytes st_file))) t) x3) (\<lambda>r. case r of
                             Inl gone \<Rightarrow> Inr gone
                           | Inr (v, x4) \<Rightarrow>
                               bind_res (if 3 \<le>s api_vers then set_remote_mode E io remote_name (f_mode st_file) x4 else Inr x4)
                                 (\<lambda>x5. scl_il_xfer_exit E io 0 False (err_str K) True x5)))))"

text \<open>
  \<open>scl_il_xfer_ex\<close> for both directions; \<open>k\<close> bounds the rounds of the loop. The two directions share the
  source lines of one function; the code of the other direction is left out of each copy.
\<close>

definition scl_il_xfer_ex ::
  "nat \<Rightarrow> libc \<Rightarrow> 'w scl_io \<Rightarrow> kernel \<Rightarrow> xfer_args \<Rightarrow> byte list option \<Rightarrow> byte list option \<Rightarrow> direction \<Rightarrow> c_int \<Rightarrow> 'w xfer \<Rightarrow>
   (c_int \<times> 'w xfer) res" where
  "scl_il_xfer_ex k E io K A local_name remote_name dir block_size =
     (case dir of
        SCL_IL_XFER_GET \<Rightarrow> scl_il_get k E io K A local_name remote_name block_size
      | SCL_IL_XFER_PUT \<Rightarrow> scl_il_put k E io K A local_name remote_name block_size)"

definition scl_il_xfer ::
  "nat \<Rightarrow> libc \<Rightarrow> 'w scl_io \<Rightarrow> kernel \<Rightarrow> byte list option \<Rightarrow> byte list option \<Rightarrow> direction \<Rightarrow> 'w xfer \<Rightarrow> (c_int \<times> 'w xfer) res" where
  "scl_il_xfer k E io K local_name remote_name dir =
     scl_il_xfer_ex k E io K \<lparr>callback = None, callback_interval = 0, bps = (\<lambda>_ _. 0)\<rparr>
       local_name remote_name dir SCL_IL_XFER_DEFAULT_PSIZE"

end
