(* ===== verification/Xfer_Client.thy ===== *)
theory Xfer_Client
  imports Scl_Xfer Suvlet_Props
begin

text \<open>
  The local side of a transfer, step by step, against the answers of the abstract server: every step sends one
  request of \<open>Inlines_Server\<close> and takes in its answer.
\<close>

section \<open>Asking\<close>

definition askable :: "request \<Rightarrow> bool" where
  "askable r \<longleftrightarrow> (case r of Put_Req bs \<Rightarrow> length bs < 2 ^ 31 | _ \<Rightarrow> True)"

lemma val_ok_data: "length bs < 2 ^ 31 \<Longrightarrow> val_ok (Block bs) SCL_DATA (of_nat (length bs))"
  by (simp add: val_ok_def scalars_def arrays_def unat_of_nat)

lemma askable_items: "askable r \<Longrightarrow> list_all item_ok (call_items (req_name r) (req_args r)) \<and> length (req_args r) \<le> 2"
  by (cases r) (simp_all add: askable_def call_items_def item_ok_def val_ok_int val_ok_str val_ok_data)

lemma xscl_set [simp]: "xscl (set_scl st x) = st" "xscl (x\<lparr>lfiles := fs'\<rparr>) = xscl x" "xscl (x\<lparr>messages := ms\<rparr>) = xscl x"
    "set_scl st (set_scl st' x) = set_scl st x" "lfiles (set_scl st x) = lfiles x" "clock (set_scl st x) = clock x"
    "messages (set_scl st x) = messages x" "progress (set_scl st x) = progress x"
  by (simp_all add: set_scl_def)

lemma set_scl_lfiles [simp]: "(set_scl st x)\<lparr>lfiles := lfiles x\<rparr> = set_scl st x"
  by (simp add: set_scl_def)

text \<open>One block: what the server read goes to the end of the local file.\<close>

definition data_items :: "byte list \<Rightarrow> (object \<times> scl_type \<times> c_int) list" where
  "data_items bs = [(if bs = [] then Null else Block bs, SCL_DATA, of_nat (length bs))]"

definition appending :: "kernel \<Rightarrow> files \<Rightarrow> stream \<Rightarrow> bool" where
  "appending K files s \<longleftrightarrow> (\<exists>f. files (s_path s) = Some f \<and> s_pos s = length (f_bytes f)) \<and> s_writes s \<and> \<not> s_append s \<and>
     (\<forall>n. \<not> full K (s_path s) n)"

definition append_file :: "files \<Rightarrow> path \<Rightarrow> byte list \<Rightarrow> files" where
  "append_file files p bs = files(p := map_option (\<lambda>f. f\<lparr>f_bytes := f_bytes f @ bs\<rparr>) (files p))"

lemma append_file_nil [simp]: "append_file files p [] = files"
  by (cases "files p") (simp_all add: append_file_def fun_eq_iff)

lemma append_file_append: "append_file (append_file files p xs) p ys = append_file files p (xs @ ys)"
  by (cases "files p") (simp_all add: append_file_def)

lemma fwrite_appending:
  assumes "appending K files s" and "bs \<noteq> []"
  shows "fwrite_item K files s bs = (True, s\<lparr>s_pos := s_pos s + length bs\<rparr>, append_file files (s_path s) bs)"
    and "appending K (append_file files (s_path s) bs) (s\<lparr>s_pos := s_pos s + length bs\<rparr>)"
  using assms by (auto simp: appending_def fwrite_item_def append_file_def overlay_end Let_def)

lemma callback_none: "callback A = None \<Longrightarrow> \<exists>v'. callback_code A v x = Inr (Inr v', x)"
  by (simp add: callback_code_def Let_def)

lemma replies_Cons: "replies (i # is) = packet SCL_FRETURN (payload i) @ replies is"
  by (simp add: replies_def)

lemma requests_Cons: "requests (r # rs) = requests [r] @ requests rs" "length (requests [r]) = 16 + length (request_payload r)"
  by (simp_all add: requests_def length_packet)

context scl_stream
begin

text \<open>The state between two questions: what is to be read is \<open>inp\<close>, and \<open>n\<close> more bytes can be sent.\<close>

definition client :: "libc \<Rightarrow> c_uint set \<Rightarrow> nat \<Rightarrow> 'w scl \<Rightarrow> byte list \<Rightarrow> nat \<Rightarrow> bool" where
  "client E T k st inp n \<longleftrightarrow> idle E T st \<and> ample E T k (mem st) \<and> ok (world st) \<and> incoming (world st) = inp \<and> n \<le> room (world st)"

lemma client_advance [simp]: "client E T k (advance st j) inp n = client E T k st inp n"
  by (simp add: client_def idle_advance)

lemma client_le: "client E T k st inp n \<Longrightarrow> j \<le> k \<Longrightarrow> m \<le> n \<Longrightarrow> client E T j st inp m"
  by (auto simp: client_def elim: ample_le)

lemma client_free:
  assumes "client E T (1 + k) st inp n"
  obtains m where "scl_free_packet_mem E st = Inr (st\<lparr>mem := m\<rparr>)" "client E T k (st\<lparr>mem := m\<rparr>) inp n"
proof -
  have "idle E T st" "ample E T (1 + k) (mem st)" "1 \<le> 1 + k" using assms by (simp_all add: client_def)
  from scl_free_packet_mem_idle [OF this] assms show thesis by (auto simp: client_def intro: that)
qed

text \<open>A stretch of the dialogue: requests that were sent, each followed by its answer, which was read.\<close>

definition told :: "request list \<Rightarrow> (object \<times> scl_type \<times> c_int) list list \<Rightarrow> 'w \<Rightarrow> 'w \<Rightarrow> bool" where
  "told rs as w w' \<longleftrightarrow> sent w' = sent w @ requests rs \<and> length as = length rs \<and>
     hist w' = fold (\<lambda>(r, items) g. took (packet SCL_FRETURN (payload items)) (gave (packet SCL_FCALL (request_payload r)) g)) (zip rs as) (hist w)"

lemma told_none: "told [] [] w w"
  by (simp add: told_def requests_def)

lemma told_trans: "told rs as w w' \<Longrightarrow> told ss bs w' w'' \<Longrightarrow> told (rs @ ss) (as @ bs) w w''"
  by (simp add: told_def requests_def)

lemma told_sent: "told rs as w w' \<Longrightarrow> sent w' = sent w @ requests rs"
  by (simp add: told_def)

lemma ask:
  assumes "client E T (9 + k) st (packet SCL_FRETURN (payload items) @ inp) (16 + length (request_payload r) + n)"
    and "length (payload items) < 2 ^ 31" and "askable r"
  obtains st' where "fcall E io (req_name r) (req_args r) st = Inr st'" "reading E st' (payload items) 0"
    "in_packet_opcode (conn st') = SCL_FRETURN" "client E T k st' inp n"
    "told [r] [items] (world st) (world st')"
proof -
  let ?items = "call_items (req_name r) (req_args r)"
  note r = askable_items [OF assms(3)]
  have i: "idle E T st" "list_all item_ok ?items" "ample E T (9 + k) (mem st)" "2 * length ?items \<le> 9 + k" "ok (world st)"
      "16 + length (payload ?items) \<le> room (world st)"
    using assms(1) r by (simp_all add: client_def call_items_def request_payload_def)
  from send_packet_wrote [OF this, of SCL_FCALL] obtain st1 where
    st1: "send_packet E io SCL_FCALL ?items st = Inr st1" "wrote (world st) (packet SCL_FCALL (request_payload r)) (world st1)"
      "idle E T st1" "ample E T (9 + k - 2 * length ?items) (mem st1)"
    by (auto simp: request_payload_def)
  note w = wroteD [OF st1(2)]
  have am: "ample E T (3 + k) (mem st1)" using st1(4) by (rule ample_le) (use r in \<open>auto simp: call_items_def\<close>)
  have "incoming (world st1) = packet SCL_FRETURN (payload items) @ inp" "ok (world st1)" using w assms(1) by (simp_all add: client_def)
  moreover have "3 \<le> 3 + k" by simp
  ultimately obtain m st' where st': "scl_read_packet E io st1 = Inr (m, st')" "reading E st' (payload items) 0" "idle E T st'"
      "in_packet_opcode (conn st') = SCL_FRETURN" "incoming (world st') = inp" "sent (world st') = sent (world st1)"
      "room (world st') = room (world st1)" "ok (world st')" "ample E T (3 + k - 3) (mem st')"
      "hist (world st') = took (packet SCL_FRETURN (payload items)) (hist (world st1))"
    using scl_read_packet_idle [OF st1(3) _ _ assms(2) am] by blast
  then show thesis
    using st1(1) w wrote_hist [OF st1(2)] assms(1)
    by (intro that) (auto simp: fcall_def client_def length_packet told_def requests_def)
qed

section \<open>The steps of a transfer\<close>

lemma ask_int_answered:
  assumes "client E T (10 + k) st (packet SCL_FRETURN (payload [(c_int_obj a, SCL_INT, 0)]) @ inp)
      (16 + length (request_payload (Info_Req (str var))) + n)"
  obtains st' where "ask_int E io var st = Inr (a, st')" "client E T k st' inp n"
    "told [Info_Req (str var)] [[(c_int_obj a, SCL_INT, 0)]] (world st) (world st')"
proof -
  have "client E T (9 + (1 + k)) st (packet SCL_FRETURN (payload [(c_int_obj a, SCL_INT, 0)]) @ inp)
      (16 + length (request_payload (Info_Req (str var))) + n)" using assms by simp
  then obtain st1 where st1: "fcall E io (req_name (Info_Req (str var))) (req_args (Info_Req (str var))) st = Inr st1"
      "reading E st1 (payload [(c_int_obj a, SCL_INT, 0)]) 0" "client E T (1 + k) st1 inp n"
      "told [Info_Req (str var)] [[(c_int_obj a, SCL_INT, 0)]] (world st) (world st1)"
    by (rule ask) (simp_all add: askable_def payload_def enc_item_int)
  obtain j where g: "get_int E st1 = Inr (a, advance st1 j)"
    by (rule get_int_items [OF st1(2)]) simp_all
  have "client E T (1 + k) (advance st1 j) inp n" using st1(3) by simp
  then obtain m where "scl_free_packet_mem E (advance st1 j) = Inr ((advance st1 j)\<lparr>mem := m\<rparr>)"
      "client E T k ((advance st1 j)\<lparr>mem := m\<rparr>) inp n" by (rule client_free)
  then show thesis using st1 g by (intro that [of "(advance st1 j)\<lparr>mem := m\<rparr>"]) (simp_all add: ask_int_def)
qed

lemma remote_size_mode_answered:
  assumes "client E T (10 + k) st (packet SCL_FRETURN (payload [(c_int_obj a, SCL_INT, 0), (c_int_obj b, SCL_INT, 0)]) @ inp)
      (16 + length (request_payload (Size_Req name)) + n)"
    and "3 \<le>s v"
  obtains st' where "remote_size_mode E io v name st = Inr ((if a = -1 then 0 else a, b), st')" "client E T k st' inp n"
    "told [Size_Req name] [[(c_int_obj a, SCL_INT, 0), (c_int_obj b, SCL_INT, 0)]] (world st) (world st')"
proof -
  let ?items = "[(c_int_obj a, SCL_INT, 0), (c_int_obj b, SCL_INT, 0)]"
  have "client E T (9 + (1 + k)) st (packet SCL_FRETURN (payload ?items) @ inp) (16 + length (request_payload (Size_Req name)) + n)"
    using assms by simp
  then obtain st1 where st1: "fcall E io (req_name (Size_Req name)) (req_args (Size_Req name)) st = Inr st1"
      "reading E st1 (payload ?items) 0" "client E T (1 + k) st1 inp n"
      "told [Size_Req name] [?items] (world st) (world st1)"
    by (rule ask) (simp_all add: askable_def payload_def enc_item_int)
  obtain j where g: "get_int E st1 = Inr (a, advance st1 j)" "reading E (advance st1 j) (payload ?items) (0 + 4)"
      "drop (0 + 4) (payload ?items) = payload [(c_int_obj b, SCL_INT, 0)]"
    by (rule get_int_items [OF st1(2)]) simp_all
  obtain j' where g2: "get_int E (advance st1 j) = Inr (b, advance (advance st1 j) j')"
    by (rule get_int_items [OF g(2,3)])
  let ?st = "advance (advance st1 j) j'"
  have "client E T (1 + k) ?st inp n" using st1(3) by (simp only: client_advance)
  then obtain m where "scl_free_packet_mem E ?st = Inr (?st\<lparr>mem := m\<rparr>)" "client E T k (?st\<lparr>mem := m\<rparr>) inp n" by (rule client_free)
  then show thesis using st1 g(1) g2 assms(2) by (intro that [of "?st\<lparr>mem := m\<rparr>"]) (simp_all add: remote_size_mode_def)
qed

lemma open_remote_answered:
  assumes "client E T (10 + k) (xscl x) (packet SCL_FRETURN (payload [(c_int_obj 0, SCL_INT, 1), (Null, SCL_STRING, 1)]) @ inp)
      (16 + length (request_payload (Open_Req name (str mode))) + n)"
  obtains st' where "open_remote E io K name mode x = Inr (Inr (set_scl st' x))" "client E T k st' inp n"
    "told [Open_Req name (str mode)] [[(c_int_obj 0, SCL_INT, 1), (Null, SCL_STRING, 1)]] (world (xscl x)) (world st')"
proof -
  let ?items = "[(c_int_obj 0, SCL_INT, 1), (Null, SCL_STRING, 1)]" and ?r = "Open_Req name (str mode)"
  have "client E T (9 + (1 + k)) (xscl x) (packet SCL_FRETURN (payload ?items) @ inp) (16 + length (request_payload ?r) + n)"
    using assms by simp
  moreover have "length (payload ?items) < 2 ^ 31"
    by (simp add: payload_def enc_item_int) (simp add: enc_item_def encode_def scalars_def arrays_def enc_string_def string_ptr_def text_of_def)
  ultimately obtain st1 where st1: "fcall E io (req_name ?r) (req_args ?r) (xscl x) = Inr st1"
      "reading E st1 (payload ?items) 0" "in_packet_opcode (conn st1) = SCL_FRETURN" "client E T (1 + k) st1 inp n"
      "told [?r] [?items] (world (xscl x)) (world st1)"
    by (rule ask) (simp_all add: askable_def)
  obtain j where g: "get_int E st1 = Inr (0, advance st1 j)" by (rule get_int_items [OF st1(2)]) simp_all
  have "client E T (1 + k) (advance st1 j) inp n" using st1(4) by simp
  then obtain m where "scl_free_packet_mem E (advance st1 j) = Inr ((advance st1 j)\<lparr>mem := m\<rparr>)"
      "client E T k ((advance st1 j)\<lparr>mem := m\<rparr>) inp n" by (rule client_free)
  then show thesis using st1 g
    by (intro that [of "(advance st1 j)\<lparr>mem := m\<rparr>"]) (simp_all add: open_remote_def)
qed

lemma get_block_answered:
  assumes "client E T (10 + k) (xscl x) (packet SCL_FRETURN (payload (data_items bs)) @ inp) (16 + length (request_payload (Get_Req b)) + n)"
    and "bs \<noteq> []" and "length bs < 2 ^ 30" and "appending K (lfiles x) s"
  obtains st' v' where "get_block E io K b (Open_File s) v x =
      Inr (Inr (of_nat (length bs), Open_File (s\<lparr>s_pos := s_pos s + length bs\<rparr>), v', (set_scl st' x)\<lparr>lfiles := append_file (lfiles x) (s_path s) bs\<rparr>))"
    "client E T k st' inp n" "told [Get_Req b] [data_items bs] (world (xscl x)) (world st')"
proof -
  let ?r = "Get_Req b" and ?items = "[(Block bs, SCL_DATA, of_nat (length bs))]"
  have u: "unat (of_nat (length bs) :: c_int) = length bs" using assms(3) by (simp add: unat_of_nat)
  have nn: "\<not> (of_nat (length bs) :: c_int) <s 0" "(of_nat (length bs) :: c_int) \<noteq> 0"
    using assms(2,3) u by (auto simp: small_nonneg simp del: of_nat_eq_0_iff)
  have items: "data_items bs = ?items" using assms(2) by (simp add: data_items_def)
  have "client E T (9 + (1 + k)) (xscl x) (packet SCL_FRETURN (payload ?items) @ inp) (16 + length (request_payload ?r) + n)"
    using assms(1) by (simp add: items)
  moreover have "length (payload ?items) < 2 ^ 31"
    using assms(3) u by (simp add: payload_def enc_item_def encode_def scalars_def arrays_def block_of_def)
  ultimately obtain st1 where st1: "fcall E io (req_name ?r) (req_args ?r) (xscl x) = Inr st1"
      "reading E st1 (payload ?items) 0" "in_packet_opcode (conn st1) = SCL_FRETURN" "client E T (1 + k) st1 inp n"
      "told [?r] [?items] (world (xscl x)) (world st1)"
    by (rule ask) (simp_all add: askable_def)
  have d: "drop 0 (payload ?items) = payload ((Block bs, SCL_DATA, of_nat (length bs)) # [])" by simp
  have l: "length bs < 2 ^ 31" using assms(3) by simp
  obtain q j where g: "get_data E st1 = Inr ((q, of_nat (length bs)), advance st1 j)"
      "load (advance st1 j) q (length bs) = Inr bs"
    by (rule get_data_items [OF st1(2) d l])
  have q: "q \<noteq> 0" using g(2) by (auto simp: load_def in_packet_def)
  have "client E T (1 + k) (advance st1 j) inp n" using st1(4) by simp
  then obtain m where "scl_free_packet_mem E (advance st1 j) = Inr ((advance st1 j)\<lparr>mem := m\<rparr>)"
      "client E T k ((advance st1 j)\<lparr>mem := m\<rparr>) inp n" by (rule client_free)
  then show thesis using st1 g q u nn fwrite_appending [OF assms(4,2)]
    by (intro that [of "v\<lparr>transfered := transfered v + of_nat (length bs)\<rparr>" "(advance st1 j)\<lparr>mem := m\<rparr>"])
      (simp_all add: get_block_def items put_item_def deref_file_def item_bytes_def set_scl_def)
qed

lemma xfer_exit_answered:
  assumes "client E T (11 + k) (xscl x) (packet SCL_FRETURN (payload []) @ inp) (16 + length (request_payload Close_Req) + n)"
  obtains st' where "scl_il_xfer_exit E io code print_errno err_msg True x =
      Inr (code, (set_scl st' x)\<lparr>messages := messages x @ (if print_errno then [err_msg] else [])\<rparr>)"
    "client E T k st' inp n" "told [Close_Req] [[]] (world (xscl x)) (world st')"
proof -
  let ?x = "if print_errno then x\<lparr>messages := messages x @ [err_msg]\<rparr> else x"
  have x: "xscl ?x = xscl x" by simp
  have "client E T (1 + (9 + (1 + k))) (xscl x) (packet SCL_FRETURN (payload []) @ inp) (16 + length (request_payload Close_Req) + n)"
    using assms by simp
  then obtain m where m: "scl_free_packet_mem E (xscl x) = Inr ((xscl x)\<lparr>mem := m\<rparr>)"
      "client E T (9 + (1 + k)) ((xscl x)\<lparr>mem := m\<rparr>) (packet SCL_FRETURN (payload []) @ inp)
         (16 + length (request_payload Close_Req) + n)" by (rule client_free)
  from m(2) obtain st1 where st1: "fcall E io (req_name Close_Req) (req_args Close_Req) ((xscl x)\<lparr>mem := m\<rparr>) = Inr st1"
      "client E T (1 + k) st1 inp n" "told [Close_Req] [[]] (world (xscl x)) (world st1)"
    by (rule ask) (simp_all add: askable_def payload_def)
  from st1(2) obtain m' where "scl_free_packet_mem E st1 = Inr (st1\<lparr>mem := m'\<rparr>)" "client E T k (st1\<lparr>mem := m'\<rparr>) inp n"
    by (rule client_free)
  then show thesis using m(1) st1
    by (intro that [of "st1\<lparr>mem := m'\<rparr>"]) (simp_all add: scl_il_xfer_exit_def set_scl_def)
qed

text \<open>The loop over full blocks.\<close>

lemma get_loop_full:
  assumes "client E T (10 * length bss + k) (xscl x) (replies (map data_items bss) @ inp)
      (length (requests (replicate (length bss) (Get_Req b))) + n)"
    and "callback A = None" and "\<forall>bs \<in> set bss. length bs = unat b" and "0 < unat b" "unat b < 2 ^ 30"
    and "appending K (lfiles x) s"
  shows "\<exists>st' v'. get_loop (length bss + j) E io K A b (Open_File s) v x =
      get_loop j E io K A b (Open_File (s\<lparr>s_pos := s_pos s + length (concat bss)\<rparr>)) v'
        ((set_scl st' x)\<lparr>lfiles := append_file (lfiles x) (s_path s) (concat bss)\<rparr>) \<and>
    client E T k st' inp n \<and> told (replicate (length bss) (Get_Req b)) (map data_items bss) (world (xscl x)) (world st') \<and>
    appending K (append_file (lfiles x) (s_path s) (concat bss)) (s\<lparr>s_pos := s_pos s + length (concat bss)\<rparr>)"
  using assms
proof (induction bss arbitrary: x v s)
  case Nil
  have "set_scl (xscl x) x = x" by (simp add: set_scl_def)
  then show ?case using Nil by (intro exI [of _ "xscl x"] exI [of _ v]) (simp add: replies_def requests_def told_none)
next
  case (Cons bs bss)
  let ?rest = "replicate (length bss) (Get_Req b)"
  have bs: "bs \<noteq> []" "length bs < 2 ^ 30" "of_nat (length bs) = b" using Cons.prems(3-5) by auto
  have "client E T (10 + (10 * length bss + k)) (xscl x) (packet SCL_FRETURN (payload (data_items bs)) @ (replies (map data_items bss) @ inp))
      (16 + length (request_payload (Get_Req b)) + (length (requests ?rest) + n))"
    using Cons.prems(1) by (simp add: replies_Cons requests_Cons(2) requests_Cons(1) [of _ ?rest] algebra_simps)
  from get_block_answered [OF this bs(1,2) Cons.prems(6)] obtain st1 v1 where st1:
    "get_block E io K b (Open_File s) v x =
      Inr (Inr (of_nat (length bs), Open_File (s\<lparr>s_pos := s_pos s + length bs\<rparr>), v1, (set_scl st1 x)\<lparr>lfiles := append_file (lfiles x) (s_path s) bs\<rparr>))"
    "client E T (10 * length bss + k) st1 (replies (map data_items bss) @ inp) (length (requests ?rest) + n)"
    "told [Get_Req b] [data_items bs] (world (xscl x)) (world st1)" by blast
  let ?x = "(set_scl st1 x)\<lparr>lfiles := append_file (lfiles x) (s_path s) bs\<rparr>" and ?s = "s\<lparr>s_pos := s_pos s + length bs\<rparr>"
  obtain v2 where v2: "callback_code A v1 ?x = Inr (Inr v2, ?x)" using callback_none [OF Cons.prems(2)] by blast
  have "client E T (10 * length bss + k) (xscl ?x) (replies (map data_items bss) @ inp) (length (requests ?rest) + n)"
    using st1(2) by simp
  moreover have "appending K (lfiles ?x) ?s" using fwrite_appending(2) [OF Cons.prems(6) bs(1)] by simp
  ultimately obtain st' v' where *:
    "get_loop (length bss + j) E io K A b (Open_File ?s) v2 ?x =
      get_loop j E io K A b (Open_File (?s\<lparr>s_pos := s_pos ?s + length (concat bss)\<rparr>)) v'
        ((set_scl st' ?x)\<lparr>lfiles := append_file (lfiles ?x) (s_path ?s) (concat bss)\<rparr>)"
    "client E T k st' inp n" "told ?rest (map data_items bss) (world (xscl ?x)) (world st')"
    "appending K (append_file (lfiles ?x) (s_path ?s) (concat bss)) (?s\<lparr>s_pos := s_pos ?s + length (concat bss)\<rparr>)"
    using Cons.IH [of ?x ?s v2] Cons.prems(2-5) by (metis list.set_intros(2))
  have "get_loop (length (bs # bss) + j) E io K A b (Open_File s) v x = get_loop (length bss + j) E io K A b (Open_File ?s) v2 ?x"
    using st1(1) v2 bs(3) by (simp add: after_round_def)
  moreover have "told (replicate (length (bs # bss)) (Get_Req b)) (map data_items (bs # bss)) (world (xscl x)) (world st')"
    using told_trans [OF st1(3), of ?rest "map data_items bss"] *(3) by simp
  ultimately show ?case using *
    by (intro exI [of _ st'] exI [of _ v']) (simp add: append_file_append set_scl_def add.assoc)
qed

text \<open>The last round: a block that is not full ends the loop, an empty one the transfer.\<close>

lemma get_loop_last:
  assumes "client E T (10 + k) (xscl x) (packet SCL_FRETURN (payload (data_items bs)) @ inp)
      (16 + length (request_payload (Get_Req b)) + n)"
    and "callback A = None" and "bs \<noteq> []" "length bs < unat b" "unat b < 2 ^ 30" and "appending K (lfiles x) s"
  shows "\<exists>st' v'. get_loop (Suc j) E io K A b (Open_File s) v x =
      Inr (Inr (v', (set_scl st' x)\<lparr>lfiles := append_file (lfiles x) (s_path s) bs\<rparr>)) \<and>
    client E T k st' inp n \<and> told [Get_Req b] [data_items bs] (world (xscl x)) (world st')"
proof -
  have l: "length bs < 2 ^ 30" using assms(4,5) by simp
  then have "unat (of_nat (length bs) :: c_int) = length bs" by (simp add: unat_of_nat)
  then have ne: "of_nat (length bs) \<noteq> b" using assms(4) by auto
  from get_block_answered [OF assms(1,3) l assms(6)] obtain st1 v1 where st1:
    "get_block E io K b (Open_File s) v x =
      Inr (Inr (of_nat (length bs), Open_File (s\<lparr>s_pos := s_pos s + length bs\<rparr>), v1, (set_scl st1 x)\<lparr>lfiles := append_file (lfiles x) (s_path s) bs\<rparr>))"
    "client E T k st1 inp n" "told [Get_Req b] [data_items bs] (world (xscl x)) (world st1)" by blast
  let ?x = "(set_scl st1 x)\<lparr>lfiles := append_file (lfiles x) (s_path s) bs\<rparr>"
  obtain v2 where v2: "callback_code A v1 ?x = Inr (Inr v2, ?x)" using callback_none [OF assms(2)] by blast
  then show ?thesis using st1 ne by (auto simp: after_round_def)
qed

lemma get_loop_empty:
  assumes "client E T (20 + k) (xscl x) (packet SCL_FRETURN (payload (data_items [])) @ (packet SCL_FRETURN (payload []) @ inp))
      (16 + length (request_payload (Get_Req b)) + (16 + length (request_payload Close_Req) + n))"
  shows "\<exists>st'. get_loop (Suc j) E io K A b f v x =
      Inr (Inl (7, (set_scl st' x)\<lparr>messages := messages x @ [err_str K]\<rparr>)) \<and>
    client E T k st' inp n \<and> told [Get_Req b, Close_Req] [data_items [], []] (world (xscl x)) (world st')"
proof -
  let ?r = "Get_Req b" and ?n = "16 + length (request_payload Close_Req) + n"
  have items: "payload (data_items []) = payload [(Block [], SCL_DATA, of_nat (length ([] :: byte list)))]"
    by (simp add: data_items_def payload_def enc_item_def encode_def scalars_def arrays_def block_of_def)
  have "client E T (9 + (11 + k)) (xscl x) (packet SCL_FRETURN (payload (data_items [])) @ (packet SCL_FRETURN (payload []) @ inp))
      (16 + length (request_payload ?r) + ?n)" using assms by simp
  then obtain st1 where st1: "fcall E io (req_name ?r) (req_args ?r) (xscl x) = Inr st1"
      "reading E st1 (payload (data_items [])) 0" "in_packet_opcode (conn st1) = SCL_FRETURN"
      "client E T (11 + k) st1 (packet SCL_FRETURN (payload []) @ inp) ?n"
      "told [?r] [data_items []] (world (xscl x)) (world st1)"
    by (rule ask) (simp_all add: askable_def items, simp add: payload_def enc_item_def encode_def scalars_def arrays_def block_of_def)
  have d: "drop 0 (payload (data_items [])) = payload ((Block [], SCL_DATA, of_nat (length ([] :: byte list))) # [])"
    by (simp add: items)
  obtain q j where g: "get_data E st1 = Inr ((q, 0), advance st1 j)" "load (advance st1 j) q 0 = Inr []"
    by (rule get_data_items [OF st1(2) d]) simp_all
  have q: "q \<noteq> 0" using g(2) by (auto simp: load_def in_packet_def)
  have "client E T (11 + k) (xscl (set_scl (advance st1 j) x)) (packet SCL_FRETURN (payload []) @ inp) ?n" using st1(4) by simp
  then obtain st' where "\<And>v. scl_il_xfer_exit E io 7 True (err_str K) True (set_scl (advance st1 j) x) =
      Inr (7, (set_scl st' (set_scl (advance st1 j) x))\<lparr>messages := messages x @ [err_str K]\<rparr>)"
    "client E T k st' inp n" "told [Close_Req] [[]] (world (xscl (set_scl (advance st1 j) x))) (world st')"
    by (rule xfer_exit_answered [where code = 7 and print_errno = True and err_msg = "err_str K"]) simp
  moreover from this have "told [Get_Req b, Close_Req] [data_items [], []] (world (xscl x)) (world st')"
    using told_trans [OF st1(5), of "[Close_Req]" "[[]]"] by simp
  ultimately show ?thesis using st1 g q
    by (intro exI [of _ st']) (simp add: get_block_def put_item_def)
qed

end

section \<open>What the server answers to the local side\<close>

fun chunks :: "nat \<Rightarrow> nat \<Rightarrow> byte list \<Rightarrow> byte list list" where
  "chunks b 0 xs = []"
| "chunks b (Suc n) xs = take b xs # chunks b n (drop b xs)"

lemma length_chunks [simp]: "length (chunks b n xs) = n"
  by (induction n arbitrary: xs) simp_all

lemma concat_chunks: "concat (chunks b n xs) = take (n * b) xs"
  by (induction n arbitrary: xs) (simp_all add: take_add)

lemma chunks_append: "chunks b (m + n) xs = chunks b m xs @ chunks b n (drop (m * b) xs)"
  by (induction m arbitrary: xs) (simp_all add: add.commute)

lemma chunks_full: "n * b \<le> length xs \<Longrightarrow> bs \<in> set (chunks b n xs) \<Longrightarrow> length bs = b"
proof (induction n arbitrary: xs)
  case (Suc n)
  then have "n * b \<le> length (drop b xs)" "b \<le> length xs" by simp_all
  with Suc.IH [of "drop b xs"] Suc.prems show ?case by auto
qed simp

definition get_requests :: "byte list option \<Rightarrow> c_int \<Rightarrow> nat \<Rightarrow> request list" where
  "get_requests remote b n =
     [Info_Req (str ''api_version''), Size_Req remote, Open_Req remote (str ''r'')] @ replicate n (Get_Req b) @ [Close_Req]"

lemma answers_blocks:
  "inline_file h = Open_File s \<Longrightarrow> s_reads s \<Longrightarrow> fs h (s_path s) = Some f \<Longrightarrow>
   answers K h (replicate n (Get_Req b) @ [Close_Req]) = map data_items (chunks (unat b) n (drop (s_pos s) (f_bytes f))) @ [[]]"
proof (induction n arbitrary: h s)
  case (Suc n)
  let ?bs = "take (unat b) (drop (s_pos s) (f_bytes f))"
  let ?s = "s\<lparr>s_pos := s_pos s + length ?bs\<rparr>"
  have sv: "serve K h (Get_Req b) = (fs h, Open_File ?s, data_items ?bs)"
    using Suc.prems by (simp add: fread_def data_items_def Let_def)
  have "drop (s_pos ?s) (f_bytes f) = drop (unat b) (drop (s_pos s) (f_bytes f))"
    by (cases "unat b \<le> length (f_bytes f) - s_pos s") (simp_all add: min_def add.commute)
  moreover have "answers K (after K h (Get_Req b)) (replicate n (Get_Req b) @ [Close_Req]) =
      map data_items (chunks (unat b) n (drop (s_pos ?s) (f_bytes f))) @ [[]]"
    by (rule Suc.IH) (use sv Suc.prems in \<open>simp_all add: after_def\<close>)
  ultimately show ?case using sv by simp
qed simp

lemma info_api: "info_items h (str ''api_version'') = Some [(c_int_obj 3, SCL_INT, 0)]"
  by (simp add: info_items_def str_def)

lemma answers_get:
  assumes "fs h p = Some f" and "\<not> denied K p" and "p \<noteq> []"
  shows "answers K h (get_requests (Some p) b n) =
    [(c_int_obj 3, SCL_INT, 0)] #
    [(c_int_obj (of_nat (length (f_bytes f))), SCL_INT, 0), (c_int_obj (and (f_mode f) 0xfff), SCL_INT, 0)] #
    [(c_int_obj 0, SCL_INT, 1), (Null, SCL_STRING, 1)] # map data_items (chunks (unat b) n (f_bytes f)) @ [[]]"
proof -
  let ?s = "\<lparr>s_path = p, s_reads = True, s_writes = False, s_append = False, s_pos = 0\<rparr>"
  let ?h = "h\<lparr>fs := fs h, inline_file := Open_File ?s\<rparr>"
  have "answers K ?h (replicate n (Get_Req b) @ [Close_Req]) = map data_items (chunks (unat b) n (drop 0 (f_bytes f))) @ [[]]"
    using answers_blocks [of ?h ?s f K n b] assms(1) by simp
  moreover have "after K h (Info_Req (str ''api_version'')) = h" "after K h (Size_Req (Some p)) = h"
      "after K h (Open_Req (Some p) (str ''r'')) = ?h"
    using assms by (simp_all add: after_def arrived_def fopen_read)
  ultimately show ?thesis
    using assms by (simp add: get_requests_def arrived_def fopen_read stat_file_def info_api)
qed

end
