(* ===== verification/Xfer_Props.thy ===== *)
theory Xfer_Props
  imports Xfer_Client
begin

text \<open>
  Whole transfers: what \<open>scl_il_xfer_ex\<close> makes of a file whose server side is the one of \<open>Inlines_Server\<close>, and
  the two defects of its ends.
\<close>

section \<open>Getting a file\<close>

lemma requests_append: "requests (rs @ ss) = requests rs @ requests ss"
  by (simp add: requests_def)

lemma replies_append: "replies (as @ bs) = replies as @ replies bs"
  by (simp add: replies_def)

text \<open>The local file after a transfer, and how its mode is set.\<close>

definition mode_before :: "kernel \<Rightarrow> files \<Rightarrow> path \<Rightarrow> c_int" where
  "mode_before K files p = (case files p of None \<Rightarrow> new_mode K | Some g \<Rightarrow> f_mode g)"

definition change_mode :: "c_int \<Rightarrow> c_int \<Rightarrow> c_int" where
  "change_mode old mode = or (and old (not 0xfff)) (and mode 0xfff)"

lemma mode_bits: "and mode 0xfff \<noteq> (-1 :: c_int)"
proof
  assume "and mode 0xfff = (-1 :: c_int)"
  then have "bit (and mode 0xfff) 31" by simp
  then show False by (simp add: bit_simps)
qed

context scl_stream
begin

lemma scl_il_get_copies:
  fixes b :: c_int
  defines "B \<equiv> unat b"
  assumes c: "client E T (61 + 10 * (length (f_bytes f) div B)) (xscl x)
      (replies (answers Kr h (get_requests (Some p) b (Suc (length (f_bytes f) div B)))) @ inp)
      (length (requests (get_requests (Some p) b (Suc (length (f_bytes f) div B)))))"
    and remote: "fs h p = Some f" "\<not> denied Kr p" "p \<noteq> []"
    and b: "0 < B" "B < 2 ^ 30" and A: "callback A = None" and t: "clock x = Some t # ts"
    and loc: "\<not> denied K l" "\<forall>n. \<not> full K l n" and j: "length (f_bytes f) div B < j"
  shows "\<exists>x'. scl_il_get j E io K A (Some l) (Some p) b x = Inr (if B dvd length (f_bytes f) then 7 else 0, x') \<and>
    lfiles x' = (lfiles x)(l \<mapsto> \<lparr>f_bytes = f_bytes f, f_mode = (if B dvd length (f_bytes f) then mode_before K (lfiles x) l
       else change_mode (mode_before K (lfiles x) l) (f_mode f))\<rparr>) \<and>
    told (get_requests (Some p) b (Suc (length (f_bytes f) div B)))
      (answers Kr h (get_requests (Some p) b (Suc (length (f_bytes f) div B)))) (world (xscl x)) (world (xscl x')) \<and>
    incoming (world (xscl x')) = inp"
proof -
  let ?D = "f_bytes f"
  define m where "m = length ?D div B"
  let ?bss = "chunks B m ?D" and ?last = "drop (m * B) ?D"
  have last: "length ?last = length ?D mod B" "length ?last < B"
    using b(1) by (simp_all add: m_def minus_div_mult_eq_mod)
  then have last_nil: "?last = [] \<longleftrightarrow> B dvd length ?D" by (metis dvd_eq_mod_eq_0 length_0_conv)
  have full: "\<forall>bs \<in> set ?bss. length bs = unat b"
  proof
    fix bs assume "bs \<in> set ?bss"
    moreover have "m * B \<le> length ?D" by (simp add: m_def)
    ultimately show "length bs = unat b" unfolding B_def [symmetric] by (intro chunks_full)
  qed
  have bytes: "concat ?bss @ ?last = ?D" by (simp add: concat_chunks)
  have ch: "chunks B (Suc m) ?D = ?bss @ [?last]"
    using chunks_append [of B m 1 ?D] last(2) by simp
  let ?Info = "Info_Req (str ''api_version'')" and ?Size = "Size_Req (Some p)" and ?Open = "Open_Req (Some p) (str ''r'')"
  let ?gets = "replicate m (Get_Req b)"
  have rs: "get_requests (Some p) b (Suc m) = [?Info] @ [?Size] @ [?Open] @ ?gets @ [Get_Req b, Close_Req]"
    by (simp add: get_requests_def replicate_append_same [symmetric])
  let ?a2 = "[(c_int_obj (of_nat (length ?D)), SCL_INT, 0), (c_int_obj (and (f_mode f) 0xfff), SCL_INT, 0)]"
    and ?a3 = "[(c_int_obj 0, SCL_INT, 1), (Null, SCL_STRING, 1)]"
  have ans': "answers Kr h (get_requests (Some p) b (Suc m)) =
      [[(c_int_obj 3, SCL_INT, 0)]] @ [?a2] @ [?a3] @ map data_items ?bss @ [data_items ?last, []]"
    unfolding answers_get [OF remote] B_def [symmetric] ch by simp
  have ans: "replies (answers Kr h (get_requests (Some p) b (Suc m))) =
      packet SCL_FRETURN (payload [(c_int_obj 3, SCL_INT, 0)]) @ packet SCL_FRETURN (payload ?a2) @ packet SCL_FRETURN (payload ?a3) @
      replies (map data_items ?bss) @ packet SCL_FRETURN (payload (data_items ?last)) @ packet SCL_FRETURN (payload [])"
    unfolding ans' by (simp add: replies_Cons replies_append) (simp add: replies_def)
  let ?n4 = "16 + length (request_payload (Get_Req b)) + (16 + length (request_payload Close_Req) + 0)"
  let ?n3 = "length (requests ?gets) + ?n4"
  let ?n2 = "16 + length (request_payload ?Open) + ?n3"
  let ?i5 = "packet SCL_FRETURN (payload []) @ inp"
  let ?i4 = "packet SCL_FRETURN (payload (data_items ?last)) @ ?i5"
  let ?i3 = "replies (map data_items ?bss) @ ?i4"
  let ?i2 = "packet SCL_FRETURN (payload ?a3) @ ?i3"
  have "client E T (10 + (10 + (10 + (10 * length ?bss + 31)))) (xscl x)
      (packet SCL_FRETURN (payload [(c_int_obj 3, SCL_INT, 0)]) @ (packet SCL_FRETURN (payload ?a2) @ ?i2))
      (16 + length (request_payload ?Info) + (16 + length (request_payload ?Size) + ?n2))"
    using c [folded m_def, unfolded ans, unfolded rs requests_append]
    by (simp add: requests_def length_packet algebra_simps)
  then obtain st1 where st1: "ask_int E io ''api_version'' (xscl x) = Inr (3, st1)"
      "client E T (10 + (10 + (10 * length ?bss + 31))) st1 (packet SCL_FRETURN (payload ?a2) @ ?i2)
         (16 + length (request_payload ?Size) + ?n2)"
      "told [?Info] [[(c_int_obj 3, SCL_INT, 0)]] (world (xscl x)) (world st1)"
    by (rule ask_int_answered)
  let ?s = "\<lparr>s_path = l, s_reads = False, s_writes = True, s_append = False, s_pos = 0\<rparr>"
  let ?fs1 = "(lfiles x)(l \<mapsto> \<lparr>f_bytes = [], f_mode = mode_before K (lfiles x) l\<rparr>)"
  have open1: "fopen K (lfiles x) (Some l) (str ''w'') = (Some ?s, ?fs1)"
    using fopen_write [OF loc(1)] by (simp add: mode_before_def)
  obtain N where st2: "\<exists>st2. remote_size_mode E io 3 (Some p) st1 = Inr ((N, and (f_mode f) 0xfff), st2) \<and>
      client E T (10 + (10 * length ?bss + 31)) st2 ?i2 ?n2 \<and> told [?Size] [?a2] (world st1) (world st2)"
    by (rule remote_size_mode_answered [OF st1(2), of 3]) auto
  then obtain st2 where st2: "remote_size_mode E io 3 (Some p) st1 = Inr ((N, and (f_mode f) 0xfff), st2)"
      "client E T (10 + (10 * length ?bss + 31)) st2 ?i2 ?n2" "told [?Size] [?a2] (world st1) (world st2)" by blast
  let ?x1 = "(set_scl st1 x)\<lparr>lfiles := ?fs1\<rparr>"
  let ?x2 = "set_scl st2 ?x1"
  have "client E T (10 + (10 * length ?bss + 31)) (xscl ?x2) ?i2 ?n2" using st2(2) by simp
  then obtain st3 where st3: "open_remote E io K (Some p) ''r'' ?x2 = Inr (Inr (set_scl st3 ?x2))"
      "client E T (10 * length ?bss + 31) st3 ?i3 ?n3" "told [?Open] [?a3] (world (xscl ?x2)) (world st3)"
    by (rule open_remote_answered)
  let ?x3 = "(set_scl st3 ?x2)\<lparr>clock := ts\<rparr>"
  have clk: "gettimeofday (set_scl st3 ?x2) = (Some t, ?x3)" using t by (simp add: gettimeofday_def set_scl_def)
  have x3: "xscl ?x3 = st3" "lfiles ?x3 = ?fs1" by (simp_all add: set_scl_def)
  have app: "appending K (lfiles ?x3) ?s" using loc(2) by (simp add: x3 appending_def)
  have "client E T (10 * length ?bss + 31) (xscl ?x3) (replies (map data_items ?bss) @ ?i4)
      (length (requests (replicate (length ?bss) (Get_Req b))) + ?n4)"
    using st3(2) unfolding x3 by simp
  from get_loop_full [OF this A full _ _ app, of "Suc (j - m - 1)" "start_vars A N t"] b obtain st4 v4 where
    st4: "get_loop (length ?bss + Suc (j - m - 1)) E io K A b (Open_File ?s) (start_vars A N t) ?x3 =
      get_loop (Suc (j - m - 1)) E io K A b (Open_File (?s\<lparr>s_pos := s_pos ?s + length (concat ?bss)\<rparr>)) v4
        ((set_scl st4 ?x3)\<lparr>lfiles := append_file (lfiles ?x3) (s_path ?s) (concat ?bss)\<rparr>)"
    "client E T 31 st4 ?i4 ?n4" "told ?gets (map data_items ?bss) (world (xscl ?x3)) (world st4)"
    "appending K (append_file (lfiles ?x3) (s_path ?s) (concat ?bss)) (?s\<lparr>s_pos := s_pos ?s + length (concat ?bss)\<rparr>)"
    by (auto simp: B_def)
  let ?s4 = "?s\<lparr>s_pos := s_pos ?s + length (concat ?bss)\<rparr>"
  let ?x4 = "(set_scl st4 ?x3)\<lparr>lfiles := append_file ?fs1 l (concat ?bss)\<rparr>"
  have jj: "length ?bss + Suc (j - m - 1) = j" using j by (simp add: m_def)
  have loop: "get_loop j E io K A b (Open_File ?s) (start_vars A N t) ?x3 = get_loop (Suc (j - m - 1)) E io K A b (Open_File ?s4) v4 ?x4"
    using st4(1) unfolding jj x3 by simp
  have run: "scl_il_get j E io K A (Some l) (Some p) b x =
      bind_res (get_loop (Suc (j - m - 1)) E io K A b (Open_File ?s4) v4 ?x4) (\<lambda>r. case r of
        Inl gone \<Rightarrow> Inr gone
      | Inr (v, x4) \<Rightarrow> scl_il_xfer_exit E io 0 False (err_str K) True
          (x4\<lparr>lfiles := snd (chmod K (lfiles x4) (Some l) (and (f_mode f) 0xfff))\<rparr>))"
    using st1(1) st2(1) st3(1) open1 clk loop mode_bits [of "f_mode f"]
    by (simp add: scl_il_get_def scl_il_get_api_version_def Let_def str_def cong: sum.case_cong) 
  have "told [?Open] [?a3] (world st2) (world st3)" "told ?gets (map data_items ?bss) (world st3) (world st4)"
    using st3(3) st4(3) by (simp_all add: x3)
  note told34 = this
  have told4: "told ((([?Info] @ [?Size]) @ [?Open]) @ ?gets) ((([[(c_int_obj 3, SCL_INT, 0)]] @ [?a2]) @ [?a3]) @ map data_items ?bss)
      (world (xscl x)) (world st4)"
    by (rule told_trans [OF told_trans [OF told_trans [OF st1(3) st2(3)] told34(1)] told34(2)])
  have told_end: "told (get_requests (Some p) b (Suc m)) (answers Kr h (get_requests (Some p) b (Suc m))) (world (xscl x)) w"
    if "told [Get_Req b, Close_Req] [data_items ?last, []] (world st4) w" for w
    using told_trans [OF told4 that] unfolding ans' unfolding rs by simp
  have files4: "append_file (append_file ?fs1 l (concat ?bss)) l ?last = ?fs1(l \<mapsto> \<lparr>f_bytes = ?D, f_mode = mode_before K (lfiles x) l\<rparr>)"
    unfolding append_file_append bytes by (simp add: append_file_def)
  show ?thesis
  proof (cases "?last = []")
    case True
    have "client E T (20 + 11) (xscl ?x4) (packet SCL_FRETURN (payload (data_items [])) @ ?i5)
        (16 + length (request_payload (Get_Req b)) + (16 + length (request_payload Close_Req) + 0))"
      using st4(2) unfolding True by simp
    from get_loop_empty [OF this] obtain st' where st':
      "get_loop (Suc (j - m - 1)) E io K A b (Open_File ?s4) v4 ?x4 =
         Inr (Inl (7, (set_scl st' ?x4)\<lparr>messages := messages ?x4 @ [err_str K]\<rparr>))"
      "client E T 11 st' inp 0" "told [Get_Req b, Close_Req] [data_items [], []] (world (xscl ?x4)) (world st')" by blast
    have "told (get_requests (Some p) b (Suc m)) (answers Kr h (get_requests (Some p) b (Suc m))) (world (xscl x)) (world st')"
      by (rule told_end) (use st'(3) True in simp)
    moreover have "append_file ?fs1 l (concat ?bss) = ?fs1(l \<mapsto> \<lparr>f_bytes = ?D, f_mode = mode_before K (lfiles x) l\<rparr>)"
      using files4 unfolding True by simp
    ultimately show ?thesis
      using run st' last_nil True by (simp add: m_def [symmetric] client_def)
  next
    case False
    have "client E T (10 + 21) (xscl ?x4) (packet SCL_FRETURN (payload (data_items ?last)) @ ?i5)
        (16 + length (request_payload (Get_Req b)) + (16 + length (request_payload Close_Req) + 0))"
      using st4(2) by simp
    moreover have "length ?last < unat b" "unat b < 2 ^ 30" "appending K (lfiles ?x4) ?s4"
      using last(2) b(2) st4(4) unfolding B_def by (simp_all add: x3)
    ultimately obtain st5 v5 where st5:
      "get_loop (Suc (j - m - 1)) E io K A b (Open_File ?s4) v4 ?x4 =
         Inr (Inr (v5, (set_scl st5 ?x4)\<lparr>lfiles := append_file (lfiles ?x4) (s_path ?s4) ?last\<rparr>))"
      "client E T 21 st5 ?i5 (16 + length (request_payload Close_Req) + 0)"
      "told [Get_Req b] [data_items ?last] (world (xscl ?x4)) (world st5)"
      using get_loop_last [OF _ A False] by metis
    let ?fs5 = "?fs1(l \<mapsto> \<lparr>f_bytes = ?D, f_mode = mode_before K (lfiles x) l\<rparr>)"
    let ?fs6 = "snd (chmod K ?fs5 (Some l) (and (f_mode f) 0xfff))"
    let ?x6 = "(set_scl st5 ?x4)\<lparr>lfiles := ?fs6\<rparr>"
    have "client E T (11 + 10) (xscl ?x6) (packet SCL_FRETURN (payload []) @ inp) (16 + length (request_payload Close_Req) + 0)"
      using st5(2) by simp
    then obtain st' where st': "scl_il_xfer_exit E io 0 False (err_str K) True ?x6 =
        Inr (0, (set_scl st' ?x6)\<lparr>messages := messages ?x6 @ (if False then [err_str K] else [])\<rparr>)"
      "client E T 10 st' inp 0" "told [Close_Req] [[]] (world (xscl ?x6)) (world st')"
      by (rule xfer_exit_answered [where code = 0 and print_errno = False and err_msg = "err_str K"])
    have "told (get_requests (Some p) b (Suc m)) (answers Kr h (get_requests (Some p) b (Suc m))) (world (xscl x)) (world st')"
      by (rule told_end) (use told_trans [OF st5(3), of "[Close_Req]" "[[]]"] st'(3) in simp)
    moreover have "(set_scl st5 ?x4)\<lparr>lfiles := append_file (lfiles ?x4) (s_path ?s4) ?last\<rparr> = (set_scl st5 ?x4)\<lparr>lfiles := ?fs5\<rparr>"
      using files4 by simp
    moreover have "?fs6 = (lfiles x)(l \<mapsto> \<lparr>f_bytes = ?D, f_mode = change_mode (mode_before K (lfiles x) l) (f_mode f)\<rparr>)"
      using loc(1) by (simp add: chmod_def change_mode_def and.assoc)
    ultimately show ?thesis
      using run st5(1) st'(1,2) last_nil False by (simp add: m_def [symmetric] client_def)
  qed
qed

end
text \<open>C3: Getting a file of the server copies it byte for byte into the local file, which is emptied first, with the
  requests for version, size and mode, opening, blocks and closing in that order; the mode bits follow. When the size of the file is a
  multiple of the block size, and so for an empty file, the last answer is an empty block, \<open>fwrite\<close> of which
  returns 0: then the transfer of a complete copy is reported as the failure 7 and the mode is not set.\<close>

theorem scl_il_xfer_get_copies:
  fixes b :: c_int
  defines "rs p f \<equiv> get_requests (Some p) b (Suc (length (f_bytes f) div unat b))"
  assumes "idle E T (xscl x)" and "ample E T (61 + 10 * (length (f_bytes f) div unat b)) (mem (xscl x))"
    and "prompt (world (xscl x))" and "to_read (world (xscl x)) = replies (answers Kr h (rs p f)) @ more_in"
    and "length (requests (rs p f)) \<le> room_left (world (xscl x))"
    and "fs h p = Some f" "\<not> denied Kr p" "p \<noteq> []"
    and "0 < unat b" "unat b < 2 ^ 30" and "callback A = None" and "clock x = Some t # ts"
    and "\<not> denied K l" "\<forall>n. \<not> full K l n" and "length (f_bytes f) div unat b < j"
  shows "\<exists>x'. scl_il_xfer_ex j E sock_io K A (Some l) (Some p) SCL_IL_XFER_GET b x =
      Inr (if unat b dvd length (f_bytes f) then 7 else 0, x') \<and>
    lfiles x' = (lfiles x)(l \<mapsto> \<lparr>f_bytes = f_bytes f,
       f_mode = (if unat b dvd length (f_bytes f) then mode_before K (lfiles x) l
                 else change_mode (mode_before K (lfiles x) l) (f_mode f))\<rparr>) \<and>
    wire (world (xscl x')) = wire (world (xscl x)) @ requests (rs p f) \<and>
    to_read (world (xscl x')) = more_in"
proof -
  have "\<exists>x'. scl_il_get j E sock_io K A (Some l) (Some p) b x = Inr (if unat b dvd length (f_bytes f) then 7 else 0, x') \<and>
    lfiles x' = (lfiles x)(l \<mapsto> \<lparr>f_bytes = f_bytes f, f_mode = (if unat b dvd length (f_bytes f) then mode_before K (lfiles x) l
       else change_mode (mode_before K (lfiles x) l) (f_mode f))\<rparr>) \<and>
    sockets.told (rs p f) (answers Kr h (rs p f)) (world (xscl x)) (world (xscl x')) \<and> to_read (world (xscl x')) = more_in"
    unfolding rs_def by (rule sockets.scl_il_get_copies) (use assms in \<open>simp_all add: sockets.client_def rs_def\<close>)
  then show ?thesis unfolding scl_il_xfer_ex_def direction.case by (blast dest: sockets.told_sent)
qed

lemma scl_il_xfer_get_copies_witness:
  "\<exists>x x' :: sock xfer. scl_il_xfer_ex 1 large_libc sock_io sample_kernel \<lparr>callback = None, callback_interval = 0, bps = (\<lambda>_ _. 0)\<rparr>
     (Some [108]) (Some [102]) SCL_IL_XFER_GET 4 x = Inr (0, x') \<and>
     lfiles x' = [[108] \<mapsto> \<lparr>f_bytes = [104, 105], f_mode = 0x81a4\<rparr>]"
proof -
  let ?f = "\<lparr>f_bytes = [104, 105], f_mode = 0x81a4\<rparr>" and ?A = "\<lparr>callback = None, callback_interval = 0, bps = (\<lambda>_ _. 0)\<rparr>"
  let ?rs = "get_requests (Some [102]) 4 (Suc (length (f_bytes ?f) div unat (4 :: c_int)))"
  let ?h = "sample_host undefined :: unit host"
  let ?in = "replies (answers sample_kernel ?h ?rs)"
  have ne: "?in \<noteq> []"
    using packet_nonempty by (subst answers_get) (simp_all add: sample_host_def sample_files_def sample_kernel_def replies_Cons)
  obtain T and s :: "sock session" where s: "idle large_libc T (scl s)" "ample large_libc T 900 (mem (scl s))"
    "world (scl s) = dialled ?in" by (rule sample_session [OF ne])
  let ?x = "\<lparr>sess = s, lfiles = (\<lambda>_. None), clock = [Some (0, 0)], messages = [], progress = []\<rparr>"
  have am: "ample large_libc T (61 + 10 * (length (f_bytes ?f) div unat (4 :: c_int))) (mem (xscl ?x))"
    using ample_le [OF s(2), of 61] by simp
  have "length (requests ?rs) \<le> 10004"
    by (simp add: get_requests_def requests_def length_packet request_payload_def call_items_def payload_def enc_item_str
      enc_item_int length_enc_string text_of_def str_def)
  then have "\<exists>x'. scl_il_xfer_ex 1 large_libc sock_io sample_kernel ?A (Some [108]) (Some [102]) SCL_IL_XFER_GET 4 ?x =
      Inr (if unat (4 :: c_int) dvd length (f_bytes ?f) then 7 else 0, x') \<and>
    lfiles x' = (lfiles ?x)([108] \<mapsto> \<lparr>f_bytes = f_bytes ?f,
       f_mode = (if unat (4 :: c_int) dvd length (f_bytes ?f) then mode_before sample_kernel (lfiles ?x) [108]
                 else change_mode (mode_before sample_kernel (lfiles ?x) [108]) (f_mode ?f))\<rparr>) \<and>
    wire (world (xscl x')) = wire (world (xscl ?x)) @ requests ?rs \<and> to_read (world (xscl x')) = []"
    by (intro scl_il_xfer_get_copies [where T = T and h = ?h and Kr = sample_kernel and t = "(0, 0)" and ts = "[]"])
      (use s am ne in \<open>simp_all add: dialled sample_host_def sample_files_def sample_kernel_def\<close>)
  moreover have nd: "\<not> unat (4 :: c_int) dvd length (f_bytes ?f)" by (auto dest: dvd_imp_le)
  moreover have mb: "mode_before sample_kernel (lfiles ?x) [108] = 0x81a4" by (simp add: mode_before_def sample_kernel_def)
  ultimately obtain x' where "scl_il_xfer_ex 1 large_libc sock_io sample_kernel ?A (Some [108]) (Some [102]) SCL_IL_XFER_GET 4 ?x = Inr (0, x')"
      "lfiles x' = [[108] \<mapsto> \<lparr>f_bytes = [104, 105], f_mode = change_mode 0x81a4 0x81a4\<rparr>]"
    unfolding if_not_P [OF nd] mb by auto
  then show ?thesis by (intro exI [of _ ?x] exI [of _ x']) (simp add: change_mode_def)
qed

section \<open>Both ends\<close>

lemma all_servable_blocks:
  "inline_file h = Open_File s \<Longrightarrow> 0 < unat b \<Longrightarrow> unat b < 2 ^ 30 \<Longrightarrow>
   all_servable K h (replicate n (Get_Req b) @ [Close_Req])"
proof (induction n arbitrary: h s)
  case (Suc n)
  obtain bs s' where "fread (fs h) s (unat b) = (bs, s')" by (cases "fread (fs h) s (unat b)")
  then have "inline_file (after K h (Get_Req b)) = Open_File s'" using Suc.prems(1) by (simp add: after_def Let_def)
  from Suc.IH [OF this Suc.prems(2,3)] Suc.prems show ?case by simp
qed simp

lemma all_servable_get:
  assumes "fs h p = Some f" and "\<not> denied K p" and "p \<noteq> []" "0 \<notin> set p" and "0 < unat b" "unat b < 2 ^ 30"
  shows "all_servable K h (get_requests (Some p) b n)"
proof -
  let ?s = "\<lparr>s_path = p, s_reads = True, s_writes = False, s_append = False, s_pos = 0\<rparr>"
  let ?h = "h\<lparr>fs := fs h, inline_file := Open_File ?s\<rparr>"
  have "all_servable K ?h (replicate n (Get_Req b) @ [Close_Req])"
    using assms(5,6) by (intro all_servable_blocks) simp_all
  moreover have "after K h (Info_Req (str ''api_version'')) = h" "after K h (Size_Req (Some p)) = h"
      "after K h (Open_Req (Some p) (str ''r'')) = ?h"
    using assms by (simp_all add: after_def arrived_def fopen_read)
  ultimately show ?thesis
    using assms(4) by (simp add: get_requests_def info_api) (simp add: str_def)
qed

lemma request_payload_small:
  assumes "length p < 2 ^ 30"
  shows "\<forall>r \<in> set (get_requests (Some p) b n). length (request_payload r) < 2 ^ 31"
proof -
  have "length (text_of (Some (p @ [0]))) \<le> length p"
    unfolding text_of_def by (simp add: takeWhile_append length_takeWhile_le)
  then show ?thesis
    using assms by (auto simp: get_requests_def request_payload_def call_items_def payload_def enc_item_str enc_item_int
      length_enc_string text_of_def str_def)
qed

text \<open>What one end notes while requests are sent and answered: each answer is read after its request was sent.\<close>

definition dialogue :: "request list \<Rightarrow> (object \<times> scl_type \<times> c_int) list list \<Rightarrow> event list" where
  "dialogue rs as = concat (map (\<lambda>(r, items). map Sent (packet SCL_FCALL (request_payload r)) @
     map Received (packet SCL_FRETURN (payload items))) (zip rs as))"

lemma fold_snoc_concat: "fold (\<lambda>x g. g @ f x) xs g = g @ concat (map f xs)"
  by (induction xs arbitrary: g) simp_all

lemma told_dialogue: "logged.told rs as w w' \<Longrightarrow> snd w' = snd w @ dialogue rs as"
  using fold_snoc_concat [of "\<lambda>(r, items). map Sent (packet SCL_FCALL (request_payload r)) @ map Received (packet SCL_FRETURN (payload items))"]
  by (simp add: logged.told_def dialogue_def case_prod_unfold)

lemma serving_dialogue: "logged.serving rs as g = g @ map other_end (dialogue rs as)"
  using fold_snoc_concat [of "\<lambda>(r, items). map Received (packet SCL_FCALL (request_payload r)) @ map Sent (packet SCL_FRETURN (payload items))"]
  by (simp add: logged.serving_def dialogue_def case_prod_unfold map_concat comp_def)

text \<open>C1: Getting a file end to end, local and remote side together. When each side reads what the other one sends, the transfer
  runs to its end, the suvlet answers exactly its requests, and the bytes of the local file are those of the remote one. The logs of the two
  ends are mirror images of each other, in which every answer follows its request: so the two can run at the same time
  over two channels that are empty at first, and neither waits for a byte that the other end sends only later. As for the local side alone,
  a size that is a multiple of the block size makes the transfer of a complete copy report the failure 7. The remote file exists and
  may be opened, the local one may be opened and does not run full, the block size is positive and below \<open>2^30\<close>, both ends have the memory they need and their
  connections keep up. Only getting is covered, without a callback: putting a file to this server ends in a fault after its last block.\<close>

theorem transfer_end_to_end:
  fixes b :: c_int
  defines "rs p f \<equiv> get_requests (Some p) b (Suc (length (f_bytes f) div unat b))"
  assumes remote: "fs h p = Some f" "\<not> denied Kr p" "p \<noteq> []" "0 \<notin> set p" "length p < 2 ^ 30"
    and block: "0 < unat b" "unat b < 2 ^ 30" "length (f_bytes f) div unat b < j"
    and loc: "callback A = None" "clock x = Some t # ts" "\<not> denied K l" "\<forall>n. \<not> full K l n"
    and client: "idle E T (xscl x)" "ample E T (61 + 10 * (length (f_bytes f) div unat b)) (mem (xscl x))" "prompt (fst (world (xscl x)))"
      "length (requests (rs p f)) \<le> room_left (fst (world (xscl x)))" "to_read (fst (world (xscl x))) = replies (answers Kr h (rs p f))"
    and server: "idle F S (hscl h)" "ample F S (8 * length (rs p f)) (mem (hscl h))" "prompt (fst (world (hscl h)))"
      "length (replies (answers Kr h (rs p f))) \<le> room_left (fst (world (hscl h)))" "to_read (fst (world (hscl h))) = requests (rs p f)"
  shows "\<exists>x' st' log. scl_il_xfer_ex j E logged_io K A (Some l) (Some p) SCL_IL_XFER_GET b x =
      Inr (if unat b dvd length (f_bytes f) then 7 else 0, x') \<and>
    serve_requests (length (rs p f)) blank_suvlet F logged_io Kr a h = Inr (Running a ((foldl (after Kr) h (rs p f))\<lparr>hscl := st'\<rparr>)) \<and>
    map_option f_bytes (lfiles x' l) = map_option f_bytes (fs h p) \<and>
    log = dialogue (rs p f) (answers Kr h (rs p f)) \<and>
    snd (world (xscl x')) = snd (world (xscl x)) @ log \<and>
    snd (world st') = snd (world (hscl h)) @ map other_end log \<and>
    joint\<^sup>*\<^sup>* (log, map other_end log, [], []) ([], [], [], [])"
proof -
  let ?rs = "rs p f"
  have "\<exists>x'. scl_il_get j E logged_io K A (Some l) (Some p) b x = Inr (if unat b dvd length (f_bytes f) then 7 else 0, x') \<and>
    lfiles x' = (lfiles x)(l \<mapsto> \<lparr>f_bytes = f_bytes f, f_mode = (if unat b dvd length (f_bytes f) then mode_before K (lfiles x) l
       else change_mode (mode_before K (lfiles x) l) (f_mode f))\<rparr>) \<and>
    logged.told ?rs (answers Kr h ?rs) (world (xscl x)) (world (xscl x')) \<and> to_read (fst (world (xscl x'))) = []"
    unfolding rs_def
    by (rule logged.scl_il_get_copies) (use remote block loc client in \<open>simp_all add: logged.client_def rs_def\<close>)
  moreover have "\<exists>st'. serve_requests (length ?rs) blank_suvlet F logged_io Kr a h =
      Inr (Running a ((foldl (after Kr) h ?rs)\<lparr>hscl := st'\<rparr>)) \<and> idle F S st' \<and> to_read (fst (world st')) = [] \<and>
    wire (fst (world st')) = wire (fst (world (hscl h))) @ replies (answers Kr h ?rs) \<and>
    snd (world st') = logged.serving ?rs (answers Kr h ?rs) (snd (world (hscl h)))"
    by (rule logged.serve_requests_serves)
      (use server request_payload_small [OF remote(5)] in
        \<open>simp_all add: rs_def blank_suvlet_def all_servable_get [OF remote(1-4) block(1,2)]\<close>)
  ultimately obtain x' st' where
    "scl_il_get j E logged_io K A (Some l) (Some p) b x = Inr (if unat b dvd length (f_bytes f) then 7 else 0, x')"
    "map_option f_bytes (lfiles x' l) = Some (f_bytes f)" "snd (world (xscl x')) = snd (world (xscl x)) @ dialogue ?rs (answers Kr h ?rs)"
    "serve_requests (length ?rs) blank_suvlet F logged_io Kr a h = Inr (Running a ((foldl (after Kr) h ?rs)\<lparr>hscl := st'\<rparr>))"
    "snd (world st') = snd (world (hscl h)) @ map other_end (dialogue ?rs (answers Kr h ?rs))"
    by (auto simp: serving_dialogue dest: told_dialogue)
  then show ?thesis using remote(1) joint_mirror by (auto simp: scl_il_xfer_ex_def)
qed

lemma length_get_requests [simp]: "length (get_requests r b n) = n + 4"
  by (simp add: get_requests_def)

lemma sample_get_lengths:
  "length (requests (get_requests (Some [102]) 4 1)) \<le> 10004"
  "answers sample_kernel (sample_host st) (get_requests (Some [102]) 4 1) =
     [[(c_int_obj 3, SCL_INT, 0)], [(c_int_obj 2, SCL_INT, 0), (c_int_obj 0x1a4, SCL_INT, 0)],
      [(c_int_obj 0, SCL_INT, 1), (Null, SCL_STRING, 1)], [(Block [104, 105], SCL_DATA, 2)], []]"
  "length (replies (answers sample_kernel (sample_host st) (get_requests (Some [102]) 4 1))) \<le> 10004"
proof -
  show "length (requests (get_requests (Some [102]) 4 1)) \<le> 10004"
    by (simp add: get_requests_def requests_def length_packet request_payload_def call_items_def payload_def enc_item_str
      enc_item_int length_enc_string text_of_def str_def)
  show a: "answers sample_kernel (sample_host st) (get_requests (Some [102]) 4 1) =
     [[(c_int_obj 3, SCL_INT, 0)], [(c_int_obj 2, SCL_INT, 0), (c_int_obj 0x1a4, SCL_INT, 0)],
      [(c_int_obj 0, SCL_INT, 1), (Null, SCL_STRING, 1)], [(Block [104, 105], SCL_DATA, 2)], []]"
    using answers_get [of "sample_host st" "[102]" "\<lparr>f_bytes = [104, 105], f_mode = 0x81a4\<rparr>" sample_kernel 4 1]
    by (simp add: sample_host_def sample_files_def sample_kernel_def data_items_def)
  show "length (replies (answers sample_kernel (sample_host st) (get_requests (Some [102]) 4 1))) \<le> 10004"
    unfolding a by (simp add: replies_def length_packet payload_def enc_item_def encode_def scalars_def arrays_def c_int_obj_def
      block_of_def enc_string_def string_ptr_def text_of_def)
qed

text \<open>A connection with a log.\<close>

definition logging :: "sock scl \<Rightarrow> logged scl" where
  "logging st = \<lparr>mem = mem st, eles = eles st, cur_ele = cur_ele st, world = (world st, []), conn = conn st\<rparr>"

lemma logging_simps [simp]: "mem (logging st) = mem st" "world (logging st) = (world st, [])" "idle E T (logging st) = idle E T st"
  by (simp_all add: logging_def idle_def queue_def queue_at_def)

lemma transfer_end_to_end_witness:
  "\<exists>(x :: logged xfer) x' h (h' :: logged host) log. scl_il_xfer_ex 1 large_libc logged_io sample_kernel
       \<lparr>callback = None, callback_interval = 0, bps = (\<lambda>_ _. 0)\<rparr> (Some [108]) (Some [102]) SCL_IL_XFER_GET 4 x = Inr (0, x') \<and>
     serve_requests 5 blank_suvlet large_libc logged_io sample_kernel () h = Inr (Running () h') \<and>
     map_option f_bytes (lfiles x' [108]) = Some [104, 105] \<and>
     snd (world (xscl x')) = log \<and> snd (world (hscl h')) = map other_end log"
proof -
  let ?A = "\<lparr>callback = None, callback_interval = 0, bps = (\<lambda>_ _. 0)\<rparr>" and ?f = "\<lparr>f_bytes = [104, 105], f_mode = 0x81a4\<rparr>"
  let ?rs = "get_requests (Some [102]) 4 1"
  let ?in = "replies (answers sample_kernel (sample_host undefined :: unit host) ?rs)"
  have ne: "?in \<noteq> []" "requests ?rs \<noteq> []"
    using packet_nonempty by (simp_all add: sample_get_lengths(2) replies_Cons requests_def get_requests_def)
  obtain T and s :: "sock session" where s: "idle large_libc T (scl s)" "ample large_libc T 900 (mem (scl s))"
    "world (scl s) = dialled ?in" by (rule sample_session [OF ne(1)])
  obtain S and s' :: "sock session" where s': "idle large_libc S (scl s')" "ample large_libc S 900 (mem (scl s'))"
    "world (scl s') = dialled (requests ?rs)" by (rule sample_session [OF ne(2)])
  let ?s = "\<lparr>scl = logging (scl s), conn_at = 0, fd_open = True, reports = []\<rparr>"
  let ?x = "\<lparr>sess = ?s, lfiles = (\<lambda>_. None), clock = [Some (0, 0)], messages = [], progress = []\<rparr>"
  let ?h = "sample_host (logging (scl s'))"
  have m: "Suc (length (f_bytes ?f) div unat (4 :: c_int)) = 1" by simp
  have nd: "\<not> (4 :: nat) dvd Suc (Suc 0)" by (auto dest: dvd_imp_le)
  have a: "answers sample_kernel ?h ?rs = answers sample_kernel (sample_host undefined :: unit host) ?rs"
    by (simp only: sample_get_lengths(2))
  have am: "ample large_libc T (61 + 10 * (length (f_bytes ?f) div unat (4 :: c_int))) (mem (xscl ?x))"
      "ample large_libc S (8 * length ?rs) (mem (hscl ?h))"
    using ample_le [OF s(2), of 61] ample_le [OF s'(2), of 40] by (simp_all add: sample_host_def)
  have "\<exists>x' st' log. scl_il_xfer_ex 1 large_libc logged_io sample_kernel ?A (Some [108]) (Some [102]) SCL_IL_XFER_GET 4 ?x =
      Inr (if unat (4 :: c_int) dvd length (f_bytes ?f) then 7 else 0, x') \<and>
    serve_requests (length ?rs) blank_suvlet large_libc logged_io sample_kernel () ?h =
      Inr (Running () ((foldl (after sample_kernel) ?h ?rs)\<lparr>hscl := st'\<rparr>)) \<and>
    map_option f_bytes (lfiles x' [108]) = map_option f_bytes (fs ?h [102]) \<and>
    log = dialogue ?rs (answers sample_kernel ?h ?rs) \<and>
    snd (world (xscl x')) = snd (world (xscl ?x)) @ log \<and>
    snd (world st') = snd (world (hscl ?h)) @ map other_end log \<and>
    joint\<^sup>*\<^sup>* (log, map other_end log, [], []) ([], [], [], [])"
    by (rule transfer_end_to_end [where f = ?f and T = T and S = S and p = "[102]" and h = ?h and b = 4 and t = "(0, 0)" and ts = "[]", unfolded m])
      (use s s' am ne sample_get_lengths(1,3) a in \<open>simp_all add: dialled sample_host_def sample_files_def sample_kernel_def\<close>)
  then obtain x' st' log where
    "scl_il_xfer_ex 1 large_libc logged_io sample_kernel ?A (Some [108]) (Some [102]) SCL_IL_XFER_GET 4 ?x = Inr (0, x')"
    "serve_requests 5 blank_suvlet large_libc logged_io sample_kernel () ?h =
      Inr (Running () ((foldl (after sample_kernel) ?h ?rs)\<lparr>hscl := st'\<rparr>))"
    "map_option f_bytes (lfiles x' [108]) = Some [104, 105]" "snd (world (xscl x')) = log" "snd (world st') = map other_end log"
    using nd by (auto simp: sample_host_def sample_files_def)
  then show ?thesis by (intro exI [of _ ?x] exI [of _ x'] exI [of _ ?h] exI [of _ "(foldl (after sample_kernel) ?h ?rs)\<lparr>hscl := st'\<rparr>"] exI [of _ log]) simp
qed

end
