(* ===== verification/Put_Props.thy ===== *)
theory Put_Props
  imports Xfer_Props
begin

text \<open>
  Putting a file: the blocks the local side sends, and the read past the last answer of a server of
  version 3.
\<close>

section \<open>The blocks\<close>

function blocks :: "nat \<Rightarrow> byte list \<Rightarrow> byte list list" where
  "blocks b xs = (if xs = [] \<or> b = 0 then [] else take b xs # blocks b (drop b xs))"
  by pat_completeness auto
termination by (relation "measure (\<lambda>(b, xs). length xs)") auto

declare blocks.simps [simp del]

lemma blocks_nil [simp]: "blocks b [] = []"
  by (simp add: blocks.simps)

lemma blocks_step: "xs \<noteq> [] \<Longrightarrow> 0 < b \<Longrightarrow> blocks b xs = take b xs # blocks b (drop b xs)"
  by (subst blocks.simps) simp

lemma concat_blocks: "0 < b \<Longrightarrow> concat (blocks b xs) = xs"
  by (induction b xs rule: blocks.induct) (subst blocks.simps, simp)

lemma length_blocks: "length (blocks b xs) \<le> length xs"
proof (induction b xs rule: blocks.induct)
  case (1 b xs)
  show ?case
  proof (cases "xs = [] \<or> b = 0")
    case True
    then show ?thesis by (subst blocks.simps) simp
  next
    case False
    then have "length (drop b xs) < length xs" by simp
    with 1 [OF False] False show ?thesis by (subst blocks.simps) (simp del: length_drop)
  qed
qed

definition stored :: "(object \<times> scl_type \<times> c_int) list" where
  "stored = [(c_bool_obj 0, SCL_BOOL, 1)]"

lemma payload_stored: "payload stored = [0]"
  by (simp add: stored_def payload_def enc_item_def encode_def scalars_def block_of_def c_bool_obj_def)

definition put_requests :: "byte list option \<Rightarrow> nat \<Rightarrow> byte list \<Rightarrow> request list" where
  "put_requests remote b xs =
     [Info_Req (str ''api_version''), Open_Req remote (str ''w'')] @ map Put_Req (blocks b xs)"

context scl_stream
begin

lemma put_block_answered:
  assumes "client E T (10 + k) (xscl x) (packet SCL_FRETURN (payload stored) @ inp) (16 + length (request_payload (Put_Req bs)) + n)"
    and "length bs < 2 ^ 30"
  obtains st' v' where "put_block E io err_msg bs v x = Inr (Inr (v', set_scl st' x))"
    "client E T k st' inp n" "told [Put_Req bs] [stored] (world (xscl x)) (world st')"
proof -
  let ?r = "Put_Req bs"
  have "client E T (9 + (1 + k)) (xscl x) (packet SCL_FRETURN (payload stored) @ inp) (16 + length (request_payload ?r) + n)"
    using assms(1) by simp
  then obtain st1 where st1: "fcall E io (req_name ?r) (req_args ?r) (xscl x) = Inr st1"
      "reading E st1 (payload stored) 0" "in_packet_opcode (conn st1) = SCL_FRETURN" "client E T (1 + k) st1 inp n"
      "told [?r] [stored] (world (xscl x)) (world st1)"
    by (rule ask) (use assms(2) in \<open>simp_all add: askable_def payload_stored\<close>)
  have g: "scl_get_value E st1 SCL_BOOL False = Inr (cursor st1, None, advance st1 1)"
    using get_scalar [of SCL_BOOL E st1 False] by (simp add: scalars_def)
  have r: "reading E (advance st1 (of_nat 1)) [0] (0 + 1)"
    using st1(2) by (intro reading_advance) (simp_all add: payload_stored)
  have "load (advance st1 1) (in_pdata (conn (advance st1 (of_nat 1))) + of_nat 0) 1 = Inr (take 1 (drop 0 [0]))"
    using load_at [OF r, of 0 1] by simp
  then have l: "load (advance st1 1) (cursor st1) 1 = Inr [0]" using readingD(2) [OF st1(2)] by simp
  have "client E T (1 + k) (advance st1 1) inp n" using st1(4) by simp
  then obtain m where "scl_free_packet_mem E (advance st1 1) = Inr ((advance st1 1)\<lparr>mem := m\<rparr>)"
      "client E T k ((advance st1 1)\<lparr>mem := m\<rparr>) inp n" by (rule client_free)
  then show thesis using st1 g l
    by (intro that [of "v\<lparr>transfered := transfered v + of_nat (length bs)\<rparr>" "(advance st1 1)\<lparr>mem := m\<rparr>"])
      (simp_all add: put_block_def)
qed

lemma put_loop_blocks:
  assumes "client E T (10 * length (blocks (unat b) rest) + k) (xscl x)
      (replies (replicate (length (blocks (unat b) rest)) stored) @ inp)
      (length (requests (map Put_Req (blocks (unat b) rest))) + n)"
    and "callback A = None" and "0 < unat b" "unat b < 2 ^ 30"
    and "s_reads s" and "lfiles x (s_path s) = Some f" and "drop (s_pos s) (f_bytes f) = rest"
    and "length (blocks (unat b) rest) < j"
  shows "\<exists>st' v'. put_loop j E io K A True b (Open_File s) v x = Inr (Inr (v', set_scl st' x)) \<and>
    client E T k st' inp n \<and>
    told (map Put_Req (blocks (unat b) rest)) (replicate (length (blocks (unat b) rest)) stored) (world (xscl x)) (world st')"
  using assms
proof (induction rest arbitrary: x s v j rule: length_induct)
  case (1 rest)
  note prems = 1(2-)
  from prems(8) obtain i where j: "j = Suc i" by (cases j) auto
  have nb: "b \<noteq> 0" "\<not> b <s 0" using prems(3,4) by (auto simp: small_nonneg)
  let ?bs = "take (unat b) rest" and ?s = "s\<lparr>s_pos := s_pos s + length (take (unat b) rest)\<rparr>"
  have rd: "read_chunk True (lfiles x) (Open_File s) b = Inr (?bs, Open_File ?s)"
    using prems(5-7) nb by (simp add: read_chunk_def deref_file_def fread_def)
  show ?case
  proof (cases "rest = []")
    case True
    have "set_scl (xscl x) x = x" by (simp add: set_scl_def)
    then show ?thesis
      using prems rd True j by (intro exI [of _ "xscl x"] exI [of _ v]) (simp add: replies_def requests_def told_none)
  next
    case False
    let ?rest = "drop (unat b) rest"
    have bl: "blocks (unat b) rest = ?bs # blocks (unat b) ?rest" using False prems(3) by (rule blocks_step)
    have bs: "?bs \<noteq> []" "length ?bs < 2 ^ 30" using False prems(3,4) by auto
    have "client E T (10 + (10 * length (blocks (unat b) ?rest) + k)) (xscl x)
        (packet SCL_FRETURN (payload stored) @ (replies (replicate (length (blocks (unat b) ?rest)) stored) @ inp))
        (16 + length (request_payload (Put_Req ?bs)) + (length (requests (map Put_Req (blocks (unat b) ?rest))) + n))"
      using prems(1) unfolding bl
      by (simp add: replies_Cons requests_Cons(2) requests_Cons(1) [of _ "map Put_Req (blocks (unat b) ?rest)"] algebra_simps)
    from put_block_answered [OF this bs(2)] obtain st1 v1 where st1:
      "put_block E io (err_str K) ?bs v x = Inr (Inr (v1, set_scl st1 x))"
      "client E T (10 * length (blocks (unat b) ?rest) + k) st1
        (replies (replicate (length (blocks (unat b) ?rest)) stored) @ inp) (length (requests (map Put_Req (blocks (unat b) ?rest))) + n)"
      "told [Put_Req ?bs] [stored] (world (xscl x)) (world st1)" by blast
    obtain v2 where v2: "callback_code A v1 (set_scl st1 x) = Inr (Inr v2, set_scl st1 x)"
      using callback_none [OF prems(2)] by blast
    have "drop (s_pos ?s) (f_bytes f) = ?rest"
      using prems(7) by (cases "unat b \<le> length rest") (auto simp: min_def add.commute)
    moreover have "length ?rest < length rest" using False prems(3) by simp
    moreover have "client E T (10 * length (blocks (unat b) ?rest) + k) (xscl (set_scl st1 x))
        (replies (replicate (length (blocks (unat b) ?rest)) stored) @ inp) (length (requests (map Put_Req (blocks (unat b) ?rest))) + n)"
      using st1(2) by simp
    moreover have "length (blocks (unat b) ?rest) < i" using prems(8) j bl by simp
    ultimately obtain st' v' where "put_loop i E io K A True b (Open_File ?s) v2 (set_scl st1 x) = Inr (Inr (v', set_scl st' (set_scl st1 x)))"
      "client E T k st' inp n"
      "told (map Put_Req (blocks (unat b) ?rest)) (replicate (length (blocks (unat b) ?rest)) stored) (world (xscl (set_scl st1 x))) (world st')"
      using 1(1) [rule_format, of ?rest "set_scl st1 x" ?s i v2] prems(2-6) by auto
    moreover from this st1(3) have "told (map Put_Req (blocks (unat b) rest)) (replicate (length (blocks (unat b) rest)) stored)
        (world (xscl x)) (world st')"
      unfolding bl using told_trans [of "[Put_Req ?bs]" "[stored]"] by fastforce
    ultimately show ?thesis using st1 rd v2 bs(1) j
      by (intro exI [of _ st'] exI [of _ v']) (simp add: after_round_def)
  qed
qed

text \<open>The answer to the setting of the mode is one byte long.\<close>

lemma set_remote_mode_overrun:
  assumes "client E T (9 + k) (xscl x) (packet SCL_FRETURN (payload [(c_int_obj r, SCL_BOOL, 0)]) @ inp)
      (16 + length (request_payload (Mode_Req name mode)) + n)"
  shows "set_remote_mode E io name mode x = Inl Out_Of_Bounds"
proof -
  let ?items = "[(c_int_obj r, SCL_BOOL, 0)]"
  have p: "length (payload ?items) = 1"
    by (simp add: payload_def enc_item_def encode_def scalars_def block_of_def c_int_obj_def)
  from assms obtain st1 where st1: "fcall E io (req_name (Mode_Req name mode)) (req_args (Mode_Req name mode)) (xscl x) = Inr st1"
      "reading E st1 (payload ?items) 0"
    by (rule ask) (simp_all add: askable_def p)
  have g: "scl_get_value E st1 SCL_INT False = Inr (cursor st1, None, advance st1 4)"
    using get_scalar [of SCL_INT E st1 False] by (simp add: scalars_def)
  have "cursor st1 = in_pdata (conn st1)" "in_pdata (conn st1) \<noteq> 0" "heap (mem st1) (in_pdata (conn st1)) = Some (payload ?items)"
    using st1(2) by (simp_all add: reading_def)
  then have "load_int (advance st1 4) (cursor st1) = Inl Out_Of_Bounds"
    using p by (simp add: load_int_def load_def in_packet_def)
  with st1(1) g show ?thesis by (simp add: set_remote_mode_def get_int_def)
qed

text \<open>A transfer up to the end of the loop, for a server of version \<open>v\<close>.\<close>

lemma scl_il_put_blocks:
  fixes b v :: c_int
  defines "B \<equiv> unat b"
  assumes c: "client E T (20 + (10 * length (blocks B (f_bytes f)) + k)) (xscl x)
      (replies ([[(c_int_obj v, SCL_INT, 0)], [(c_int_obj 0, SCL_INT, 1), (Null, SCL_STRING, 1)]] @
         replicate (length (blocks B (f_bytes f))) stored) @ inp)
      (length (requests (put_requests (Some p) B (f_bytes f))) + n)"
    and loc: "lfiles x l = Some f" "\<not> denied K l" and b: "0 < B" "B < 2 ^ 30" and A: "callback A = None"
    and t: "clock x = Some t # ts" and j: "length (blocks B (f_bytes f)) < j"
  shows "\<exists>x'. scl_il_put j E io K A (Some l) (Some p) b x =
      bind_res (if 3 \<le>s v then set_remote_mode E io (Some p) (f_mode f) x' else Inr x')
        (\<lambda>x5. scl_il_xfer_exit E io 0 False (err_str K) True x5) \<and>
    client E T k (xscl x') inp n \<and> lfiles x' = lfiles x \<and>
    sent (world (xscl x')) = sent (world (xscl x)) @ requests (put_requests (Some p) B (f_bytes f))"
proof -
  let ?D = "f_bytes f"
  let ?Info = "Info_Req (str ''api_version'')" and ?Open = "Open_Req (Some p) (str ''w'')" and ?puts = "map Put_Req (blocks B ?D)"
  let ?a2 = "[(c_int_obj 0, SCL_INT, 1), (Null, SCL_STRING, 1)]"
  let ?n3 = "length (requests ?puts) + n"
  let ?n2 = "16 + length (request_payload ?Open) + ?n3"
  let ?i3 = "replies (replicate (length (blocks B ?D)) stored) @ inp"
  let ?i2 = "packet SCL_FRETURN (payload ?a2) @ ?i3"
  have rs: "put_requests (Some p) B ?D = [?Info] @ [?Open] @ ?puts" by (simp add: put_requests_def)
  have "client E T (10 + (10 + (10 * length (blocks B ?D) + k))) (xscl x)
      (packet SCL_FRETURN (payload [(c_int_obj v, SCL_INT, 0)]) @ ?i2) (16 + length (request_payload ?Info) + ?n2)"
    using c [unfolded rs requests_append] by (simp add: replies_Cons requests_def length_packet algebra_simps)
  then obtain st1 where st1: "ask_int E io ''api_version'' (xscl x) = Inr (v, st1)"
      "client E T (10 + (10 * length (blocks B ?D) + k)) st1 ?i2 ?n2" "told [?Info] [[(c_int_obj v, SCL_INT, 0)]] (world (xscl x)) (world st1)"
    by (rule ask_int_answered)
  have "malloc E (mem (xscl x)) (unat b) \<noteq> None"
  proof (rule ample_malloc)
    show "ample E T (20 + (10 * length (blocks B ?D) + k)) (mem (xscl x))" "in_mem_id (conn (xscl x)) \<in> T"
      using c by (simp_all add: client_def idle_def)
  qed (use b in \<open>simp_all add: B_def\<close>)
  then have buf: "malloc_int E (mem (xscl x)) b" using b by (simp add: malloc_int_def B_def small_nonneg)
  let ?s = "\<lparr>s_path = l, s_reads = True, s_writes = False, s_append = False, s_pos = 0\<rparr>"
  have open1: "fopen K (lfiles x) (Some l) (str ''r'') = (Some ?s, lfiles x)" using fopen_read loc by blast
  let ?x1 = "set_scl st1 x"
  have "client E T (10 + (10 * length (blocks B ?D) + k)) (xscl ?x1) ?i2 ?n2" using st1(2) by simp
  then obtain st2 where st2: "open_remote E io K (Some p) ''w'' ?x1 = Inr (Inr (set_scl st2 ?x1))"
      "client E T (10 * length (blocks B ?D) + k) st2 ?i3 ?n3" "told [?Open] [?a2] (world (xscl ?x1)) (world st2)"
    by (rule open_remote_answered)
  let ?x2 = "(set_scl st2 ?x1)\<lparr>clock := ts\<rparr>"
  have clk: "gettimeofday (set_scl st2 ?x1) = (Some t, ?x2)" using t by (simp add: gettimeofday_def set_scl_def)
  have x2: "xscl ?x2 = st2" "lfiles ?x2 = lfiles x" by (simp_all add: set_scl_def)
  have "client E T (10 * length (blocks (unat b) ?D) + k) (xscl ?x2)
      (replies (replicate (length (blocks (unat b) ?D)) stored) @ inp) (length (requests (map Put_Req (blocks (unat b) ?D))) + n)"
    using st2(2) unfolding x2 B_def .
  from put_loop_blocks [OF this A, where s = ?s and f = f and j = j and v = "start_vars A (of_nat (length ?D)) t" and K = K] loc(1) b j x2(2) obtain st3 v3 where
    st3: "put_loop j E io K A True b (Open_File ?s) (start_vars A (of_nat (length ?D)) t) ?x2 = Inr (Inr (v3, set_scl st3 ?x2))"
    "client E T k st3 inp n" "told ?puts (replicate (length (blocks B ?D)) stored) (world (xscl ?x2)) (world st3)"
    by (auto simp: B_def)
  have "scl_il_put j E io K A (Some l) (Some p) b x =
      bind_res (if 3 \<le>s v then set_remote_mode E io (Some p) (f_mode f) (set_scl st3 ?x2) else Inr (set_scl st3 ?x2))
        (\<lambda>x5. scl_il_xfer_exit E io 0 False (err_str K) True x5)"
    using st1(1) st2(1) open1 clk st3(1) buf loc(1)
    by (simp add: scl_il_put_def scl_il_get_api_version_def stat_file_def)
  moreover have "sent (world st3) = sent (world (xscl x)) @ requests (put_requests (Some p) B ?D)"
    using told_sent [OF st1(3)] told_sent [OF st2(3)] told_sent [OF st3(3)] unfolding rs requests_append x2 by simp
  ultimately show ?thesis
    using st3(2) by (intro exI [of _ "set_scl st3 ?x2"]) (simp add: set_scl_def)
qed

end

section \<open>Properties\<close>

text \<open>C6: Putting a file sends its bytes in blocks, opened and closed around them, and reports success to a server older than
  version 3. To a server of version 3, the one of this repository, the transfer ends after the last block in a read
  out of bounds: the answer to the setting of the mode is one byte, and four are read.\<close>

theorem scl_il_xfer_put_sends:
  fixes b v :: c_int
  defines "B \<equiv> unat b"
  assumes "idle E T (xscl x)" and "ample E T (31 + 10 * length (blocks B (f_bytes f))) (mem (xscl x))"
    and "prompt (world (xscl x))"
    and "to_read (world (xscl x)) = replies ([[(c_int_obj v, SCL_INT, 0)], [(c_int_obj 0, SCL_INT, 1), (Null, SCL_STRING, 1)]] @
         replicate (length (blocks B (f_bytes f))) stored) @
       packet SCL_FRETURN (if 3 \<le>s v then payload [(c_int_obj r, SCL_BOOL, 0)] else []) @ more_in"
    and "length (requests (put_requests (Some p) B (f_bytes f))) +
       (16 + length (request_payload (if 3 \<le>s v then Mode_Req (Some p) (f_mode f) else Close_Req))) \<le> room_left (world (xscl x))"
    and "lfiles x l = Some f" "\<not> denied K l" and "0 < B" "B < 2 ^ 30" and "callback A = None"
    and "clock x = Some t # ts" and "length (blocks B (f_bytes f)) < j"
  shows "if 3 \<le>s v then scl_il_xfer_ex j E sock_io K A (Some l) (Some p) SCL_IL_XFER_PUT b x = Inl Out_Of_Bounds
    else \<exists>x'. scl_il_xfer_ex j E sock_io K A (Some l) (Some p) SCL_IL_XFER_PUT b x = Inr (0, x') \<and>
      wire (world (xscl x')) = wire (world (xscl x)) @ requests (put_requests (Some p) B (f_bytes f) @ [Close_Req]) \<and>
      to_read (world (xscl x')) = more_in \<and> lfiles x' = lfiles x \<and> concat (blocks B (f_bytes f)) = f_bytes f"
proof -
  let ?last = "packet SCL_FRETURN (if 3 \<le>s v then payload [(c_int_obj r, SCL_BOOL, 0)] else []) @ more_in"
  let ?n = "16 + length (request_payload (if 3 \<le>s v then Mode_Req (Some p) (f_mode f) else Close_Req)) + 0"
  have "sockets.client E T (20 + (10 * length (blocks (unat b) (f_bytes f)) + 11)) (xscl x)
      (replies ([[(c_int_obj v, SCL_INT, 0)], [(c_int_obj 0, SCL_INT, 1), (Null, SCL_STRING, 1)]] @
         replicate (length (blocks (unat b) (f_bytes f))) stored) @ ?last)
      (length (requests (put_requests (Some p) (unat b) (f_bytes f))) + ?n)"
    using assms(2-6) by (simp add: sockets.client_def B_def)
  from sockets.scl_il_put_blocks [OF this assms(7,8)] assms(9-13) obtain x' where x':
    "scl_il_put j E sock_io K A (Some l) (Some p) b x =
      bind_res (if 3 \<le>s v then set_remote_mode E sock_io (Some p) (f_mode f) x' else Inr x')
        (\<lambda>x5. scl_il_xfer_exit E sock_io 0 False (err_str K) True x5)"
    "sockets.client E T 11 (xscl x') ?last ?n" "lfiles x' = lfiles x"
    "wire (world (xscl x')) = wire (world (xscl x)) @ requests (put_requests (Some p) B (f_bytes f))"
    unfolding B_def by blast
  show ?thesis
  proof (cases "3 \<le>s v")
    case True
    have "sockets.client E T (9 + 2) (xscl x') (packet SCL_FRETURN (payload [(c_int_obj r, SCL_BOOL, 0)]) @ more_in)
        (16 + length (request_payload (Mode_Req (Some p) (f_mode f))) + 0)"
      using x'(2) True by simp
    from sockets.set_remote_mode_overrun [OF this] show ?thesis using x'(1) True by (simp add: scl_il_xfer_ex_def)
  next
    case False
    have "payload [] = []" by (simp add: payload_def)
    then have "sockets.client E T (11 + 0) (xscl x') (packet SCL_FRETURN (payload []) @ more_in) (16 + length (request_payload Close_Req) + 0)"
      using x'(2) False by simp
    then obtain st' where "scl_il_xfer_exit E sock_io 0 False (err_str K) True x' =
        Inr (0, (set_scl st' x')\<lparr>messages := messages x' @ (if False then [err_str K] else [])\<rparr>)"
      "sockets.client E T 0 st' more_in 0" "sockets.told [Close_Req] [[]] (world (xscl x')) (world st')"
      by (rule sockets.xfer_exit_answered [where code = 0 and print_errno = False and err_msg = "err_str K"])
    with x' False assms(9) sockets.told_sent [OF this(3)] show ?thesis
      by (simp add: scl_il_xfer_ex_def requests_append sockets.client_def concat_blocks)
  qed
qed

lemma blocks_one: "blocks 4 [104, 105] = [[104, 105]]"
  by (simp add: blocks_step)

lemma scl_il_xfer_put_sends_witness:
  "\<exists>(x :: sock xfer) y y'. scl_il_xfer_ex 2 large_libc sock_io sample_kernel \<lparr>callback = None, callback_interval = 0, bps = (\<lambda>_ _. 0)\<rparr>
       (Some [102]) (Some [108]) SCL_IL_XFER_PUT 4 x = Inl Out_Of_Bounds \<and>
     scl_il_xfer_ex 2 large_libc sock_io sample_kernel \<lparr>callback = None, callback_interval = 0, bps = (\<lambda>_ _. 0)\<rparr>
       (Some [102]) (Some [108]) SCL_IL_XFER_PUT 4 (y :: sock xfer) = Inr (0, y')"
proof -
  let ?A = "\<lparr>callback = None, callback_interval = 0, bps = (\<lambda>_ _. 0)\<rparr>" and ?f = "\<lparr>f_bytes = [104, 105], f_mode = 0x81a4\<rparr>"
  let ?in = "\<lambda>v :: c_int. replies ([[(c_int_obj v, SCL_INT, 0)], [(c_int_obj 0, SCL_INT, 1), (Null, SCL_STRING, 1)]] @ replicate 1 stored) @
       packet SCL_FRETURN (if 3 \<le>s v then payload [(c_int_obj 1, SCL_BOOL, 0)] else []) @ []"
  let ?run = "\<lambda>x :: sock xfer. scl_il_xfer_ex 2 large_libc sock_io sample_kernel ?A (Some [102]) (Some [108]) SCL_IL_XFER_PUT 4 x"
  have room: "length (requests (put_requests (Some [108]) 4 [104, 105])) + (16 + length (request_payload r)) \<le> 10004"
    if "r \<in> {Close_Req, Mode_Req (Some [108]) 0x81a4}" for r
    using that by (auto simp: put_requests_def blocks_one requests_def length_packet request_payload_def call_items_def payload_def
      length_enc_string text_of_def str_def enc_item_def encode_def scalars_def arrays_def block_of_def c_str_obj_def c_int_obj_def string_ptr_def)
  have "\<exists>x. if 3 \<le>s v then ?run x = Inl Out_Of_Bounds else \<exists>x'. ?run x = Inr (0, x')" for v :: c_int
  proof -
    have ne: "?in v \<noteq> []" using packet_nonempty [of SCL_FRETURN _ "[]"] by (simp add: replies_Cons)
    obtain T and s :: "sock session" where s: "idle large_libc T (scl s)" "ample large_libc T 900 (mem (scl s))"
      "world (scl s) = dialled (?in v)" by (rule sample_session [OF ne])
    let ?x = "\<lparr>sess = s, lfiles = sample_files, clock = [Some (0, 0)], messages = [], progress = []\<rparr>"
    have am: "ample large_libc T (31 + 10 * length (blocks (unat (4 :: c_int)) (f_bytes ?f))) (mem (xscl ?x))"
      using ample_le [OF s(2), of 41] by (simp add: blocks_one)
    have "if 3 \<le>s v then ?run ?x = Inl Out_Of_Bounds
      else \<exists>x'. ?run ?x = Inr (0, x') \<and>
        wire (world (xscl x')) = wire (world (xscl ?x)) @ requests (put_requests (Some [108]) (unat (4 :: c_int)) (f_bytes ?f) @ [Close_Req]) \<and>
        to_read (world (xscl x')) = [] \<and> lfiles x' = lfiles ?x \<and> concat (blocks (unat (4 :: c_int)) (f_bytes ?f)) = f_bytes ?f"
      by (rule scl_il_xfer_put_sends [where T = T and r = 1 and t = "(0, 0)" and ts = "[]" and f = ?f])
        (use s am ne room in \<open>simp_all add: dialled blocks_one sample_files_def sample_kernel_def\<close>)
    then show ?thesis by (intro exI [of _ ?x]) (auto split: if_splits)
  qed
  from this [of 3] this [of 2] show ?thesis by auto
qed

end
