(* ===== verification/Bwmeter.thy ===== *)
theory Bwmeter
  imports Suvlet Crc
begin

text \<open>
  The suvlet BWMeter (bwmeter.c and its receiver): it sends back the checksum of the data it gets. It has no inline
  functions and no state, and its error does not end the process.
\<close>

definition xfer_chunk :: "byte list \<Rightarrow> c_int \<Rightarrow> c_int res" where
  "xfer_chunk data data_len = scl_crc data data_len"

definition get_version :: "libc \<Rightarrow> 'w scl_io \<Rightarrow> unit \<Rightarrow> 'w host \<Rightarrow> (unit \<times> 'w host) res" where
  "get_version E io u h = bind_res (reply E io [(c_int_obj 1234, SCL_INT, 1)] h) (\<lambda>h'. Inr (u, h'))"

text \<open>
  The result is an \<open>unsigned long\<close> of which \<open>SCL_INT\<close> sends the first four bytes: the checksum. The length that comes after
  the data is read and not used.
\<close>

definition bwm_xfer_chunk :: "libc \<Rightarrow> 'w scl_io \<Rightarrow> unit \<Rightarrow> 'w host \<Rightarrow> (unit \<times> 'w host) res" where
  "bwm_xfer_chunk E io u h =
     bind_res (get_data E (hscl h)) (\<lambda>((chunk, chunk_len), st1).
     bind_res (scl_get_value E st1 SCL_INT True) (\<lambda>(_, _, st2).
     bind_res (item_bytes st2 chunk chunk_len) (\<lambda>bs.
     bind_res (xfer_chunk bs chunk_len) (\<lambda>retval.
     bind_res (skel_reply E io (Block (le8 (scast retval)), SCL_INT, 1) (h\<lparr>hscl := st2\<rparr>)) (\<lambda>h'. Inr (u, h'))))))"

definition bwmeter_suvlet :: "libc \<Rightarrow> 'w scl_io \<Rightarrow> (unit, 'w) suvlet" where
  "bwmeter_suvlet E io =
     \<lparr>func_table = (\<lambda>f. if f = str ''getVersion'' then Some (get_version E io)
                        else if f = str ''xfer_chunk'' then Some (bwm_xfer_chunk E io) else None),
      has_inlines = False, throw_exits = False,
      deconstructor = (\<lambda>u files. Inr (u, files)), at_exit = (\<lambda>u files. Inr files)\<rparr>"

end
