(* ===== verification/Security_Audit.thy ===== *)
theory Security_Audit
  imports Suvlet C_Text
begin

text \<open>
  The suvlet SecurityAudit (SecurityAudit.c and its receiver): buffers that grow line by line, the comparison of the
  output of a program with what it was last time, the copy of a file, and programs run as
  children. What a program prints and does, and whether the system calls succeed, is an input (\<open>machine\<close>).
\<close>

section \<open>Buffers\<close>

text \<open>
  The block behind \<open>buffer\<close>, its size and position as the code keeps them, and \<open>superseded\<close>. The sizes stay
  below \<open>2 ^ 31\<close> as long as the lines do: a buffer above 256k takes no more of them. Fresh memory holds \<open>junk\<close>.
\<close>

record buffer_desc =
  chars :: "byte list option"
  buffer_size :: nat
  buffer_pos :: nat
  superseded :: bool

record core =
  realloc_ok :: "nat \<Rightarrow> bool"
  junk :: byte

definition LINE_LENGTH :: nat where [simp]: "LINE_LENGTH = 4096"

definition blit :: "byte list \<Rightarrow> nat \<Rightarrow> byte list \<Rightarrow> byte list res" where
  "blit bs off new = (if off + length new \<le> length bs then Inr (take off bs @ new @ drop (off + length new) bs) else Inl Out_Of_Bounds)"

definition resize :: "core \<Rightarrow> nat \<Rightarrow> byte list option \<Rightarrow> byte list" where
  "resize M n old = (let bs = (case old of None \<Rightarrow> [] | Some bs \<Rightarrow> bs) in take n bs @ replicate (n - length bs) (junk M))"

definition clear_buffer :: "buffer_desc \<Rightarrow> buffer_desc res" where
  "clear_buffer b =
     (case chars b of
        None \<Rightarrow> Inl Null_Deref
      | Some bs \<Rightarrow> bind_res (blit bs 0 [0]) (\<lambda>bs'. Inr (b\<lparr>buffer_pos := 0, chars := Some bs', superseded := False\<rparr>)))"

text \<open>
  The loop that makes room: the size is doubled until the line fits, \<open>k\<close> times at most. When memory runs out the buffer is
  replaced by one of \<open>LINE_LENGTH\<close> bytes with a message, which is added by the function itself (\<open>add\<close>).
\<close>

fun make_room ::
  "nat \<Rightarrow> core \<Rightarrow> (byte list \<Rightarrow> buffer_desc \<Rightarrow> buffer_desc res) \<Rightarrow> nat \<Rightarrow> buffer_desc \<Rightarrow> buffer_desc res" where
  "make_room 0 M add line_len b = Inl No_Return"
| "make_room (Suc k) M add line_len b =
     (if buffer_pos b + line_len < buffer_size b + 1 then Inr b
      else let n = (if buffer_size b * 2 < LINE_LENGTH then LINE_LENGTH else buffer_size b * 2)
           in if realloc_ok M n
              then make_room k M add line_len (b\<lparr>buffer_size := n, chars := Some (resize M n (chars b))\<rparr>)
              else if \<not> realloc_ok M LINE_LENGTH then Inl Aborted
              else bind_res (clear_buffer (b\<lparr>buffer_size := n, chars := Some (resize M LINE_LENGTH None)\<rparr>)) (\<lambda>b1.
                   bind_res (add (str ''<error>256'' @ 10 # str ''Ran out of memory'') b1) (\<lambda>b2.
                     make_room k M add line_len (b2\<lparr>superseded := True\<rparr>))))"

definition too_long :: "byte list" where
  "too_long = [10, 10] @ str ''(Message too long, snip)'' @ [10]"

text \<open>The line goes in, with one terminator of \<open>strcpy\<close> and one a byte behind it.\<close>

definition put_line :: "byte list \<Rightarrow> buffer_desc \<Rightarrow> buffer_desc res" where
  "put_line line b =
     (case chars b of
        None \<Rightarrow> Inl Null_Deref
      | Some bs \<Rightarrow>
          bind_res (blit bs (buffer_pos b) (line @ [0])) (\<lambda>bs1.
            let pos = buffer_pos b + length line
            in bind_res (if 262144 < buffer_size b
                         then if pos < length too_long then Inl Out_Of_Bounds
                              else blit bs1 (pos - length too_long) (too_long @ [0])
                         else Inr bs1) (\<lambda>bs2.
               bind_res (blit bs2 (pos + 1) [0]) (\<lambda>bs3.
                 Inr (b\<lparr>chars := Some bs3, buffer_pos := pos, superseded := superseded b \<or> 262144 < buffer_size b\<rparr>)))))"

fun add_line_at :: "nat \<Rightarrow> core \<Rightarrow> byte list \<Rightarrow> buffer_desc \<Rightarrow> buffer_desc res" where
  "add_line_at 0 M line b = Inl No_Return"
| "add_line_at (Suc d) M line b =
     (if superseded b then Inr b
      else bind_res (make_room 64 M (add_line_at d M) (length line) b) (put_line line))"

text \<open>The message of the inner call fits at once, so two levels are enough.\<close>

definition add_line :: "core \<Rightarrow> byte list \<Rightarrow> buffer_desc \<Rightarrow> buffer_desc res" where
  "add_line M line b = add_line_at 2 M line b"

definition zero_buffer :: buffer_desc where
  "zero_buffer = \<lparr>chars = None, buffer_size = 0, buffer_pos = 0, superseded = False\<rparr>"

definition buffer_text :: "buffer_desc \<Rightarrow> byte list res" where
  "buffer_text b = (case chars b of None \<Rightarrow> Inl Null_Deref | Some bs \<Rightarrow> c_str bs)"

section \<open>Programs\<close>

text \<open>
  \<open>program\<close> is what a program does with its arguments: its output, the exit status \<open>wait\<close> gets (\<open>None\<close> when
  \<open>wait\<close> fails), and the files it leaves. A path that cannot be executed exits with 1; that child is still the suvlet, so its \<open>exit\<close>
  runs \<open>exit_clean_up\<close> and removes the \<open>tmpDir\<close> of its parent. This removal is not written out: it is among the effects on the files
  that \<open>program\<close> may have.
\<close>

record machine =
  kern :: kernel
  mcore :: core
  program :: "path option \<Rightarrow> byte list list \<Rightarrow> files \<Rightarrow> byte list \<times> c_int option \<times> files"
  pipe_ok :: bool
  fork_ok :: bool
  fdopen_ok :: bool
  mkdir_ok :: "path \<Rightarrow> bool"
  new_dir :: "path option \<Rightarrow> path option"      \<comment> \<open>where \<open>chdir\<close> leads\<close>
  symlink_ok :: bool

text \<open>The variable arguments, up to NULL or the tenth; an empty string of a packet is NULL.\<close>

definition collect_args :: "byte list option list \<Rightarrow> byte list list" where
  "collect_args ps = map the (takeWhile (\<lambda>p. p \<noteq> None) (take 10 ps))"

definition safe_exec :: "machine \<Rightarrow> path option \<Rightarrow> byte list option list \<Rightarrow> files \<Rightarrow> c_int \<times> files" where
  "safe_exec S path ps files =
     (if \<not> fork_ok S then (-1, files)
      else let (_, status, files') = program S path (collect_args ps) files
           in (case status of None \<Rightarrow> -1 | Some s \<Rightarrow> s, files'))"

datatype child = Not_Started | Started "byte list" "c_int option"

definition safe_exec_pipe :: "machine \<Rightarrow> path option \<Rightarrow> byte list option list \<Rightarrow> files \<Rightarrow> child \<times> files" where
  "safe_exec_pipe S path ps files =
     (if \<not> pipe_ok S \<or> \<not> fork_ok S then (Not_Started, files)
      else let (out, status, files') = program S path (collect_args ps) files in (Started out status, files'))"

section \<open>Comparing and copying files\<close>

text \<open>
  \<open>get_match\<close> looks through the lines from the position of the stream on, once around, and stops where it
  started; \<open>k\<close> bounds the rounds.
\<close>

fun match_loop :: "nat \<Rightarrow> byte list \<Rightarrow> byte list \<Rightarrow> nat \<Rightarrow> nat \<Rightarrow> (c_int \<times> nat) res" where
  "match_loop 0 needle content start_pos pos = Inl No_Return"
| "match_loop (Suc k) needle content start_pos pos =
     (case fgets LINE_LENGTH content pos of
        None \<Rightarrow> if pos = start_pos then Inr (0, pos) else match_loop k needle content start_pos 0
      | Some (l, pos') \<Rightarrow>
          let s = text_upto0 l
          in if s = [] then Inl Out_Of_Bounds
             else if chop s = needle then Inr (1, pos')
             else if pos' = start_pos then Inr (0, pos')
             else match_loop k needle content (if start_pos = 0 then pos' else start_pos) pos')"

definition get_match :: "byte list \<Rightarrow> byte list \<Rightarrow> nat \<Rightarrow> (c_int \<times> nat) res" where
  "get_match needle content pos = match_loop (2 * length content + 4) needle content 0 pos"

definition COPY_BUFFER_SIZE :: nat where [simp]: "COPY_BUFFER_SIZE = 4096"

text \<open>The loop of \<open>file_copy\<close>; the result is whether to go on after it.\<close>

fun copy_loop :: "nat \<Rightarrow> kernel \<Rightarrow> stream \<Rightarrow> stream \<Rightarrow> files \<Rightarrow> (bool \<times> files) res" where
  "copy_loop 0 K i out files = Inl No_Return"
| "copy_loop (Suc k) K i out files =
     (let (bs, i') = fread files i COPY_BUFFER_SIZE
      in if bs = [] then Inr (True, files)
         else let (done, out', files') = fwrite_item K files out bs
              in if \<not> done then Inr (False, files') else copy_loop k K i' out' files')"

definition file_copy :: "nat \<Rightarrow> kernel \<Rightarrow> path \<Rightarrow> path \<Rightarrow> files \<Rightarrow> (c_int \<times> files) res" where
  "file_copy k K from to files =
     (case fopen K files (Some from) (str ''r'') of
        (None, files1) \<Rightarrow> Inr (1, files1)
      | (Some i, files1) \<Rightarrow>
          (case fopen K files1 (Some to) (str ''w'') of
             (None, files2) \<Rightarrow> Inr (1, files2)
           | (Some out, files2) \<Rightarrow>
               bind_res (copy_loop k K i out files2) (\<lambda>(done, files3). Inr (if done then 0 else 1, files3))))"

section \<open>The state and the functions\<close>

text \<open>The pointer \<open>tmpDir\<close>: NULL, a name, or a name that was freed.\<close>

datatype tmp_dir = No_Dir | Dir path | Freed_Dir

record audit =
  buf :: buffer_desc
  buf2 :: buffer_desc
  tmpDir :: tmp_dir

text \<open>The other files of the program see \<open>TORRES_BASE\<close> in its own copies.\<close>

definition TORRES_BASE :: path where "TORRES_BASE = str ''/var/lib/suvlets/SecurityAudit/''"
definition SUVLET_VERSION :: c_int where [simp]: "SUVLET_VERSION = 6"

definition constructor :: "core \<Rightarrow> (buffer_desc \<times> buffer_desc) res" where
  "constructor M =
     bind_res (add_line M (str ''null'') zero_buffer) (\<lambda>b.
     bind_res (add_line M (str ''null'') zero_buffer) (\<lambda>b2. Inr (b, b2)))"

text \<open>What is not run because an error comes first does not change the files.\<close>

definition error_text :: "string \<Rightarrow> string \<Rightarrow> byte list" where
  "error_text code msg = str code @ 10 # str msg"

definition remove_tmp :: "machine \<Rightarrow> path \<Rightarrow> files \<Rightarrow> c_int \<times> files" where
  "remove_tmp S p files = safe_exec S (Some (str ''/bin/rm'')) [Some (str ''rm''), Some (str ''-r''), Some p] files"

text \<open>\<open>deconstructor\<close> frees \<open>tmpDir\<close> but does not reset it, and \<open>exit\<close> then runs \<open>exit_clean_up\<close>.\<close>

definition deconstruct_audit :: "machine \<Rightarrow> audit \<Rightarrow> files \<Rightarrow> (audit \<times> files) res" where
  "deconstruct_audit S a files =
     (case tmpDir a of
        No_Dir \<Rightarrow> Inr (a, files)
      | Dir p \<Rightarrow> Inr (a\<lparr>tmpDir := Freed_Dir\<rparr>, snd (remove_tmp S p files))
      | Freed_Dir \<Rightarrow> Inl Dangling)"

definition exit_clean_up :: "machine \<Rightarrow> audit \<Rightarrow> files \<Rightarrow> files res" where
  "exit_clean_up S a files =
     (case tmpDir a of No_Dir \<Rightarrow> Inr files | Dir p \<Rightarrow> Inr (snd (remove_tmp S p files)) | Freed_Dir \<Rightarrow> Inl Dangling)"

definition SecurityAudit_mk_working_dir :: "machine \<Rightarrow> path option \<Rightarrow> audit \<Rightarrow> byte \<times> audit" where
  "SecurityAudit_mk_working_dir S dir_name a =
     (case dir_name of
        None \<Rightarrow> (0, a)
      | Some d \<Rightarrow>
          if mkdir_ok S d then (1, a\<lparr>tmpDir := (if realloc_ok (mcore S) (length d + 1) then Dir d else No_Dir)\<rparr>)
          else (0, a))"

definition SecurityAudit_rmdir :: "machine \<Rightarrow> path option \<Rightarrow> audit \<Rightarrow> files \<Rightarrow> (byte \<times> audit \<times> files) res" where
  "SecurityAudit_rmdir S dir_name a files =
     (case tmpDir a of
        No_Dir \<Rightarrow> Inr (1, a, files)
      | Dir p \<Rightarrow> let (ret, files') = remove_tmp S p files in Inr (if ret = 0 then 1 else 0, a\<lparr>tmpDir := No_Dir\<rparr>, files')
      | Freed_Dir \<Rightarrow> Inl Dangling)"

text \<open>The line up to the end of its first word, leading blanks included, as \<open>strtok\<close> leaves it.\<close>

definition SecurityAudit_get_md5 :: "machine \<Rightarrow> path option \<Rightarrow> path option \<Rightarrow> files \<Rightarrow> byte list \<times> files" where
  "SecurityAudit_get_md5 S prog name files =
     (case safe_exec_pipe S prog [Some (str ''md5sum''), name] files of
        (Not_Started, files') \<Rightarrow> (error_text ''<error>1'' ''Failed to execute md5sum'', files')
      | (Started out _, files') \<Rightarrow>
          if \<not> fdopen_ok S then (error_text ''<error>2'' ''Failed to open pipe as stream'', files')
          else case fgets LINE_LENGTH out 0 of
            None \<Rightarrow> (error_text ''<error>3'' ''Failed to get md5sum'', files')
          | Some (l, _) \<Rightarrow>
              let s = text_upto0 l
              in (takeWhile (\<lambda>b. b = 32) s @ takeWhile (\<lambda>b. b \<noteq> 32) (dropWhile (\<lambda>b. b = 32) s), files'))"

text \<open>The lines of a program go into a buffer; the lines that \<open>skip\<close> holds of are left out.\<close>

fun add_lines :: "core \<Rightarrow> (byte list \<Rightarrow> bool) \<Rightarrow> byte list list \<Rightarrow> buffer_desc \<Rightarrow> buffer_desc res" where
  "add_lines M skip [] b = Inr b"
| "add_lines M skip (l # ls) b =
     (if skip (text_upto0 l) then add_lines M skip ls b
      else bind_res (add_line M (text_upto0 l) b) (add_lines M skip ls))"

definition child_failed :: "c_int option \<Rightarrow> bool" where
  "child_failed status \<longleftrightarrow> status = None \<or> status \<noteq> Some 0"

definition SecurityAudit_get_passwordless ::
  "machine \<Rightarrow> path option \<Rightarrow> audit \<Rightarrow> files \<Rightarrow> (byte list \<times> audit \<times> files) res" where
  "SecurityAudit_get_passwordless S prog a files =
     bind_res (clear_buffer (buf a)) (\<lambda>b.
       case safe_exec_pipe S prog [Some (str ''passwordless'')] files of
         (Not_Started, files') \<Rightarrow> Inr (error_text ''<error>1'' ''Failed to execute command'', a\<lparr>buf := b\<rparr>, files')
       | (Started out status, files') \<Rightarrow>
           if \<not> fdopen_ok S then Inr (error_text ''<error>2'' ''Failed to open pipe as stream'', a\<lparr>buf := b\<rparr>, files')
           else bind_res (add_lines (mcore S) (\<lambda>_. False) (lines_of LINE_LENGTH out) b) (\<lambda>b1.
                if child_failed status
                then Inr (error_text ''<error>1'' ''Failed to execute command'', a\<lparr>buf := b1\<rparr>, files')
                else bind_res (buffer_text b1) (\<lambda>t. Inr (t, a\<lparr>buf := b1\<rparr>, files'))))"

text \<open>The account has user number 0 when the third field is \<open>0\<close>; \<open>strtok\<close> skips empty fields.\<close>

definition uid_zero :: "byte list \<Rightarrow> bool res" where
  "uid_zero line =
     (case tokens (\<lambda>b. b = of_char CHR '':'') line of
        _ # _ # uid # _ \<Rightarrow> Inr (uid = str ''0'')
      | [_, _] \<Rightarrow> Inl Null_Deref
      | _ \<Rightarrow> Inr False)"

fun count_zeros :: "byte list list \<Rightarrow> c_int res" where
  "count_zeros [] = Inr 0"
| "count_zeros (l # ls) =
     bind_res (uid_zero (text_upto0 l)) (\<lambda>z.
     bind_res (count_zeros ls) (\<lambda>n. Inr (if z then n + 1 else n)))"

definition SecurityAudit_get_uid_zeros :: "machine \<Rightarrow> files \<Rightarrow> c_int res" where
  "SecurityAudit_get_uid_zeros S files =
     (case fopen (kern S) files (Some (str ''/etc/passwd'')) (str ''r'') of
        (None, _) \<Rightarrow> Inr (-1)
      | (Some f, _) \<Rightarrow> count_zeros (lines_of LINE_LENGTH (case files (s_path f) of None \<Rightarrow> [] | Some g \<Rightarrow> f_bytes g)))"

text \<open>
  The lines of the new output that are not in the old file, looked up one after the other from where the last search ended.
\<close>

fun new_lines :: "core \<Rightarrow> byte list \<Rightarrow> nat \<Rightarrow> byte list list \<Rightarrow> buffer_desc \<Rightarrow> buffer_desc res" where
  "new_lines M content pos [] b = Inr b"
| "new_lines M content pos (needle # needles) b =
     bind_res (get_match needle content pos) (\<lambda>(found, pos').
       if found \<noteq> 0 then new_lines M content pos' needles b
       else bind_res (add_line M needle b) (\<lambda>b1.
            bind_res (add_line M [10] b1) (\<lambda>b2. new_lines M content pos' needles b2)))"

definition find_proc :: "byte list \<Rightarrow> bool" where
  "find_proc s \<longleftrightarrow> take 10 s = str ''find: proc''"

text \<open>The buffer is its own format when it is written to the data base.\<close>

definition save_db :: "machine \<Rightarrow> path \<Rightarrow> byte list \<Rightarrow> byte list \<Rightarrow> files \<Rightarrow> (byte list \<times> files) res" where
  "save_db S db_file new result files =
     (case fopen (kern S) files (Some db_file) (str ''w'') of
        (None, files1) \<Rightarrow> Inr (error_text ''<error>5'' ''Failed opening db file for writing'', files1)
      | (Some f, files1) \<Rightarrow>
          bind_res (format_alone new) (\<lambda>bs.
            let (_, _, files2) = fwrite_item (kern S) files1 f bs in Inr (result, files2)))"

definition db_diff ::
  "machine \<Rightarrow> path option \<Rightarrow> byte list \<Rightarrow> path \<Rightarrow> audit \<Rightarrow> files \<Rightarrow> (byte list \<times> audit \<times> files) res" where
  "db_diff S prog prog_name db_file a files =
     bind_res (clear_buffer (buf a)) (\<lambda>b.
     bind_res (clear_buffer (buf2 a)) (\<lambda>b2.
       let failed = (\<lambda>msg b2 files. Inr (msg, a\<lparr>buf := b, buf2 := b2\<rparr>, files))
       in case safe_exec_pipe S prog [Some prog_name] files of
         (Not_Started, files1) \<Rightarrow> failed (error_text ''<error>1'' ''Failed to execute command'') b2 files1
       | (Started out status, files1) \<Rightarrow>
           if \<not> fdopen_ok S then failed (error_text ''<error>2'' ''Failed to open pipe as stream'') b2 files1
           else bind_res (add_lines (mcore S) find_proc (lines_of LINE_LENGTH out) b2) (\<lambda>c2.
             if child_failed status then failed (error_text ''<error>1'' ''Failed to execute command'') c2 files1
             else case fopen (kern S) files1 (Some db_file) (str ''r'') of
               (None, _) \<Rightarrow> failed (error_text ''<error>4'' ''Failed opening db file for reading'') c2 files1
             | (Some _, _) \<Rightarrow>
                 bind_res (buffer_text c2) (\<lambda>new.
                 bind_res (new_lines (mcore S) (case files1 db_file of None \<Rightarrow> [] | Some g \<Rightarrow> f_bytes g) 0
                     (tokens (\<lambda>b. b = 10) new) b) (\<lambda>c.
                 bind_res (buffer_text c) (\<lambda>result.
                 bind_res (save_db S db_file new result files1) (\<lambda>(r, files2).
                   Inr (r, a\<lparr>buf := c, buf2 := c2\<rparr>, files2))))))))"

definition SecurityAudit_get_new_xuids ::
  "machine \<Rightarrow> path option \<Rightarrow> audit \<Rightarrow> files \<Rightarrow> (byte list \<times> audit \<times> files) res" where
  "SecurityAudit_get_new_xuids S prog = db_diff S prog (str ''xuids'') (TORRES_BASE @ str ''db/xuids.db'')"

definition SecurityAudit_get_new_dot_files ::
  "machine \<Rightarrow> path option \<Rightarrow> audit \<Rightarrow> files \<Rightarrow> (byte list \<times> audit \<times> files) res" where
  "SecurityAudit_get_new_dot_files S prog = db_diff S prog (str ''dotfiles'') (TORRES_BASE @ str ''db/dotfiles.db'')"

text \<open>
  The result is what the function returns, the state, the new directory and the files; \<open>k\<close> bounds the
  rounds of the copy.
\<close>

definition SecurityAudit_run_aide ::
  "nat \<Rightarrow> machine \<Rightarrow> path option \<Rightarrow> path option \<Rightarrow> path option \<Rightarrow> audit \<Rightarrow> path \<Rightarrow> files \<Rightarrow>
   (byte list \<times> audit \<times> path \<times> files) res" where
  "SecurityAudit_run_aide k S prog aide_conf working_dir a dir files =
     bind_res (clear_buffer (buf a)) (\<lambda>b.
       case new_dir S working_dir of
         None \<Rightarrow> Inr (error_text ''<error>6'' ''Failed to change to requested directory'', a\<lparr>buf := b\<rparr>, dir, files)
       | Some d \<Rightarrow>
         if \<not> symlink_ok S then Inr (error_text ''<error>7'' ''Failed to create symlink to aide db'', a\<lparr>buf := b\<rparr>, d, files)
         else case safe_exec_pipe S prog [Some (str ''aide''), Some (str ''-c''), aide_conf] files of
           (Not_Started, files1) \<Rightarrow> Inr (error_text ''<error>1'' ''Failed to execute aide'', a\<lparr>buf := b\<rparr>, d, files1)
         | (Started out _, files1) \<Rightarrow>
             if \<not> fdopen_ok S then Inr (error_text ''<error>2'' ''Failed to open pipe as stream'', a\<lparr>buf := b\<rparr>, d, files1)
             else bind_res (add_lines (mcore S) (\<lambda>_. False) (lines_of LINE_LENGTH out) b) (\<lambda>b1.
               let (ret, files2) = safe_exec S prog [Some (str ''aide''), Some (str ''-c''), aide_conf, Some (str ''--init'')] files1;
                   finish = (\<lambda>msg files. bind_res (if msg = [] then Inr b1 else add_line (mcore S) msg b1) (\<lambda>b2.
                     bind_res (buffer_text b2) (\<lambda>t. Inr (t, a\<lparr>buf := b2\<rparr>, d, files))))
               in if ret \<noteq> 0 then finish ([10, 10] @ error_text ''<error>8'' ''Failed while creating new db'') files2
                  else bind_res (file_copy k (kern S) (TORRES_BASE @ str ''db/aide.db.new'') (TORRES_BASE @ str ''db/aide.db'') files2)
                    (\<lambda>(copied, files3).
                      if copied \<noteq> 0
                      then finish ([10, 10] @ error_text ''<error>9'' ''Failed to move new db to proper location'') files3
                      else finish [] files3)))"

section \<open>The receiver\<close>

text \<open>The arguments are read, the function runs, the packet is freed and the result sent.\<close>

definition audit_reply ::
  "libc \<Rightarrow> 'w scl_io \<Rightarrow> object \<times> scl_type \<times> c_int \<Rightarrow> audit \<Rightarrow> 'w host \<Rightarrow> (audit \<times> 'w host) res" where
  "audit_reply E io item a h = bind_res (skel_reply E io item h) (\<lambda>h'. Inr (a, h'))"

definition mk_working_dir_skel :: "machine \<Rightarrow> libc \<Rightarrow> 'w scl_io \<Rightarrow> audit \<Rightarrow> 'w host \<Rightarrow> (audit \<times> 'w host) res" where
  "mk_working_dir_skel S E io a h =
     bind_res (get_args 1 E h) (\<lambda>(args, h1).
       let (r, a') = SecurityAudit_mk_working_dir S (args ! 0) a in audit_reply E io (c_bool_obj r, SCL_BOOL, 1) a' h1)"

definition rmdir_skel :: "machine \<Rightarrow> libc \<Rightarrow> 'w scl_io \<Rightarrow> audit \<Rightarrow> 'w host \<Rightarrow> (audit \<times> 'w host) res" where
  "rmdir_skel S E io a h =
     bind_res (get_args 1 E h) (\<lambda>(args, h1).
     bind_res (SecurityAudit_rmdir S (args ! 0) a (fs h1)) (\<lambda>(r, a', files').
       audit_reply E io (c_bool_obj r, SCL_BOOL, 1) a' (h1\<lparr>fs := files'\<rparr>)))"

definition get_md5_skel :: "machine \<Rightarrow> libc \<Rightarrow> 'w scl_io \<Rightarrow> audit \<Rightarrow> 'w host \<Rightarrow> (audit \<times> 'w host) res" where
  "get_md5_skel S E io a h =
     bind_res (get_args 2 E h) (\<lambda>(args, h1).
       let (t, files') = SecurityAudit_get_md5 S (args ! 0) (args ! 1) (fs h1)
       in audit_reply E io (text_item t) a (h1\<lparr>fs := files'\<rparr>))"

definition run_aide_skel :: "nat \<Rightarrow> machine \<Rightarrow> libc \<Rightarrow> 'w scl_io \<Rightarrow> audit \<Rightarrow> 'w host \<Rightarrow> (audit \<times> 'w host) res" where
  "run_aide_skel k S E io a h =
     bind_res (get_args 3 E h) (\<lambda>(args, h1).
     bind_res (SecurityAudit_run_aide k S (args ! 0) (args ! 1) (args ! 2) a (cwd h1) (fs h1)) (\<lambda>(t, a', d, files').
       audit_reply E io (text_item t) a' (h1\<lparr>cwd := d, fs := files'\<rparr>)))"

definition text_skel ::
  "(path option \<Rightarrow> audit \<Rightarrow> files \<Rightarrow> (byte list \<times> audit \<times> files) res) \<Rightarrow> libc \<Rightarrow> 'w scl_io \<Rightarrow> audit \<Rightarrow> 'w host \<Rightarrow> (audit \<times> 'w host) res" where
  "text_skel f E io a h =
     bind_res (get_args 1 E h) (\<lambda>(args, h1).
     bind_res (f (args ! 0) a (fs h1)) (\<lambda>(t, a', files').
       audit_reply E io (text_item t) a' (h1\<lparr>fs := files'\<rparr>)))"

definition get_uid_zeros_skel :: "machine \<Rightarrow> libc \<Rightarrow> 'w scl_io \<Rightarrow> audit \<Rightarrow> 'w host \<Rightarrow> (audit \<times> 'w host) res" where
  "get_uid_zeros_skel S E io a h =
     bind_res (SecurityAudit_get_uid_zeros S (fs h)) (\<lambda>n. audit_reply E io (c_int_obj n, SCL_INT, 1) a h)"

definition audit_functions ::
  "nat \<Rightarrow> machine \<Rightarrow> libc \<Rightarrow> 'w scl_io \<Rightarrow> byte list \<Rightarrow> (audit \<Rightarrow> 'w host \<Rightarrow> (audit \<times> 'w host) res) option" where
  "audit_functions k S E io f =
     (if f = str ''mk_working_dir'' then Some (mk_working_dir_skel S E io)
      else if f = str ''rmdir'' then Some (rmdir_skel S E io)
      else if f = str ''get_md5'' then Some (get_md5_skel S E io)
      else if f = str ''run_aide'' then Some (run_aide_skel k S E io)
      else if f = str ''get_new_xuids'' then Some (text_skel (SecurityAudit_get_new_xuids S) E io)
      else if f = str ''get_new_dot_files'' then Some (text_skel (SecurityAudit_get_new_dot_files S) E io)
      else if f = str ''get_passwordless'' then Some (text_skel (SecurityAudit_get_passwordless S) E io)
      else if f = str ''get_uid_zeros'' then Some (get_uid_zeros_skel S E io)
      else None)"

definition audit_suvlet :: "nat \<Rightarrow> machine \<Rightarrow> libc \<Rightarrow> 'w scl_io \<Rightarrow> (audit, 'w) suvlet" where
  "audit_suvlet k S E io =
     \<lparr>func_table = audit_functions k S E io, has_inlines = True, throw_exits = True,
      deconstructor = deconstruct_audit S, at_exit = exit_clean_up S\<rparr>"

section \<open>The programs it runs\<close>

text \<open>
  xuids.c and dotfiles.c search the mounted file systems with \<open>find\<close>; the table of file systems is a list of types
  and mount points. The result is the exit code and the output; every line is printed as its own format.
\<close>

definition searched :: "byte list \<Rightarrow> bool" where
  "searched t \<longleftrightarrow> take 4 t = str ''ext2'' \<or> take 4 t = str ''ext3'' \<or> take 4 t = str ''ext4'' \<or> take 8 t = str ''resierfs'' \<or>
     take 7 t = str ''minixfs'' \<or> take 3 t = str ''xfs''"

fun print_lines :: "byte list list \<Rightarrow> byte list res" where
  "print_lines [] = Inr []"
| "print_lines (l # ls) =
     bind_res (format_alone (text_upto0 l)) (\<lambda>s. bind_res (print_lines ls) (\<lambda>r. Inr (s @ r)))"

fun search_mounts ::
  "machine \<Rightarrow> byte list option list \<Rightarrow> (byte list \<times> path) list \<Rightarrow> files \<Rightarrow> (c_int \<times> byte list) res" where
  "search_mounts S tests [] files = Inr (0, [])"
| "search_mounts S tests ((fs_vfstype, fs_file) # mounts) files =
     (if \<not> searched fs_vfstype then search_mounts S tests mounts files
      else case safe_exec_pipe S (Some (TORRES_BASE @ str ''find''))
               ([Some (str ''find''), Some fs_file, Some (str ''-xdev'')] @ tests) files of
        (Not_Started, files') \<Rightarrow> Inr (2, [])
      | (Started out status, files') \<Rightarrow>
          if \<not> fdopen_ok S then Inr (3, [])
          else bind_res (print_lines (lines_of LINE_LENGTH out)) (\<lambda>s.
               if child_failed status then Inr (4, s)
               else bind_res (search_mounts S tests mounts files') (\<lambda>(code, r). Inr (code, s @ r))))"

text \<open>The table cannot be opened when there is none.\<close>

definition xuids_main :: "machine \<Rightarrow> (byte list \<times> path) list option \<Rightarrow> files \<Rightarrow> (c_int \<times> byte list) res" where
  "xuids_main S fstab files =
     (case fstab of None \<Rightarrow> Inr (1, [])
      | Some mounts \<Rightarrow> search_mounts S [Some (str ''-perm''), Some (str ''+6000'')] mounts files)"

definition dotfiles_main :: "machine \<Rightarrow> (byte list \<times> path) list option \<Rightarrow> files \<Rightarrow> (c_int \<times> byte list) res" where
  "dotfiles_main S fstab files =
     (case fstab of None \<Rightarrow> Inr (1, [])
      | Some mounts \<Rightarrow> search_mounts S [Some (str ''-type''), Some (str ''d''), Some (str ''-name''), Some (str ''.*'')] mounts files)"

text \<open>passwordless.c: the names of the shadow entries with an empty password, one in a line.\<close>

definition passwordless_main :: "(byte list \<times> byte list) list \<Rightarrow> byte list" where
  "passwordless_main entries = concat (map (\<lambda>(name, pw). if take 1 pw = [] then name @ [10] else []) entries)"

end
