(* ===== verification/Security_Audit_Props.thy ===== *)
theory Security_Audit_Props
  imports Security_Audit "HOL-Library.Sublist"
begin

text \<open>Properties of the SecurityAudit suvlet: its buffers, its search in the old output, its copy, its count.\<close>

section \<open>Buffers\<close>

function grown :: "nat \<Rightarrow> nat \<Rightarrow> nat" where
  "grown s need = (if need \<le> s then s else grown (max (2 * s) 4096) need)"
  by pat_completeness auto
termination by (relation "measure (\<lambda>(s, need). need - s)") auto

declare grown.simps [simp del]

lemma grown_enough: "need \<le> grown s need"
  by (induction s need rule: grown.induct) (subst grown.simps, auto)

lemma grown_bound: "grown s need = s \<or> grown s need \<le> max 4096 (2 * need)"
proof (induction s need rule: grown.induct)
  case (1 s need)
  show ?case
  proof (cases "need \<le> s")
    case True
    then show ?thesis by (subst grown.simps) simp
  next
    case False
    then have "grown s need = grown (max (2 * s) 4096) need" by (subst grown.simps) simp
    with 1 [OF False] False show ?thesis by auto
  qed
qed

definition bytes_of :: "buffer_desc \<Rightarrow> byte list" where
  "bytes_of b = (case chars b of None \<Rightarrow> [] | Some bs \<Rightarrow> bs)"

definition content :: "buffer_desc \<Rightarrow> byte list" where
  "content b = take (buffer_pos b) (bytes_of b)"

definition buf_ok :: "buffer_desc \<Rightarrow> bool" where
  "buf_ok b \<longleftrightarrow> length (bytes_of b) = buffer_size b \<and> buffer_pos b \<le> buffer_size b"

lemma length_resize: "length (resize M n old) = n"
  by (simp add: resize_def Let_def split: option.splits)

lemma make_room_grown:
  assumes "\<forall>n. realloc_ok M n" and "length (bytes_of b) = buffer_size b" and "buffer_pos b \<le> buffer_size b"
    and "buffer_pos b + len \<le> 2 ^ k * max (buffer_size b) 2048" and "0 < k"
  shows "\<exists>b'. make_room (Suc k) M add len b = Inr b' \<and> buffer_size b' = grown (buffer_size b) (buffer_pos b + len) \<and>
    buffer_pos b' = buffer_pos b \<and> superseded b' = superseded b \<and> length (bytes_of b') = buffer_size b' \<and>
    content b' = content b \<and> (chars b' = None \<longrightarrow> buffer_size b' = 0)"
  using assms
proof (induction k arbitrary: b)
  case 0
  then show ?case by simp
next
  case (Suc k)
  let ?need = "buffer_pos b + len"
  show ?case
  proof (cases "?need \<le> buffer_size b")
    case True
    then have "grown (buffer_size b) ?need = buffer_size b" by (subst grown.simps) simp
    with True Suc.prems show ?thesis by (intro exI [of _ b]) (auto simp: bytes_of_def)
  next
    case False
    let ?n = "max (2 * buffer_size b) 4096"
    let ?b = "b\<lparr>buffer_size := ?n, chars := Some (resize M ?n (chars b))\<rparr>"
    have n: "(if buffer_size b * 2 < LINE_LENGTH then LINE_LENGTH else buffer_size b * 2) = ?n" by simp
    have g: "grown (buffer_size b) ?need = grown ?n ?need" using False by (subst grown.simps) simp
    have step: "make_room (Suc (Suc k)) M add len b = make_room (Suc k) M add len ?b"
      using False Suc.prems(1) unfolding make_room.simps(2) [of "Suc k"] n Let_def by simp
    have c: "content ?b = content b" "length (bytes_of ?b) = ?n" "buffer_pos b \<le> ?n"
      using Suc.prems(2,3) by (auto simp: content_def bytes_of_def resize_def Let_def split: option.splits)
    show ?thesis
    proof (cases "k = 0")
      case True
      then have "?need \<le> ?n" using Suc.prems(4) by simp
      then have "make_room (Suc k) M add len ?b = Inr ?b" by simp
      moreover have "grown ?n ?need = ?n" using \<open>?need \<le> ?n\<close> by (subst grown.simps) simp
      ultimately show ?thesis using step g c by (intro exI [of _ ?b]) simp
    next
      case False
      have "2 * max (buffer_size b) 2048 \<le> max ?n 2048" by simp
      then have "2 ^ k * (2 * max (buffer_size b) 2048) \<le> 2 ^ k * max ?n 2048" by (rule mult_le_mono2)
      then have "?need \<le> 2 ^ k * max ?n 2048" using Suc.prems(4) by simp
      then show ?thesis using Suc.IH [of ?b] Suc.prems(1) False step g c by simp
    qed
  qed
qed

lemma length_too_long: "length too_long = 27"
  by (simp add: too_long_def str_def)

lemma blit_fails: "\<not> off + length new \<le> length bs \<Longrightarrow> blit bs off new = Inl Out_Of_Bounds"
  by (simp add: blit_def)

lemma blit_works:
  assumes "off + length new \<le> length bs"
  obtains bs' where "blit bs off new = Inr bs'" "length bs' = length bs" "take off bs' = take off bs"
    "take (length new) (drop off bs') = new" "bs' = take off bs @ new @ drop (off + length new) bs"
  by (rule that [of "take off bs @ new @ drop (off + length new) bs"]) (use assms in \<open>simp_all add: blit_def min_absorb1 min_absorb2\<close>)

text \<open>
  \<open>put_line\<close> needs two bytes behind the line, and in a block of more than 256k room for the message in front of its end.
\<close>

definition fits_line :: "nat \<Rightarrow> nat \<Rightarrow> bool" where
  "fits_line s pos \<longleftrightarrow> pos + 2 \<le> s \<and> (262144 < s \<longrightarrow> 27 \<le> pos)"

definition put_text :: "buffer_desc \<Rightarrow> byte list \<Rightarrow> byte list" where
  "put_text b line =
     (let t = content b @ line in if 262144 < buffer_size b then take (length t - 27) t @ too_long else t)"

lemma put_line_fails:
  assumes c: "chars b = Some bs" "length bs = buffer_size b" and n: "\<not> fits_line (buffer_size b) (buffer_pos b + length line)"
  shows "put_line line b = Inl Out_Of_Bounds"
proof (cases "buffer_pos b + length line + 1 \<le> buffer_size b")
  case False
  then have "blit bs (buffer_pos b) (line @ [0]) = Inl Out_Of_Bounds" using c by (intro blit_fails) simp
  then show ?thesis by (simp add: put_line_def c(1))
next
  case True
  with c(2) have "buffer_pos b + length (line @ [0]) \<le> length bs" by simp
  then obtain bs1 where 1: "blit bs (buffer_pos b) (line @ [0]) = Inr bs1" "length bs1 = length bs" by (rule blit_works)
  let ?p = "buffer_pos b + length line"
  show ?thesis
  proof (cases "262144 < buffer_size b \<and> ?p < 27")
    case True
    then show ?thesis by (simp add: put_line_def c(1) 1(1) Let_def length_too_long)
  next
    case small: False
    with n have last: "blit bs' (?p + 1) [0] = Inl Out_Of_Bounds" if "length bs' = length bs" for bs'
      using that c(2) by (intro blit_fails) (auto simp: fits_line_def)
    show ?thesis
    proof (cases "262144 < buffer_size b")
      case False
      then show ?thesis using last [OF 1(2)] by (simp add: put_line_def c(1) 1(1) Let_def)
    next
      case big: True
      then have "(?p - length too_long) + length (too_long @ [0]) \<le> length bs1"
        using True small 1(2) c(2) by (simp add: length_too_long)
      then obtain bs2 where 2: "blit bs1 (?p - length too_long) (too_long @ [0]) = Inr bs2" "length bs2 = length bs1" by (rule blit_works)
      then show ?thesis using last [of bs2] 1(2) big small by (simp add: put_line_def c(1) 1(1) Let_def length_too_long)
    qed
  qed
qed

lemma put_line_works:
  assumes c: "chars b = Some bs" "length bs = buffer_size b" and n: "fits_line (buffer_size b) (buffer_pos b + length line)"
  obtains bs3 where "put_line line b = Inr (b\<lparr>chars := Some bs3, buffer_pos := buffer_pos b + length line,
      superseded := superseded b \<or> 262144 < buffer_size b\<rparr>)" "length bs3 = buffer_size b"
    "take (buffer_pos b + length line) bs3 = put_text b line" "bs3 ! (buffer_pos b + length line) = 0"
proof -
  let ?p = "buffer_pos b + length line"
  have room: "?p + 2 \<le> buffer_size b" using n by (simp add: fits_line_def)
  have pos: "length (take (buffer_pos b) bs) = buffer_pos b" using room c(2) by simp
  have cont: "content b = take (buffer_pos b) bs" by (simp add: content_def bytes_of_def c(1))
  have "buffer_pos b + length (line @ [0]) \<le> length bs" using c(2) room by simp
  then obtain bs1 where 1: "blit bs (buffer_pos b) (line @ [0]) = Inr bs1" "length bs1 = length bs"
      "bs1 = take (buffer_pos b) bs @ (line @ [0]) @ drop (buffer_pos b + length (line @ [0])) bs" by (rule blit_works)
  have t1: "take ?p bs1 = content b @ line" "take (?p + 1) bs1 = content b @ line @ [0]" using 1(3) pos cont by simp_all
  obtain bs2 where 2: "(if 262144 < buffer_size b then if ?p < length too_long then Inl Out_Of_Bounds
        else blit bs1 (?p - length too_long) (too_long @ [0]) else Inr bs1) = Inr bs2" "length bs2 = length bs"
      "take (?p + 1) bs2 = put_text b line @ [0]"
  proof (cases "262144 < buffer_size b")
    case True
    with n have l: "27 \<le> ?p" by (simp add: fits_line_def)
    then have "(?p - length too_long) + length (too_long @ [0]) \<le> length bs1" using 1(2) c(2) room by (simp add: length_too_long)
    then obtain bs2 where b2: "blit bs1 (?p - length too_long) (too_long @ [0]) = Inr bs2" "length bs2 = length bs1"
        "bs2 = take (?p - length too_long) bs1 @ (too_long @ [0]) @ drop (?p - length too_long + length (too_long @ [0])) bs1"
      by (rule blit_works)
    have "take (?p - 27) bs1 = take (?p - 27) (content b @ line)" using t1(1) l by (metis diff_le_self min_def take_take)
    moreover have "length (take (?p - 27) bs1) = ?p - 27" using 1(2) c(2) room by simp
    ultimately have x: "bs2 = (take (?p - 27) (content b @ line) @ too_long @ [0]) @ drop (?p + 1) bs1"
        "length (take (?p - 27) (content b @ line) @ too_long @ [0]) = ?p + 1"
      using b2(3) l by (simp_all only: length_append length_too_long append_assoc list.size) simp_all
    have "take (?p + 1) bs2 = take (?p - 27) (content b @ line) @ too_long @ [0]"
      using x by (metis append_eq_conv_conj)
    moreover have "length (content b @ line) = ?p" using pos cont by simp
    ultimately show ?thesis using True l b2(1,2) 1(2)
      by (intro that [of bs2]) (simp_all add: length_too_long put_text_def Let_def)
  next
    case False
    then show ?thesis using 1(2) t1(2) by (intro that [of bs1]) (simp_all add: put_text_def Let_def)
  qed
  have "(?p + 1) + length [0 :: byte] \<le> length bs2" using 2(2) c(2) room by simp
  then obtain bs3 where 3: "blit bs2 (?p + 1) [0] = Inr bs3" "length bs3 = length bs2"
      "bs3 = take (?p + 1) bs2 @ [0] @ drop (?p + 1 + length [0 :: byte]) bs2" by (rule blit_works)
  have put: "length (put_text b line) = ?p" using arg_cong [OF 2(3), of length] 2(2) c(2) room by simp
  have bs3: "bs3 = put_text b line @ 0 # 0 # drop (?p + 2) bs2" using 3(3) 2(3) by simp
  show ?thesis
  proof (rule that [of bs3])
    show "put_line line b = Inr (b\<lparr>chars := Some bs3, buffer_pos := ?p, superseded := superseded b \<or> 262144 < buffer_size b\<rparr>)"
      using 1(1) 2(1) 3(1) by (simp add: put_line_def c(1) Let_def)
    show "length bs3 = buffer_size b" using 3(2) 2(2) c(2) by simp
    show "take ?p bs3 = put_text b line" using bs3 put by simp
    show "bs3 ! ?p = 0" unfolding bs3 using put by (simp add: nth_append)
  qed
qed

lemma add_line_works:
  assumes b: "buf_ok b" "\<not> superseded b" and M: "\<forall>n. realloc_ok M n" and line: "line \<noteq> []"
    and big: "buffer_pos b + length line < 2 ^ 30"
  defines "s \<equiv> grown (buffer_size b) (buffer_pos b + length line)"
  shows "if fits_line s (buffer_pos b + length line)
    then \<exists>b'. add_line M line b = Inr b' \<and> buf_ok b' \<and> buffer_size b' = s \<and> superseded b' = (262144 < s) \<and>
      content b' = put_text (b\<lparr>buffer_size := s\<rparr>) line \<and> bytes_of b' ! buffer_pos b' = 0
    else add_line M line b = Inl Out_Of_Bounds"
proof -
  let ?pos = "buffer_pos b + length line"
  have "?pos \<le> 2 ^ 63 * max (buffer_size b) 2048" using big by (auto simp: max_def)
  moreover have "buffer_pos b \<le> buffer_size b" "length (bytes_of b) = buffer_size b" using b by (simp_all add: buf_ok_def)
  ultimately obtain b1 where b1: "make_room 64 M (add_line_at 1 M) (length line) b = Inr b1" "buffer_size b1 = s"
      "buffer_pos b1 = buffer_pos b" "superseded b1 = superseded b" "length (bytes_of b1) = s" "content b1 = content b"
      "chars b1 = None \<longrightarrow> s = 0"
    using make_room_grown [OF M, of b "length line" 63 "add_line_at 1 M"] unfolding s_def by (auto simp del: make_room.simps)
  have add: "add_line M line b = put_line line b1"
    using b(2) b1(1) by (simp add: add_line_def numeral_2_eq_2 del: make_room.simps)
  have s: "?pos \<le> s" unfolding s_def by (rule grown_enough)
  with line b1(7) obtain bs where bs: "chars b1 = Some bs" by (cases "chars b1") auto
  with b1(5) have len: "length bs = s" by (simp add: bytes_of_def)
  have b1ok: "chars b1 = Some bs" "length bs = buffer_size b1" using bs len b1(2) by simp_all
  show ?thesis
  proof (cases "fits_line s ?pos")
    case False
    with put_line_fails [OF b1ok, of line] add b1 show ?thesis by simp
  next
    case True
    then have room: "fits_line (buffer_size b1) (buffer_pos b1 + length line)" by (simp add: b1)
    have same: "put_text b1 line = put_text (b\<lparr>buffer_size := s\<rparr>) line"
      using b1(2,6) by (simp add: put_text_def content_def bytes_of_def)
    from put_line_works [OF b1ok room] obtain bs3 where
      3: "put_line line b1 = Inr (b1\<lparr>chars := Some bs3, buffer_pos := ?pos, superseded := 262144 < s\<rparr>)" "length bs3 = s"
        "take ?pos bs3 = put_text (b\<lparr>buffer_size := s\<rparr>) line" "bs3 ! ?pos = 0"
      using b(2) by (auto simp: b1(2,3,4) same)
    with True add b1 s show ?thesis
      by (auto simp: buf_ok_def content_def bytes_of_def)
  qed
qed

text \<open>C13: Adding a line to a block that is not superseded works exactly when two bytes are left behind it in the block the loop makes
  and, in a block of more than 256k, the line ends 27 bytes from the beginning or later: then the line is added, its end written over
  by a message in such a block. Otherwise a byte outside the block is written: behind it, as the loop makes room for the line and
  one byte less than that, or in front of it, when the block was made so large by an answer before. Memory is taken to be there.
\<close>

theorem add_line_outcome:
  assumes b: "buf_ok b" "\<not> superseded b" and M: "\<forall>n. realloc_ok M n" and line: "line \<noteq> []"
    and big: "buffer_pos b + length line < 2 ^ 30"
  defines "s \<equiv> grown (buffer_size b) (buffer_pos b + length line)"
  shows "if fits_line s (buffer_pos b + length line)
    then \<exists>b'. add_line M line b = Inr b' \<and> buf_ok b' \<and> buffer_size b' = s \<and> superseded b' = (262144 < s) \<and>
      content b' = put_text (b\<lparr>buffer_size := s\<rparr>) line \<and> bytes_of b' ! buffer_pos b' = 0
    else add_line M line b = Inl Out_Of_Bounds"
  unfolding s_def by (rule add_line_works [OF assms(1-5)])

text \<open>
  A line of 4094 bytes fits into an empty block of 4096, one of 4095 does not; a short line does not fit into an empty block of 512k.
\<close>

definition sample_block :: "nat \<Rightarrow> buffer_desc" where
  "sample_block n = \<lparr>chars = Some (0 # replicate (n - 1) 7), buffer_size = n, buffer_pos = 0, superseded = False\<rparr>"

definition sample_core :: core where
  "sample_core = \<lparr>realloc_ok = (\<lambda>_. True), junk = 7\<rparr>"

lemma add_line_outcome_witness:
  "(\<exists>b'. add_line sample_core (replicate 4094 65) (sample_block 4096) = Inr b' \<and> content b' = replicate 4094 65) \<and>
   add_line sample_core (replicate 4095 65) (sample_block 4096) = Inl Out_Of_Bounds \<and>
   add_line sample_core [65, 10] (sample_block 524288) = Inl Out_Of_Bounds"
proof -
  have ok: "buf_ok (sample_block 4096)" "buf_ok (sample_block 524288)" "\<not> superseded (sample_block n)"
      "\<forall>n. realloc_ok sample_core n" for n
    by (simp_all add: buf_ok_def bytes_of_def sample_block_def sample_core_def)
  have g: "grown 4096 4094 = 4096" "grown 4096 4095 = 4096" "grown 524288 (Suc (Suc 0)) = 524288" by (simp_all add: grown.simps)
  have z: "buffer_pos (sample_block n) = 0" "buffer_size (sample_block n) = n" for n by (simp_all add: sample_block_def)
  have r: "replicate 4094 (65 :: byte) \<noteq> []" "replicate 4095 (65 :: byte) \<noteq> []" "[65, 10 :: byte] \<noteq> []" by (simp_all only: replicate_empty) simp_all
  have t: "put_text (sample_block 4096) (replicate 4094 65) = replicate 4094 65"
    by (simp add: put_text_def content_def z)
  have u: "sample_block n\<lparr>buffer_size := n\<rparr> = sample_block n" for n by (simp add: sample_block_def)
  show ?thesis
    using add_line_outcome [OF ok(1,3,4) r(1)] add_line_outcome [OF ok(1,3,4) r(2)] add_line_outcome [OF ok(2,3,4) r(3)] g z t u
    by (auto simp: fits_line_def)
qed

section \<open>The search\<close>

lemma lines_of_drop: "2 \<le> n \<Longrightarrow> lines_of n (concat (drop i (lines_of n c))) = drop i (lines_of n c)"
proof (induction i arbitrary: c)
  case 0
  then show ?case by (simp add: concat_lines_of)
next
  case (Suc i)
  then show ?case by (cases "c = []") (simp_all add: lines_of_step)
qed

definition offset :: "byte list list \<Rightarrow> nat \<Rightarrow> nat" where
  "offset L i = length (concat (take i L))"

lemma offset_0 [simp]: "offset L 0 = 0"
  by (simp add: offset_def)

lemma offset_Suc: "i < length L \<Longrightarrow> offset L (Suc i) = offset L i + length (L ! i)"
  by (simp add: offset_def take_Suc_conv_app_nth)

lemma lines_of_nonempty: "2 \<le> n \<Longrightarrow> i < length (lines_of n c) \<Longrightarrow> lines_of n c ! i \<noteq> []"
proof -
  assume n: "2 \<le> n" and i: "i < length (lines_of n c)"
  let ?d = "concat (drop i (lines_of n c))"
  have d: "lines_of n ?d = lines_of n c ! i # drop (Suc i) (lines_of n c)"
    using n i by (simp add: lines_of_drop Cons_nth_drop_Suc)
  then have "?d \<noteq> []" by (metis lines_of_nil list.distinct(1))
  then have "lines_of n c ! i = take_line (n - 1) ?d" using d n by (simp add: lines_of_step)
  then show ?thesis using \<open>?d \<noteq> []\<close> n take_line_nil [of "n - 1" ?d] by simp
qed

lemma fgets_at:
  assumes n: "2 \<le> n" and L: "L = lines_of n c" and i: "i \<le> length L"
  shows "fgets n c (offset L i) = (if i < length L then Some (L ! i, offset L (Suc i)) else None)"
proof -
  have c: "c = concat (take i L) @ concat (drop i L)" using n L by (simp add: concat_lines_of flip: concat_append)
  then have d: "drop (offset L i) c = concat (drop i L)" by (metis append_eq_conv_conj offset_def)
  show ?thesis
  proof (cases "i < length L")
    case False
    then show ?thesis using d i by (simp add: fgets_def)
  next
    case True
    have l: "lines_of n (concat (drop i L)) = L ! i # drop (Suc i) L" using lines_of_drop [OF n, of i c] True L
      by (simp add: Cons_nth_drop_Suc)
    then have ne: "concat (drop i L) \<noteq> []" by (metis lines_of_nil list.distinct(1))
    with l n have "take_line (n - 1) (concat (drop i L)) = L ! i" by (simp add: lines_of_step)
    then show ?thesis using d ne True by (simp add: fgets_def Let_def offset_Suc)
  qed
qed

text \<open>A file without null bytes as its lines, and the rounds of the loop on it.\<close>

definition text_lines :: "byte list \<Rightarrow> byte list list \<Rightarrow> bool" where
  "text_lines c L \<longleftrightarrow> 0 \<notin> set c \<and> L = lines_of 4096 c"

lemma offset_less: "text_lines c L \<Longrightarrow> i < length L \<Longrightarrow> offset L i < offset L (Suc i)"
  using lines_of_nonempty [of 4096 i c] by (simp add: text_lines_def offset_Suc)

lemma offset_mono: "text_lines c L \<Longrightarrow> i < j \<Longrightarrow> j \<le> length L \<Longrightarrow> offset L i < offset L j"
proof (induction j)
  case (Suc j)
  then show ?case using offset_less [of c L j] by (cases "i = j") (auto simp: less_Suc_eq)
qed simp

lemma offset_eq: "text_lines c L \<Longrightarrow> i \<le> length L \<Longrightarrow> j \<le> length L \<Longrightarrow> offset L i = offset L j \<longleftrightarrow> i = j"
  using offset_mono [of c L i j] offset_mono [of c L j i] by (cases i j rule: linorder_cases) auto

declare match_loop.simps(2) [simp del]

lemma match_at_line:
  assumes L: "text_lines c L" and i: "i < length L"
  shows "match_loop (Suc k) needle c st (offset L i) =
    (if chop (L ! i) = needle then Inr (1, offset L (Suc i))
     else if offset L (Suc i) = st then Inr (0, offset L (Suc i))
     else match_loop k needle c (if st = 0 then offset L (Suc i) else st) (offset L (Suc i)))"
proof -
  have "set (L ! i) \<subseteq> set c"
    using L nth_mem [OF i] concat_lines_of [of 4096 c] set_concat [of L] by (auto simp: text_lines_def)
  with L have "0 \<notin> set (L ! i)" by (auto simp: text_lines_def)
  then have t: "text_upto0 (L ! i) = L ! i" by (auto simp: text_upto0_def takeWhile_eq_all_conv)
  have "L ! i \<noteq> []" using lines_of_nonempty [of 4096 i c] L i by (simp add: text_lines_def)
  moreover have "fgets 4096 c (offset L i) = Some (L ! i, offset L (Suc i))"
    using fgets_at [of 4096 L c i] L i by (simp add: text_lines_def)
  ultimately show ?thesis by (simp add: t Let_def match_loop.simps(2))
qed

lemma match_at_end:
  assumes L: "text_lines c L"
  shows "match_loop (Suc k) needle c st (offset L (length L)) =
    (if offset L (length L) = st then Inr (0, offset L (length L)) else match_loop k needle c st 0)"
  using fgets_at [of 4096 L c "length L"] L by (simp add: text_lines_def match_loop.simps(2))

text \<open>From a line to a later one, and round the end.\<close>

definition hit :: "byte list \<Rightarrow> byte list list \<Rightarrow> nat \<Rightarrow> nat \<Rightarrow> bool" where
  "hit needle L i j \<longleftrightarrow> needle \<in> chop ` set (take (j - i) (drop i L))"

lemma hit_step: "i < j \<Longrightarrow> j \<le> length L \<Longrightarrow> hit needle L i j \<longleftrightarrow> chop (L ! i) = needle \<or> hit needle L (Suc i) j"
  by (auto simp: hit_def Cons_nth_drop_Suc [symmetric] take_Cons' Suc_diff_Suc)

lemma match_up_to:
  assumes L: "text_lines c L"
  shows "i < s \<Longrightarrow> s \<le> length L \<Longrightarrow> s - i \<le> k \<Longrightarrow>
    \<exists>j \<le> length L. match_loop k needle c (offset L s) (offset L i) = Inr (if hit needle L i s then 1 else 0, offset L j)"
proof (induction "s - i" arbitrary: i k)
  case 0
  then show ?case by simp
next
  case (Suc d)
  then obtain k' where k: "k = Suc k'" by (cases k) auto
  have i: "i < length L" using Suc.prems by simp
  have s0: "offset L s \<noteq> 0" using offset_mono [OF L Suc.prems(1,2)] by simp
  show ?case
  proof (cases "chop (L ! i) = needle \<or> Suc i = s")
    case True
    have "hit needle L s s = False" by (simp add: hit_def)
    with True show ?thesis using i Suc.prems hit_step [of i s L needle] offset_eq [OF L, of "Suc i" s]
      by (intro exI [of _ "Suc i"]) (auto simp: k match_at_line [OF L i])
  next
    case False
    then show ?thesis using Suc.hyps(1) [of "Suc i" k'] Suc.hyps(2) Suc.prems i s0 hit_step [of i s L needle]
        offset_eq [OF L, of "Suc i" s]
      by (simp add: k match_at_line [OF L i])
  qed
qed

lemma match_from:
  assumes L: "text_lines c L" and s: "0 < s" "s \<le> length L"
  shows "s \<le> i \<Longrightarrow> i \<le> length L \<Longrightarrow> length L - i + 1 + s \<le> k \<Longrightarrow>
    \<exists>j \<le> length L. match_loop k needle c (offset L s) (offset L i) =
      Inr (if hit needle L i (length L) \<or> (s < length L \<and> hit needle L 0 s) then 1 else 0, offset L j)"
proof (induction "length L - i" arbitrary: i k)
  case 0
  then obtain k' where k: "k = Suc k'" by (cases k) auto
  from 0 have i: "i = length L" by simp
  have e: "offset L (length L) = offset L s \<longleftrightarrow> s = length L" using offset_eq [OF L, of "length L" s] s by auto
  show ?case
  proof (cases "s = length L")
    case True
    then show ?thesis using e by (intro exI [of _ "length L"]) (simp add: k i match_at_end [OF L] hit_def)
  next
    case False
    then show ?thesis using match_up_to [OF L, of 0 s k' needle] s 0 e
      by (simp add: k i match_at_end [OF L] hit_def)
  qed
next
  case (Suc d)
  then obtain k' where k: "k = Suc k'" by (cases k) auto
  have i: "i < length L" using Suc.hyps(2) by simp
  have s0: "offset L s \<noteq> 0" using offset_mono [OF L s] by simp
  have e: "offset L (Suc i) \<noteq> offset L s" using offset_eq [OF L, of "Suc i" s] Suc.prems i s by simp
  show ?case
  proof (cases "chop (L ! i) = needle")
    case True
    with i show ?thesis using hit_step [OF i, of L needle]
      by (intro exI [of _ "Suc i"]) (simp add: k match_at_line [OF L i])
  next
    case False
    then show ?thesis using Suc.hyps(1) [of "Suc i" k'] Suc.hyps(2) Suc.prems i s0 e hit_step [OF i, of L needle]
      by (simp add: k match_at_line [OF L i])
  qed
qed

lemma length_text_lines: "text_lines c L \<Longrightarrow> length L \<le> length c"
proof -
  assume L: "text_lines c L"
  have "i \<le> offset L i" if "i \<le> length L" for i
    using that
  proof (induction i)
    case (Suc i)
    with offset_less [OF L, of i] show ?case by simp
  qed simp
  from this [of "length L"] L show ?thesis by (simp add: offset_def text_lines_def concat_lines_of)
qed

lemma hit_all: "hit needle L 0 (length L) \<longleftrightarrow> needle \<in> chop ` set L"
  by (simp add: hit_def)

lemma hit_split: "i \<le> s \<Longrightarrow> s \<le> j \<Longrightarrow> hit needle L i j \<longleftrightarrow> hit needle L i s \<or> hit needle L s j"
proof -
  assume "i \<le> s" "s \<le> j"
  then have e: "j - i = (s - i) + (j - s)" by simp
  have "take (j - i) (drop i L) = take (s - i) (drop i L) @ take (j - s) (drop s L)"
    unfolding e take_add using \<open>i \<le> s\<close> by simp
  then show ?thesis by (auto simp: hit_def)
qed

lemma get_match_rounds: "get_match needle c p = match_loop (Suc (Suc (2 * length c + 2))) needle c 0 p"
  by (simp add: get_match_def numeral_eq_Suc)

lemma get_match_finds_at:
  assumes L: "text_lines c L" and i: "i \<le> length L"
  shows "\<exists>j \<le> length L. get_match needle c (offset L i) =
    Inr (if needle \<in> chop ` set (if Suc i = length L then [last L] else L) then 1 else 0, offset L j)"
proof -
  have len: "length L \<le> length c" by (rule length_text_lines [OF L])
  show ?thesis
  proof (cases "i < length L")
    case True
    have e: "offset L (Suc i) \<noteq> 0" using offset_mono [OF L, of 0 "Suc i"] True by simp
    have h: "hit needle L i (length L) \<longleftrightarrow> chop (L ! i) = needle \<or> hit needle L (Suc i) (length L)"
      using hit_step [OF True, of L needle] by simp
    have all: "hit needle L 0 (length L) \<longleftrightarrow> hit needle L 0 (Suc i) \<or> hit needle L (Suc i) (length L)"
      using hit_split [of 0 "Suc i" "length L"] True by simp
    have here: "chop (L ! i) = needle \<Longrightarrow> hit needle L 0 (length L)" using True by (auto simp: hit_all)
    have last: "Suc i = length L \<Longrightarrow> last L = L ! i" using True by (cases L rule: rev_cases) auto
    have m: "get_match needle c (offset L i) =
        (if chop (L ! i) = needle then Inr (1, offset L (Suc i))
         else match_loop (Suc (2 * length c + 2)) needle c (offset L (Suc i)) (offset L (Suc i)))"
      using match_at_line [OF L True, of "Suc (2 * length c + 2)"] e by (simp add: get_match_rounds)
    show ?thesis
    proof (cases "chop (L ! i) = needle")
      case t: True
      with here True last show ?thesis by (intro exI [of _ "Suc i"]) (auto simp: m hit_all)
    next
      case False
      have "(hit needle L (Suc i) (length L) \<or> (Suc i < length L \<and> hit needle L 0 (Suc i))) =
          (needle \<in> chop ` set (if Suc i = length L then [List.last L] else L))"
      proof (cases "Suc i = length L")
        case True
        then show ?thesis using last [OF True] False by (auto simp: hit_def)
      next
        case other: False
        then have "Suc i < length L" using True by simp
        with other all show ?thesis by (simp add: hit_all [symmetric]) blast
      qed
      moreover have le: "length L - Suc 0 \<le> Suc (2 * length c)" using len by simp
      moreover obtain j where "j \<le> length L" "match_loop (Suc (2 * length c + 2)) needle c (offset L (Suc i)) (offset L (Suc i)) =
          Inr (if hit needle L (Suc i) (length L) \<or> (Suc i < length L \<and> hit needle L 0 (Suc i)) then 1 else 0, offset L j)"
        using match_from [OF L, of "Suc i" "Suc i" "Suc (2 * length c + 2)" needle] True len le by auto
      ultimately show ?thesis using m False by (intro exI [of _ j]) (simp)
    qed
  next
    case False
    with i have [simp]: "i = length L" by simp
    show ?thesis
    proof (cases "L = []")
      case True
      then show ?thesis using match_at_end [OF L, of "Suc (2 * length c + 2)" needle 0]
        by (simp add: get_match_rounds)
    next
      case nonempty: False
      then have z: "offset L (length L) \<noteq> 0" "offset L (Suc 0) \<noteq> 0" "0 < length L"
        using offset_mono [OF L, of 0 "length L"] offset_mono [OF L, of 0 "Suc 0"] by (simp_all add: Suc_le_eq)
      have m: "get_match needle c (offset L i) =
          (if chop (L ! 0) = needle then Inr (1, offset L (Suc 0))
           else match_loop (2 * length c + 2) needle c (offset L (Suc 0)) (offset L (Suc 0)))"
        using match_at_end [OF L, of "Suc (2 * length c + 2)" needle 0] match_at_line [OF L z(3), of "2 * length c + 2" needle 0] z
        by (simp add: get_match_rounds)
      have h: "hit needle L 0 (length L) \<longleftrightarrow> chop (L ! 0) = needle \<or> hit needle L (Suc 0) (length L)"
        using hit_step [OF z(3), of L needle] by simp
      show ?thesis
      proof (cases "chop (L ! 0) = needle")
        case True
        then have "needle \<in> chop ` set L" using h hit_all [of needle L] by simp
        with True show ?thesis using z(3) m by (intro exI [of _ "Suc 0"]) (simp add: Suc_le_eq)
      next
        case False
        moreover have "hit needle L 0 (Suc 0) \<longleftrightarrow> False" using False z(3) hit_step [of 0 "Suc 0" L needle] by (simp add: hit_def Suc_le_eq)
        ultimately show ?thesis using match_from [OF L, of "Suc 0" "Suc 0" "2 * length c + 2" needle] z(3) len m h
          by (auto simp: hit_all)
      qed
    qed
  qed
qed

text \<open>C27: On a file without null bytes get_match returns, from the beginning of any line, and leaves the stream at the beginning of
  a line. It finds the line exactly when the file has it, except from the beginning of the last line: then no other line is looked at.
\<close>

theorem get_match_finds:
  assumes L: "text_lines c L" and i: "i \<le> length L"
  shows "\<exists>j \<le> length L. get_match needle c (offset L i) =
    Inr (if needle \<in> chop ` set (if Suc i = length L then [last L] else L) then 1 else 0, offset L j)"
  by (rule get_match_finds_at [OF assms])

lemma sample_lines: "text_lines [65, 10, 66, 10] [[65, 10], [66, 10]]"
  by (simp add: text_lines_def lines_of_step take_line_numeral)

text \<open>The second of two lines is found from the beginning; from the beginning of the second the first is not.\<close>

lemma get_match_finds_witness:
  "(\<exists>j. get_match [66] [65, 10, 66, 10] 0 = Inr (1, j)) \<and> (\<exists>j. get_match [65] [65, 10, 66, 10] 2 = Inr (0, j))"
proof -
  have o: "offset [[65, 10], [66 :: byte, 10]] 0 = 0" "offset [[65, 10], [66 :: byte, 10]] (Suc 0) = 2" by (simp_all add: offset_def)
  show ?thesis
    using get_match_finds [OF sample_lines, of 0 "[66]"] get_match_finds [OF sample_lines, of "Suc 0" "[65]"] by (auto simp: o chop_def)
qed

text \<open>Adding one line after the other.\<close>

fun add_all :: "core \<Rightarrow> byte list list \<Rightarrow> buffer_desc \<Rightarrow> buffer_desc res" where
  "add_all M [] b = Inr b"
| "add_all M (l # ls) b = bind_res (add_line M l b) (\<lambda>b1. bind_res (add_line M [10] b1) (add_all M ls))"

lemma new_lines_report:
  assumes L: "text_lines c L"
  shows "i \<le> length L \<Longrightarrow> \<exists>out. (\<forall>b. new_lines M c (offset L i) needles b = add_all M out b) \<and>
    subseq out needles \<and> subseq (filter (\<lambda>l. l \<notin> chop ` set L) needles) out"
proof (induction needles arbitrary: i)
  case Nil
  then show ?case by (intro exI [of _ "[]"]) simp
next
  case (Cons needle needles)
  obtain j where j: "j \<le> length L" and m: "get_match needle c (offset L i) =
      Inr (if needle \<in> chop ` set (if Suc i = length L then [last L] else L) then 1 else 0, offset L j)"
    using get_match_finds_at [OF L Cons.prems] by blast
  obtain out where out: "\<And>b. new_lines M c (offset L j) needles b = add_all M out b" "subseq out needles"
      "subseq (filter (\<lambda>l. l \<notin> chop ` set L) needles) out"
    using Cons.IH [OF j] by blast
  show ?case
  proof (cases "needle \<in> chop ` set (if Suc i = length L then [last L] else L)")
    case True
    then have "needle \<in> chop ` set L" by (cases "L = []") (auto split: if_splits)
    moreover have "\<forall>b. new_lines M c (offset L i) (needle # needles) b = add_all M out b" using m True out(1) by simp
    ultimately show ?thesis using out(2,3) by (intro exI [of _ out]) (simp add: list_emb_Cons del: new_lines.simps)
  next
    case False
    have "\<forall>b. new_lines M c (offset L i) (needle # needles) b = add_all M (needle # out) b"
      using m False ext [of "new_lines M c (offset L j) needles" "add_all M out", OF out(1)] by simp
    with out(2,3) show ?thesis by (intro exI [of _ "needle # out"]) (auto intro: list_emb_Cons)
  qed
qed

text \<open>C9: No new line is missed: against an old file without null bytes, what the comparison adds to its buffer are lines of
  the new output in their order, every one among them that the old file does not have.
\<close>

theorem new_lines_reported:
  assumes "text_lines c L"
  shows "\<exists>out. (\<forall>b. new_lines M c 0 needles b = add_all M out b) \<and> subseq out needles \<and>
    (\<forall>l \<in> set needles. l \<notin> chop ` set L \<longrightarrow> l \<in> set out)"
proof -
  obtain out where out: "\<forall>b. new_lines M c (offset L 0) needles b = add_all M out b" "subseq out needles"
      "subseq (filter (\<lambda>l. l \<notin> chop ` set L) needles) out"
    using new_lines_report [OF assms, of 0 M needles] by auto
  have "l \<in> set out" if "l \<in> set needles" "l \<notin> chop ` set L" for l
    using list_emb_set [OF out(3), of l] that by auto
  with out(1,2) show ?thesis by (intro exI [of _ out]) auto
qed

lemma new_lines_reported_witness:
  "\<exists>out. (\<forall>b. new_lines sample_core [65, 10, 66, 10] 0 [[66], [65], [67]] b = add_all sample_core out b) \<and> [67] \<in> set out"
  using new_lines_reported [OF sample_lines, of sample_core "[[66], [65], [67]]"] by (auto simp: chop_def)

section \<open>The copy of a file\<close>

lemma copy_loop_copies:
  assumes ne: "from \<noteq> to" and room: "\<forall>n \<le> length data. \<not> full K to n" and src: "files from = Some f" "f_bytes f = data"
  shows "p \<le> length data \<Longrightarrow> (length data - p + 4095) div 4096 < k \<Longrightarrow> files to = Some \<lparr>f_bytes = take p data, f_mode = m\<rparr> \<Longrightarrow>
    copy_loop k K \<lparr>s_path = from, s_reads = True, s_writes = False, s_append = False, s_pos = p\<rparr>
      \<lparr>s_path = to, s_reads = False, s_writes = True, s_append = False, s_pos = p\<rparr> files =
    Inr (True, files(to \<mapsto> \<lparr>f_bytes = data, f_mode = m\<rparr>))"
  using src
proof (induction k arbitrary: p files)
  case (Suc k)
  show ?case
  proof (cases "p = length data")
    case True
    have "files = files(to \<mapsto> \<lparr>f_bytes = data, f_mode = m\<rparr>)" using Suc.prems(3) True by (simp add: fun_upd_idem)
    with True Suc.prems show ?thesis by (simp add: fread_def)
  next
    case False
    let ?bs = "take 4096 (drop p data)" and ?q = "p + min 4096 (length data - p)"
    let ?files = "files(to \<mapsto> \<lparr>f_bytes = take ?q data, f_mode = m\<rparr>)"
    have p: "p < length data" using False Suc.prems(1) by simp
    have len: "length ?bs = ?q - p" "?bs \<noteq> []" using p by simp_all
    have app: "take p data @ ?bs = take ?q data" using p by (simp add: take_add min_def)
    have "length (overlay (take p data) p ?bs) = ?q" using p overlay_end [of "take p data" ?bs] by (simp add: min_absorb2)
    then have free: "\<not> full K to (length (overlay (take p data) p ?bs))" using room p by simp
    have over: "overlay (take p data) p ?bs = take ?q data"
      using overlay_end [of "take p data" ?bs] p app by (simp add: min_absorb2)
    have rd: "fread files \<lparr>s_path = from, s_reads = True, s_writes = False, s_append = False, s_pos = p\<rparr> 4096 =
        (?bs, \<lparr>s_path = from, s_reads = True, s_writes = False, s_append = False, s_pos = ?q\<rparr>)"
      using Suc.prems p by (simp add: fread_def Let_def)
    have wr: "fwrite_item K files \<lparr>s_path = to, s_reads = False, s_writes = True, s_append = False, s_pos = p\<rparr> ?bs =
        (True, \<lparr>s_path = to, s_reads = False, s_writes = True, s_append = False, s_pos = ?q\<rparr>, ?files)"
      using Suc.prems(3) free len p by (simp add: fwrite_item_def Let_def over)
    have "(length data - ?q + 4095) div 4096 < k"
    proof (cases "length data - p \<le> 4096")
      case True
      then have "length data - ?q = 0" by simp
      moreover have "1 \<le> (length data - p + 4095) div 4096" using p by (simp add: le_div_geq)
      ultimately show ?thesis using Suc.prems(2) by simp
    next
      case False
      then have "length data - p + 4095 = (length data - ?q + 4095) + 4096" by simp
      then show ?thesis using Suc.prems(2) by simp
    qed
    moreover have "?files from = Some f" using ne Suc.prems(4) by simp
    moreover have "?q \<le> length data" using p by simp
    moreover have "?files to = Some \<lparr>f_bytes = take ?q data, f_mode = m\<rparr>" by simp
    ultimately have "copy_loop k K \<lparr>s_path = from, s_reads = True, s_writes = False, s_append = False, s_pos = ?q\<rparr>
        \<lparr>s_path = to, s_reads = False, s_writes = True, s_append = False, s_pos = ?q\<rparr> ?files =
      Inr (True, ?files(to \<mapsto> \<lparr>f_bytes = data, f_mode = m\<rparr>))"
      using Suc.prems(5) by (intro Suc.IH)
    then show ?thesis using rd wr len(2) by (auto simp: fun_eq_iff)
  qed
qed simp

text \<open>C37: The copy of a file has its bytes, and its own mode if it was there, when both can be opened and there is room;
  a copy of a file onto itself reports success too and leaves it empty.
\<close>

theorem file_copy_copies:
  assumes "files from = Some f" and "\<not> denied K from" and "\<not> denied K to"
    and "\<forall>n \<le> length (f_bytes f). \<not> full K to n" and "(length (f_bytes f) + 4095) div 4096 < k"
  shows "file_copy k K from to files = Inr (0, files(to \<mapsto> \<lparr>f_bytes = (if from = to then [] else f_bytes f),
    f_mode = (case files to of None \<Rightarrow> new_mode K | Some g \<Rightarrow> f_mode g)\<rparr>))"
proof -
  let ?m = "case files to of None \<Rightarrow> new_mode K | Some g \<Rightarrow> f_mode g"
  let ?files = "files(to \<mapsto> \<lparr>f_bytes = [], f_mode = ?m\<rparr>)"
  have op: "fopen K files (Some from) (str ''r'') = (Some \<lparr>s_path = from, s_reads = True, s_writes = False, s_append = False, s_pos = 0\<rparr>, files)"
    "fopen K files (Some to) (str ''w'') = (Some \<lparr>s_path = to, s_reads = False, s_writes = True, s_append = False, s_pos = 0\<rparr>, ?files)"
    using assms by (simp_all add: fopen_read fopen_write)
  show ?thesis
  proof (cases "from = to")
    case True
    obtain k' where "k = Suc k'" using assms(5) by (cases k) auto
    with True op show ?thesis by (simp add: file_copy_def fread_def)
  next
    case False
    with copy_loop_copies [OF False assms(4) _ refl, of ?files 0 k ?m] assms(1,5) op
    show ?thesis by (simp add: file_copy_def)
  qed
qed

lemma file_copy_copies_witness:
  defines "K \<equiv> \<lparr>denied = (\<lambda>_. False), full = (\<lambda>_ _. False), new_mode = 420, err_str = []\<rparr>"
  shows "file_copy 3 K [97] [98] [[97] \<mapsto> \<lparr>f_bytes = [1, 2, 3], f_mode = 384\<rparr>] =
      Inr (0, [[97] \<mapsto> \<lparr>f_bytes = [1, 2, 3], f_mode = 384\<rparr>, [98] \<mapsto> \<lparr>f_bytes = [1, 2, 3], f_mode = 420\<rparr>])"
  using file_copy_copies [of "[[97] \<mapsto> \<lparr>f_bytes = [1, 2, 3], f_mode = 384\<rparr>]" "[97]" _ K "[98]" 3] by (simp add: K_def)

section \<open>The count of user number 0\<close>

fun join_with :: "byte \<Rightarrow> byte list list \<Rightarrow> byte list" where
  "join_with c [] = []"
| "join_with c [t] = t"
| "join_with c (t # ts) = t @ c # join_with c ts"

lemma tokens_sep: "seps c \<Longrightarrow> tokens seps (c # s) = tokens seps s"
  by (subst (1 2) tokens.simps) (simp add: strtok_def)

lemma tokens_last: "t \<noteq> [] \<Longrightarrow> \<forall>b \<in> set t. \<not> seps b \<Longrightarrow> tokens seps t = [t]"
proof -
  assume t: "t \<noteq> []" "\<forall>b \<in> set t. \<not> seps b"
  then have d: "dropWhile seps t = t" by (cases t) auto
  have w: "takeWhile (\<lambda>b. \<not> seps b) t = t" "dropWhile (\<lambda>b. \<not> seps b) t = []"
    using t(2) by (simp_all add: takeWhile_eq_all_conv dropWhile_eq_Nil_conv)
  have "tokens seps [] = []" by (simp add: tokens.simps strtok_def)
  then show ?thesis using t(1) by (subst tokens.simps) (simp add: strtok_def d w)
qed

lemma tokens_first: "t \<noteq> [] \<Longrightarrow> \<forall>b \<in> set t. \<not> seps b \<Longrightarrow> seps c \<Longrightarrow> tokens seps (t @ c # s) = t # tokens seps s"
proof -
  assume t: "t \<noteq> []" "\<forall>b \<in> set t. \<not> seps b" and c: "seps c"
  then have "dropWhile seps (t @ c # s) = t @ c # s" by (cases t) auto
  moreover have "takeWhile (\<lambda>b. \<not> seps b) (t @ c # s) = t" "dropWhile (\<lambda>b. \<not> seps b) (t @ c # s) = c # s"
    using t c by (simp_all add: takeWhile_append2 dropWhile_append2)
  ultimately show ?thesis using t(1) by (subst tokens.simps) (simp add: strtok_def)
qed

lemma tokens_nil: "tokens seps [] = []"
  by (simp add: tokens.simps strtok_def)

lemma tokens_join:
  "seps c \<Longrightarrow> \<forall>t \<in> set ts. \<forall>b \<in> set t. \<not> seps b \<Longrightarrow> tokens seps (join_with c ts) = filter (\<lambda>t. t \<noteq> []) ts"
proof (induction c ts rule: join_with.induct)
  case (3 c t t2 ts)
  then show ?case by (cases "t = []") (simp_all add: tokens_first tokens_sep)
next
  case (2 c t)
  then show ?case by (cases "t = []") (simp_all add: tokens_last tokens_nil)
qed (simp add: tokens_nil)

lemma set_join_with: "set (join_with c ts) \<subseteq> insert c (\<Union> (set ` set ts))"
  by (induction c ts rule: join_with.induct) auto

text \<open>The fields of an entry of the password file, the last one with the end of its line.\<close>

definition entry_fields :: "byte list list \<Rightarrow> bool" where
  "entry_fields e \<longleftrightarrow> (\<forall>t \<in> set e. 58 \<notin> set t \<and> 0 \<notin> set t)"

lemma uid_zero_fields:
  assumes e: "entry_fields e" and three: "3 \<le> length (filter (\<lambda>t. t \<noteq> []) e)"
  shows "uid_zero (text_upto0 (join_with 58 e)) = Inr (filter (\<lambda>t. t \<noteq> []) e ! 2 = str ''0'')"
proof -
  have "0 \<notin> set (join_with 58 e)" using set_join_with [of 58 e] e by (auto simp: entry_fields_def)
  then have t: "text_upto0 (join_with 58 e) = join_with 58 e" by (auto simp: text_upto0_def takeWhile_eq_all_conv)
  have colon: "of_char CHR '':'' = (58 :: byte)" by simp
  have toks: "tokens (\<lambda>b. b = 58) (join_with 58 e) = filter (\<lambda>t. t \<noteq> []) e"
    by (rule tokens_join) (use e in \<open>auto simp: entry_fields_def\<close>)
  obtain x y z r where "filter (\<lambda>t. t \<noteq> []) e = x # y # z # r"
    using three by (cases "filter (\<lambda>t. t \<noteq> []) e" rule: remdups_adj.cases; cases "drop 2 (filter (\<lambda>t. t \<noteq> []) e)") auto
  then show ?thesis by (simp add: uid_zero_def t colon toks)
qed

lemma count_zeros_fields:
  assumes "\<forall>e \<in> set es. entry_fields e \<and> 3 \<le> length (filter (\<lambda>t. t \<noteq> []) e)"
  shows "count_zeros (map (join_with 58) es) =
    Inr (word_of_nat (length (filter (\<lambda>e. filter (\<lambda>t. t \<noteq> []) e ! 2 = str ''0'') es)))"
  using assms by (induction es) (simp_all add: uid_zero_fields)

text \<open>For a password file whose entries have at least three fields that are not empty, the count is that of the entries
  whose third such field is 0: it is the user number where neither name nor password is empty, but the group where the password is.
\<close>

theorem get_uid_zeros_counts:
  assumes "files (str ''/etc/passwd'') = Some f" and "\<not> denied (kern S) (str ''/etc/passwd'')"
    and "lines_of LINE_LENGTH (f_bytes f) = map (join_with 58) es"
    and "\<forall>e \<in> set es. entry_fields e \<and> 3 \<le> length (filter (\<lambda>t. t \<noteq> []) e)"
  shows "SecurityAudit_get_uid_zeros S files =
    Inr (word_of_nat (length (filter (\<lambda>e. filter (\<lambda>t. t \<noteq> []) e ! 2 = str ''0'') es)))"
  using assms count_zeros_fields [OF assms(4)] by (simp add: SecurityAudit_get_uid_zeros_def fopen_read)

text \<open>\<open>r:x:0:0\<close> counts; \<open>t::5:0\<close>, without a password, counts by its group, and \<open>u::0:5\<close> does not.\<close>

definition sample_machine :: machine where
  "sample_machine = \<lparr>kern = \<lparr>denied = (\<lambda>_. False), full = (\<lambda>_ _. False), new_mode = 420, err_str = []\<rparr>, mcore = sample_core,
     program = (\<lambda>_ _ files. ([], Some 0, files)), pipe_ok = True, fork_ok = True, fdopen_ok = True, mkdir_ok = (\<lambda>_. True),
     new_dir = (\<lambda>p. p), symlink_ok = True\<rparr>"

lemma get_uid_zeros_counts_witness:
  "SecurityAudit_get_uid_zeros sample_machine [str ''/etc/passwd'' \<mapsto>
     \<lparr>f_bytes = [114, 58, 120, 58, 48, 58, 48, 10, 116, 58, 58, 53, 58, 48, 58, 10, 117, 58, 58, 48, 58, 53, 58, 10], f_mode = 420\<rparr>] = Inr 2"
proof -
  let ?es = "[[[114], [120], [48], [48, 10]], [[116], [], [53], [48], [10]], [[117], [], [48], [53], [10]]] :: byte list list list"
  have l: "lines_of LINE_LENGTH [114, 58, 120, 58, 48, 58, 48, 10, 116, 58, 58, 53, 58, 48, 58, 10, 117, 58, 58, 48, 58, 53, 58, 10] =
      map (join_with 58) ?es"
    by (simp add: lines_of_step take_line_numeral)
  show ?thesis
    using get_uid_zeros_counts [of "[str ''/etc/passwd'' \<mapsto>
     \<lparr>f_bytes = [114, 58, 120, 58, 48, 58, 48, 10, 116, 58, 58, 53, 58, 48, 58, 10, 117, 58, 58, 48, 58, 53, 58, 10], f_mode = 420\<rparr>]" _
       sample_machine ?es] l
    by (simp add: sample_machine_def entry_fields_def str_def)
qed

section \<open>The buffers stay well-formed\<close>

lemma buf_ok_resize:
  "buf_ok b \<Longrightarrow> buffer_size b \<le> n \<Longrightarrow> buf_ok (b\<lparr>buffer_size := n, chars := Some (resize M n (chars b))\<rparr>)"
  by (simp add: buf_ok_def bytes_of_def length_resize)

lemma make_room_ok:
  "\<forall>n. realloc_ok M n \<Longrightarrow> make_room k M add len b = Inr b' \<Longrightarrow> buf_ok b \<Longrightarrow> buf_ok b'"
proof (induction k arbitrary: b)
  case (Suc k)
  show ?case
  proof (cases "buffer_pos b + len < buffer_size b + 1")
    case True
    with Suc.prems show ?thesis by simp
  next
    case False
    let ?n = "if buffer_size b * 2 < LINE_LENGTH then LINE_LENGTH else buffer_size b * 2"
    have "make_room k M add len (b\<lparr>buffer_size := ?n, chars := Some (resize M ?n (chars b))\<rparr>) = Inr b'"
      using Suc.prems(1,2) False unfolding make_room.simps(2) [of k] Let_def by simp
    then show ?thesis by (rule Suc.IH [OF Suc.prems(1)]) (rule buf_ok_resize [OF Suc.prems(3)], simp)
  qed
qed simp

lemma put_line_ok:
  assumes p: "put_line line b = Inr b'" and b: "buf_ok b"
  shows "buf_ok b'"
proof -
  obtain bs where bs: "chars b = Some bs" using p by (cases "chars b") (simp_all add: put_line_def)
  with b have l: "length bs = buffer_size b" by (simp add: buf_ok_def bytes_of_def)
  with put_line_fails [OF bs l, of line] p have f: "fits_line (buffer_size b) (buffer_pos b + length line)" by auto
  from put_line_works [OF bs l f] obtain bs3 where "put_line line b = Inr (b\<lparr>chars := Some bs3, buffer_pos := buffer_pos b + length line,
      superseded := superseded b \<or> 262144 < buffer_size b\<rparr>)" "length bs3 = buffer_size b" by blast
  with p f show ?thesis by (auto simp: buf_ok_def bytes_of_def fits_line_def)
qed

lemma add_line_ok:
  "\<forall>n. realloc_ok M n \<Longrightarrow> add_line M line b = Inr b' \<Longrightarrow> buf_ok b \<Longrightarrow> buf_ok b'"
  by (auto simp: add_line_def numeral_2_eq_2 res_iff simp del: make_room.simps split: if_splits dest: make_room_ok put_line_ok)

lemma clear_buffer_ok: "clear_buffer b = Inr b' \<Longrightarrow> buf_ok b \<Longrightarrow> buf_ok b'"
  by (auto simp: clear_buffer_def blit_def buf_ok_def bytes_of_def split: option.splits if_splits)

lemma add_lines_ok:
  "\<forall>n. realloc_ok M n \<Longrightarrow> add_lines M skip ls b = Inr b' \<Longrightarrow> buf_ok b \<Longrightarrow> buf_ok b'"
  by (induction ls arbitrary: b) (auto simp: res_iff split: if_splits dest: add_line_ok)

lemma new_lines_ok:
  "\<forall>n. realloc_ok M n \<Longrightarrow> new_lines M c pos needles b = Inr b' \<Longrightarrow> buf_ok b \<Longrightarrow> buf_ok b'"
  by (induction needles arbitrary: b pos) (auto simp: res_iff split: if_splits dest: add_line_ok)

definition audit_wf :: "audit \<Rightarrow> bool" where
  "audit_wf a \<longleftrightarrow> buf_ok (buf a) \<and> buf_ok (buf2 a) \<and> tmpDir a \<noteq> Freed_Dir"

lemma constructor_ok: "\<forall>n. realloc_ok M n \<Longrightarrow> constructor M = Inr (b, b2) \<Longrightarrow> buf_ok b \<and> buf_ok b2"
proof -
  assume M: "\<forall>n. realloc_ok M n" and c: "constructor M = Inr (b, b2)"
  have "buf_ok zero_buffer" by (simp add: buf_ok_def zero_buffer_def bytes_of_def)
  with add_line_ok [OF M] c show ?thesis by (auto simp: constructor_def res_iff)
qed

lemma passwordless_ok:
  assumes M: "\<forall>n. realloc_ok (mcore S) n" and r: "SecurityAudit_get_passwordless S prog a files = Inr (t, a', files')"
    and a: "audit_wf a"
  shows "audit_wf a'"
proof -
  obtain c files1 where e: "safe_exec_pipe S prog [Some (str ''passwordless'')] files = (c, files1)" by fastforce
  obtain b where b: "clear_buffer (buf a) = Inr b" using r by (auto simp: SecurityAudit_get_passwordless_def res_iff)
  with a clear_buffer_ok have ok: "buf_ok b" "buf_ok (buf2 a)" "tmpDir a \<noteq> Freed_Dir" by (auto simp: audit_wf_def)
  show ?thesis
  proof (cases c)
    case Not_Started
    with r e b ok show ?thesis by (auto simp: SecurityAudit_get_passwordless_def audit_wf_def)
  next
    case (Started out status)
    with r e b ok show ?thesis
      by (auto simp: SecurityAudit_get_passwordless_def audit_wf_def res_iff split: if_splits dest: add_lines_ok [OF M])
  qed
qed

lemma db_diff_ok:
  assumes M: "\<forall>n. realloc_ok (mcore S) n" and r: "db_diff S prog name db a files = Inr (t, a', files')" and a: "audit_wf a"
  shows "audit_wf a'"
proof -
  obtain c files1 where e: "safe_exec_pipe S prog [Some name] files = (c, files1)" by fastforce
  obtain b b2 where b: "clear_buffer (buf a) = Inr b" "clear_buffer (buf2 a) = Inr b2" using r by (auto simp: db_diff_def res_iff)
  with a clear_buffer_ok have ok: "buf_ok b" "buf_ok b2" "tmpDir a \<noteq> Freed_Dir" by (auto simp: audit_wf_def)
  obtain f files2 where f: "fopen (kern S) files1 (Some db) (str ''r'') = (f, files2)" by fastforce
  show ?thesis
  proof (cases c)
    case Not_Started
    with r e b ok show ?thesis by (auto simp: db_diff_def audit_wf_def)
  next
    case (Started out status)
    show ?thesis
    proof (cases f)
      case None
      with Started r e b ok f show ?thesis
        by (auto simp: db_diff_def audit_wf_def res_iff Let_def split: if_splits dest: add_lines_ok [OF M])
    next
      case (Some s)
      with Started r e b ok f show ?thesis
        by (auto simp: db_diff_def audit_wf_def res_iff Let_def split: if_splits dest: add_lines_ok [OF M] new_lines_ok [OF M])
    qed
  qed
qed

lemma run_aide_ok:
  assumes M: "\<forall>n. realloc_ok (mcore S) n" and r: "SecurityAudit_run_aide k S prog conf wd a d files = Inr (t, a', d', files')"
    and a: "audit_wf a"
  shows "audit_wf a'"
proof -
  obtain b where b: "clear_buffer (buf a) = Inr b" using r by (auto simp: SecurityAudit_run_aide_def res_iff)
  with a clear_buffer_ok have ok: "buf_ok b" "buf_ok (buf2 a)" "tmpDir a \<noteq> Freed_Dir" by (auto simp: audit_wf_def)
  obtain c files1 where e: "safe_exec_pipe S prog [Some (str ''aide''), Some (str ''-c''), conf] files = (c, files1)" by fastforce
  obtain ret files2 where x: "safe_exec S prog [Some (str ''aide''), Some (str ''-c''), conf, Some (str ''--init'')] files1 = (ret, files2)"
    by fastforce
  show ?thesis
  proof (cases c)
    case Not_Started
    with r e b ok show ?thesis by (auto simp: SecurityAudit_run_aide_def audit_wf_def split: option.splits if_splits)
  next
    case (Started out status)
    with r e b ok x show ?thesis
      by (auto simp: SecurityAudit_run_aide_def audit_wf_def res_iff Let_def split: option.splits if_splits
          dest: add_lines_ok [OF M] add_line_ok [OF M])
  qed
qed

lemma rmdir_ok: "SecurityAudit_rmdir S d a files = Inr (r, a', files') \<Longrightarrow> audit_wf a \<Longrightarrow> audit_wf a'"
  by (auto simp: SecurityAudit_rmdir_def audit_wf_def split: tmp_dir.splits prod.splits)

lemma mk_working_dir_ok: "SecurityAudit_mk_working_dir S d a = (r, a') \<Longrightarrow> audit_wf a \<Longrightarrow> audit_wf a'"
  by (auto simp: SecurityAudit_mk_working_dir_def audit_wf_def split: option.splits if_splits)

lemma audit_functions_ok:
  assumes M: "\<forall>n. realloc_ok (mcore S) n" and f: "audit_functions k S E io f = Some g"
    and r: "g a h = Inr (a', h')" and a: "audit_wf a"
  shows "audit_wf a'"
proof -
  consider "g = mk_working_dir_skel S E io" | "g = rmdir_skel S E io" | "g = get_md5_skel S E io" | "g = run_aide_skel k S E io"
    | "g = text_skel (SecurityAudit_get_new_xuids S) E io" | "g = text_skel (SecurityAudit_get_new_dot_files S) E io"
    | "g = text_skel (SecurityAudit_get_passwordless S) E io" | "g = get_uid_zeros_skel S E io"
    using f by (auto simp: audit_functions_def split: if_splits)
  then show ?thesis
  proof cases
    case 1
    obtain d h1 where d: "get_args 1 E h = Inr (d, h1)" using r 1 by (auto simp: mk_working_dir_skel_def res_iff)
    obtain ret a1 where m: "SecurityAudit_mk_working_dir S (d ! 0) a = (ret, a1)" by fastforce
    from 1 r d m have "a' = a1" by (auto simp: mk_working_dir_skel_def audit_reply_def res_iff)
    with mk_working_dir_ok [OF m a] show ?thesis by simp
  next
    case 2
    with r a show ?thesis by (auto simp: rmdir_skel_def audit_reply_def res_iff dest: rmdir_ok)
  next
    case 3
    with r a show ?thesis by (auto simp: get_md5_skel_def audit_reply_def res_iff case_prod_beta)
  next
    case 4
    with r a show ?thesis by (auto simp: run_aide_skel_def audit_reply_def res_iff dest: run_aide_ok [OF M])
  next
    case 5
    with r a show ?thesis
      by (auto simp: text_skel_def audit_reply_def res_iff SecurityAudit_get_new_xuids_def dest: db_diff_ok [OF M])
  next
    case 6
    with r a show ?thesis
      by (auto simp: text_skel_def audit_reply_def res_iff SecurityAudit_get_new_dot_files_def dest: db_diff_ok [OF M])
  next
    case 7
    with r a show ?thesis by (auto simp: text_skel_def audit_reply_def res_iff dest: passwordless_ok [OF M])
  next
    case 8
    with r a show ?thesis by (auto simp: get_uid_zeros_skel_def audit_reply_def res_iff)
  qed
qed

lemma audit_request_ok:
  assumes M: "\<forall>n. realloc_ok (mcore S) n" and r: "suva_get_request (audit_suvlet k S E io) E io K a h = Inr (Running a' h')"
    and a: "audit_wf a"
  shows "audit_wf a'"
proof -
  have "call_function (audit_suvlet k S E io) E io K f a h1 = Inr (a', h2) \<Longrightarrow> audit_wf a'" for f h1 h2
    using a audit_functions_ok [OF M] by (auto simp: call_function_def audit_suvlet_def res_iff split: if_splits option.splits)
  moreover have "throw_exits (audit_suvlet k S E io)" by (simp add: audit_suvlet_def)
  ultimately show ?thesis using r
    by (auto simp: suva_get_request_def exit_suvlet_def res_iff split: if_splits option.splits)
qed

text \<open>C12: 
  In every state it reaches, the two buffers of the suvlet are blocks of the size that is recorded for them, with a position
  inside, and as long as it runs the name of its directory is not one that was freed. Memory is taken to be there; when it runs out the size
  recorded is not that of the block.
\<close>

theorem audit_buffers_ok:
  assumes M: "\<forall>n. realloc_ok (mcore S) n" and start: "constructor (mcore S) = Inr (b, b2)"
    and r: "reachable (audit_suvlet k S E io) E io K \<lparr>buf = b, buf2 = b2, tmpDir = No_Dir\<rparr> h0 (Running a h)"
  shows "buf_ok (buf a) \<and> buf_ok (buf2 a) \<and> tmpDir a \<noteq> Freed_Dir"
proof -
  have "audit_wf \<lparr>buf = b, buf2 = b2, tmpDir = No_Dir\<rparr>" using constructor_ok [OF M start] by (simp add: audit_wf_def)
  with r have "audit_wf a" by (rule reachable_invariant) (rule audit_request_ok [OF M])
  then show ?thesis by (simp add: audit_wf_def)
qed

end
