(* ===== verification/Device_Info.thy ===== *)
theory Device_Info
  imports Suvlet C_Text
begin

text \<open>
  The suvlet DeviceInfo (DeviceInfo.c and its receiver): answers read from \<open>/proc\<close> and from the output of \<open>df\<close>,
  words cut out by \<open>sscanf\<close> and put together in the static array \<open>payload\<close>, which is its state.
\<close>

section \<open>Input\<close>

text \<open>
  \<open>df\<close> is the output of \<open>/bin/df | grep ^/dev\<close>, when \<open>popen\<close> works; \<open>stack\<close> is what an array on the stack holds before it
  is written; \<open>strtod\<close> converts to the eight bytes of a \<open>double\<close>.
\<close>

record device =
  dkern :: kernel
  df :: "byte list option"
  stack :: "byte list"
  strtod :: "byte list \<Rightarrow> byte list option"

definition XMLSIZE :: nat where [simp]: "XMLSIZE = 4000"
definition BUFSIZE :: nat where [simp]: "BUFSIZE = 100"

definition open_proc :: "device \<Rightarrow> files \<Rightarrow> string \<Rightarrow> byte list option" where
  "open_proc D files name =
     (case fopen (dkern D) files (Some (str name)) (str ''r'') of
        (None, _) \<Rightarrow> None
      | (Some f, _) \<Rightarrow> map_option f_bytes (files (s_path f)))"

text \<open>\<open>fgets(msg, BUFSIZE, f)\<close>, its result not looked at, \<open>k\<close> times: at the end of the file \<open>msg\<close> stays as it is.\<close>

fun nth_msg :: "nat \<Rightarrow> byte list \<Rightarrow> nat \<Rightarrow> byte list \<Rightarrow> byte list" where
  "nth_msg 0 content pos msg = msg"
| "nth_msg (Suc k) content pos msg =
     (case fgets BUFSIZE content pos of
        None \<Rightarrow> nth_msg k content pos msg
      | Some (l, pos') \<Rightarrow> nth_msg k content pos' (text_upto0 l))"

section \<open>Numbers\<close>

definition DeviceInfo_Processes :: "device \<Rightarrow> files \<Rightarrow> c_int res" where
  "DeviceInfo_Processes D files =
     (case open_proc D files ''/proc/loadavg'' of
        None \<Rightarrow> Inr (-1)
      | Some content \<Rightarrow>
          bind_res (scan ([Skip_Word, White, Skip_Word, White, Skip_Word, White, Skip_Num] @ lits ''/'' @ [Num])
                      (nth_msg 1 content 0 (stack D))) (\<lambda>r.
            Inr (case r of [Number processes] \<Rightarrow> word_of_int processes | _ \<Rightarrow> -1)))"

fun find_temperature :: "byte list list \<Rightarrow> c_int res" where
  "find_temperature [] = Inr (-1)"
| "find_temperature (l # ls) =
     bind_res (scan (lits ''temperature     : '' @ [Num]) (text_upto0 l)) (\<lambda>r.
       case r of [Number temperature] \<Rightarrow> Inr (word_of_int temperature) | _ \<Rightarrow> find_temperature ls)"

definition DeviceInfo_CPUTemp :: "device \<Rightarrow> files \<Rightarrow> c_int res" where
  "DeviceInfo_CPUTemp D files =
     (case open_proc D files ''/proc/cpuinfo'' of
        None \<Rightarrow> Inr (-1)
      | Some content \<Rightarrow> find_temperature (lines_of BUFSIZE content))"

text \<open>The eight bytes of the result, -1 as a \<open>double\<close> when there is none.\<close>

definition double_minus_1 :: "byte list" where
  "double_minus_1 = [0, 0, 0, 0, 0, 0, 0xF0, 0xBF]"

definition DeviceInfo_Uptime :: "device \<Rightarrow> files \<Rightarrow> byte list" where
  "DeviceInfo_Uptime D files =
     (case open_proc D files ''/proc/uptime'' of
        None \<Rightarrow> double_minus_1
      | Some content \<Rightarrow>
          (case strtod D (nth_msg 1 content 0 (stack D)) of None \<Rightarrow> double_minus_1 | Some d \<Rightarrow> d))"

section \<open>Texts\<close>

text \<open>The result is what the function returns and the new payload.\<close>

type_synonym answer = "(byte list \<times> byte list) res"

definition three_words :: "byte list list \<Rightarrow> answer" where
  "three_words ws =
     bind_res (strcat_all XMLSIZE [] [ws ! 0, str '','', ws ! 1, str '','', ws ! 2]) (\<lambda>payload. Inr (payload, payload))"

definition DeviceInfo_LoadAverage :: "device \<Rightarrow> files \<Rightarrow> byte list \<Rightarrow> answer" where
  "DeviceInfo_LoadAverage D files payload =
     (case open_proc D files ''/proc/loadavg'' of
        None \<Rightarrow> Inr (str ''error'', payload)
      | Some content \<Rightarrow>
          bind_res (scan [Word 10, White, Word 10, White, Word 10, White] (nth_msg 1 content 0 (stack D))) (\<lambda>r.
            case r of
              [Text min1, Text min5, Text min15] \<Rightarrow> three_words [min1, min5, min15]
            | _ \<Rightarrow> Inr (str ''error'', payload)))"

text \<open>The second and the third line of \<open>/proc/meminfo\<close>.\<close>

definition usage :: "nat \<Rightarrow> directive list \<Rightarrow> device \<Rightarrow> files \<Rightarrow> byte list \<Rightarrow> answer" where
  "usage k fmt D files payload =
     (case open_proc D files ''/proc/meminfo'' of
        None \<Rightarrow> Inr (str ''error'', payload)
      | Some content \<Rightarrow>
          bind_res (scan fmt (nth_msg k content 0 (stack D))) (\<lambda>r.
            case r of
              [Text totals, Text used, Text unused] \<Rightarrow> three_words [totals, used, unused]
            | _ \<Rightarrow> Inr (str ''error'', payload)))"

definition DeviceInfo_MemoryUsage :: "device \<Rightarrow> files \<Rightarrow> byte list \<Rightarrow> answer" where
  "DeviceInfo_MemoryUsage =
     usage 2 [Skip_Word, White, Word 30, White, Word 30, White, Word 30, White, Skip_Word, White, Skip_Word, White, Skip_Word]"

definition DeviceInfo_SwapUsage :: "device \<Rightarrow> files \<Rightarrow> byte list \<Rightarrow> answer" where
  "DeviceInfo_SwapUsage = usage 3 [Skip_Word, White, Word 30, White, Word 30, White, Word 30]"

section \<open>Disks\<close>

text \<open>A \<open>long\<close> has 64 bits; a sum wraps. \<open>None\<close>: a line that has not three numbers.\<close>

fun add_disks :: "byte list list \<Rightarrow> 64 word \<Rightarrow> 64 word \<Rightarrow> 64 word \<Rightarrow> (64 word \<times> 64 word \<times> 64 word) option res" where
  "add_disks [] totals used unused = Inr (Some (totals, used, unused))"
| "add_disks (l # ls) totals used unused =
     bind_res (scan [Skip_Word, White, Num, White, Num, White, Num, White, Skip_Word, White, Skip_Word] (text_upto0 l)) (\<lambda>r.
       case r of
         [Number t, Number u, Number f] \<Rightarrow> add_disks ls (totals + word_of_int t) (used + word_of_int u) (unused + word_of_int f)
       | _ \<Rightarrow> Inr None)"

definition DeviceInfo_DiskSpaceTotal :: "device \<Rightarrow> byte list \<Rightarrow> answer" where
  "DeviceInfo_DiskSpaceTotal D payload =
     (case df D of
        None \<Rightarrow> Inr (str ''error'', payload)
      | Some out \<Rightarrow>
          bind_res (add_disks (drop 1 (lines_of BUFSIZE out)) 0 0 0) (\<lambda>sums.
            case sums of
              None \<Rightarrow> Inr (str ''error'', payload)
            | Some (totals, used, unused) \<Rightarrow>
                three_words [print_int (sint totals), print_int (sint used), print_int (sint unused)]))"

definition tagged :: "string \<Rightarrow> byte list \<Rightarrow> byte list list" where
  "tagged tag s = [str ''<'' @ str tag @ str ''>'', s, str ''</'' @ str tag @ str ''>'' @ [10]]"

definition disk_texts :: "byte list \<Rightarrow> byte list \<Rightarrow> byte list \<Rightarrow> byte list \<Rightarrow> byte list \<Rightarrow> byte list \<Rightarrow> byte list list" where
  "disk_texts filesystem blocks used available percentused mount =
     tagged ''Filesystem'' filesystem @ tagged ''Blocks'' blocks @ tagged ''Used'' used @ tagged ''Available'' available @
     tagged ''Use'' percentused @ tagged ''Mounted_on'' mount @ [str ''</Disk>'' @ [10]]"

text \<open>Whether all lines had their six words, and the payload.\<close>

fun disk_lines :: "byte list list \<Rightarrow> byte list \<Rightarrow> (bool \<times> byte list) res" where
  "disk_lines [] payload = Inr (True, payload)"
| "disk_lines (l # ls) payload =
     bind_res (strcat XMLSIZE payload (str ''<Disk>'' @ [10])) (\<lambda>p1.
     bind_res (scan [Word 200, White, Word 30, White, Word 30, White, Word 30, White, Word 30, White, Word 200]
                 (text_upto0 l)) (\<lambda>r.
       case r of
         [Text filesystem, Text blocks, Text used, Text available, Text percentused, Text mount] \<Rightarrow>
           bind_res (strcat_all XMLSIZE p1 (disk_texts filesystem blocks used available percentused mount)) (disk_lines ls)
       | _ \<Rightarrow> Inr (False, p1)))"

definition DeviceInfo_DiskSpaceTable :: "device \<Rightarrow> byte list \<Rightarrow> answer" where
  "DeviceInfo_DiskSpaceTable D payload =
     (case df D of
        None \<Rightarrow> Inr (str ''error'', payload)
      | Some out \<Rightarrow>
          bind_res (strcat_all XMLSIZE [] [str ''<?xml version='' @ [39] @ str ''1.0'' @ [39] @ str '' ?>'' @ [10], str ''<Disks>'' @ [10]]) (\<lambda>p0.
          bind_res (disk_lines (lines_of BUFSIZE out) p0) (\<lambda>(complete, p1).
            if \<not> complete then Inr (str ''error'', p1)
            else bind_res (strcat XMLSIZE p1 (str ''</Disks>'' @ [10])) (\<lambda>p2. Inr (p2, p2)))))"

fun percent_lines :: "byte list list \<Rightarrow> byte list \<Rightarrow> (bool \<times> byte list) res" where
  "percent_lines [] payload = Inr (True, payload)"
| "percent_lines (l # ls) payload =
     bind_res (scan [Skip_Word, White, Skip_Word, White, Skip_Word, White, Skip_Word, White, Word 10, White, Word 100]
                 (text_upto0 l)) (\<lambda>r.
       case r of
         [Text percentused, Text mount] \<Rightarrow>
           bind_res (strcat_all XMLSIZE payload [mount, str '','', percentused, str '','']) (percent_lines ls)
       | _ \<Rightarrow> Inr (False, payload))"

definition DeviceInfo_DiskSpacePercentages :: "device \<Rightarrow> byte list \<Rightarrow> answer" where
  "DeviceInfo_DiskSpacePercentages D payload =
     (case df D of
        None \<Rightarrow> Inr (str ''error'', payload)
      | Some out \<Rightarrow>
          bind_res (percent_lines (lines_of BUFSIZE out) []) (\<lambda>(complete, p).
            Inr (if complete then p else str ''sscanf error'', p)))"

section \<open>The receiver\<close>

definition int_skel :: "(files \<Rightarrow> c_int res) \<Rightarrow> libc \<Rightarrow> 'w scl_io \<Rightarrow> byte list \<Rightarrow> 'w host \<Rightarrow> (byte list \<times> 'w host) res" where
  "int_skel f E io payload h =
     bind_res (f (fs h)) (\<lambda>n. bind_res (skel_reply E io (c_int_obj n, SCL_INT, 1) h) (\<lambda>h'. Inr (payload, h')))"

definition double_skel :: "(files \<Rightarrow> byte list) \<Rightarrow> libc \<Rightarrow> 'w scl_io \<Rightarrow> byte list \<Rightarrow> 'w host \<Rightarrow> (byte list \<times> 'w host) res" where
  "double_skel f E io payload h =
     bind_res (skel_reply E io (Block (f (fs h)), SCL_DOUB, 1) h) (\<lambda>h'. Inr (payload, h'))"

definition answer_skel ::
  "(files \<Rightarrow> byte list \<Rightarrow> answer) \<Rightarrow> libc \<Rightarrow> 'w scl_io \<Rightarrow> byte list \<Rightarrow> 'w host \<Rightarrow> (byte list \<times> 'w host) res" where
  "answer_skel f E io payload h =
     bind_res (f (fs h) payload) (\<lambda>(t, payload').
     bind_res (skel_reply E io (text_item t) h) (\<lambda>h'. Inr (payload', h')))"

definition device_functions ::
  "device \<Rightarrow> libc \<Rightarrow> 'w scl_io \<Rightarrow> byte list \<Rightarrow> (byte list \<Rightarrow> 'w host \<Rightarrow> (byte list \<times> 'w host) res) option" where
  "device_functions D E io f =
     (if f = str ''Processes'' then Some (int_skel (DeviceInfo_Processes D) E io)
      else if f = str ''CPUTemp'' then Some (int_skel (DeviceInfo_CPUTemp D) E io)
      else if f = str ''Uptime'' then Some (double_skel (DeviceInfo_Uptime D) E io)
      else if f = str ''LoadAverage'' then Some (answer_skel (DeviceInfo_LoadAverage D) E io)
      else if f = str ''MemoryUsage'' then Some (answer_skel (DeviceInfo_MemoryUsage D) E io)
      else if f = str ''SwapUsage'' then Some (answer_skel (DeviceInfo_SwapUsage D) E io)
      else if f = str ''DiskSpaceTotal'' then Some (answer_skel (\<lambda>_. DeviceInfo_DiskSpaceTotal D) E io)
      else if f = str ''DiskSpaceTable'' then Some (answer_skel (\<lambda>_. DeviceInfo_DiskSpaceTable D) E io)
      else if f = str ''DiskSpacePercentages'' then Some (answer_skel (\<lambda>_. DeviceInfo_DiskSpacePercentages D) E io)
      else None)"

definition device_suvlet :: "device \<Rightarrow> libc \<Rightarrow> 'w scl_io \<Rightarrow> (byte list, 'w) suvlet" where
  "device_suvlet D E io =
     \<lparr>func_table = device_functions D E io, has_inlines = True, throw_exits = True,
      deconstructor = (\<lambda>p files. Inr (p, files)), at_exit = (\<lambda>p files. Inr files)\<rparr>"

end
