(* ===== verification/Software.thy ===== *)
theory Software
  imports Suvlet C_Text
begin

text \<open>
  The suvlet Software (Software.c and its receiver) and the program software-wrapper.c it runs: a list of the packages that
  are installed, and the installation of others. Its state is the static array \<open>payload\<close>.
\<close>

section \<open>Input\<close>

text \<open>
  \<open>popen\<close> is what a command of the shell prints and does to the files, \<open>None\<close> when it cannot be run. \<open>stack_line\<close> and \<open>stack_line1\<close> are what the
  arrays of these names hold before they are written, the second as a text.
\<close>

record packages =
  pkern :: kernel
  popen :: "byte list \<Rightarrow> files \<Rightarrow> (byte list \<times> files) option"
  thedate :: "byte list"
  stack_line :: "byte list"
  stack_line1 :: "byte list"

definition XML_SIZE :: nat where [simp]: "XML_SIZE = 92160"
definition BUF_SIZE :: nat where [simp]: "BUF_SIZE = 500"

text \<open>The lines of a file added to a text of at most \<open>n - 1\<close> bytes.\<close>

fun cat_lines :: "nat \<Rightarrow> byte list list \<Rightarrow> byte list \<Rightarrow> byte list res" where
  "cat_lines n [] payload = Inr payload"
| "cat_lines n (l # ls) payload = bind_res (strcat n payload (text_upto0 l)) (cat_lines n ls)"

text \<open>The result is what the function returns, and the payload.\<close>

definition Software_FetchPackageList :: "packages \<Rightarrow> byte list \<Rightarrow> files \<Rightarrow> (byte list \<times> byte list \<times> files) res" where
  "Software_FetchPackageList P payload files =
     (case fopen (pkern P) files (Some (str ''packages.xml'')) (str ''r'') of
        (None, _) \<Rightarrow> Inr (str ''error'', [], files)
      | (Some f, _) \<Rightarrow>
          bind_res (cat_lines XML_SIZE
              (lines_of BUF_SIZE (case files (s_path f) of None \<Rightarrow> [] | Some g \<Rightarrow> f_bytes g)) []) (\<lambda>p. Inr (p, p, files)))"

section \<open>The list of packages\<close>

text \<open>\<open>fprintf\<close> to the new list; whether it was written is not looked at.\<close>

definition print_to :: "packages \<Rightarrow> byte list list \<Rightarrow> stream \<times> files \<Rightarrow> stream \<times> files" where
  "print_to P ts = (\<lambda>(s, files). let (_, s', files') = fwrite_item (pkern P) files s (concat ts) in (s', files'))"

fun print_all :: "packages \<Rightarrow> byte list list list \<Rightarrow> stream \<times> files \<Rightarrow> stream \<times> files" where
  "print_all P [] out = out"
| "print_all P (ts # tss) out = print_all P tss (print_to P ts out)"

definition element :: "string \<Rightarrow> byte list \<Rightarrow> byte list list" where
  "element tag s = [str ''   <'' @ str tag @ str ''>'', s, str ''</'' @ str tag @ str ''>'' @ [10]]"

definition open_package :: "byte list list" where "open_package = [str ''  <Package>'' @ [10]]"
definition close_package :: "byte list list" where "close_package = [str ''  </Package>'' @ [10]]"

definition xml_head :: "byte list \<Rightarrow> byte list list list" where
  "xml_head date =
     [[str ''<?xml version='' @ [39] @ str ''1.0'' @ [39] @ str '' ?>'' @ [10]], [str ''<Software>'' @ [10]],
      [str '' <Date>'', date, str ''</Date>'' @ [10]], [str '' <Packages>'' @ [10]]]"

definition query :: "byte list" where
  "query = [34] @ str ''%{NAME}'' @ [9] @ str ''%{VERSION}'' @ [9] @ str ''%{RELEASE}'' @ [9] @ str ''%{SIZE}'' @ [9] @
     str ''%{SUMMARY}'' @ [10, 34, 32]"

definition info_format :: "directive list" where
  "info_format = [Word 100, White, Word 100, White, Word 20, White, Word 20, White, Rest 500] @ lits ''s''"

text \<open>
  The packages of rpm: \<open>line1\<close> keeps the information of the package before when there is none of this one. The result says
  whether the loop went through. A query that cannot be run is closed all the same.
\<close>

fun rpm_packages ::
  "packages \<Rightarrow> byte list list \<Rightarrow> byte list \<Rightarrow> stream \<times> files \<Rightarrow> (bool \<times> (stream \<times> files)) res" where
  "rpm_packages P [] line1 out = Inr (True, out)"
| "rpm_packages P (l # ls) line1 out =
     bind_res (strcat_all 200 [] [str ''/bin/rpm -q --queryformat '', query, text_upto0 l]) (\<lambda>command.
       case popen P command (snd out) of
         None \<Rightarrow> Inl Null_Deref
       | Some (info, files') \<Rightarrow>
           let line1' = (case fgets BUF_SIZE info 0 of None \<Rightarrow> line1 | Some (i, _) \<Rightarrow> text_upto0 i)
           in bind_res (scan info_format line1') (\<lambda>r.
                case r of
                  [Text name, Text version, Text release, Text pkg_size, Text summary] \<Rightarrow>
                    rpm_packages P ls line1' (print_all P
                      [open_package, element ''Name'' name, element ''Version'' version, element ''Release'' release,
                       element ''Size'' pkg_size, element ''Summary'' summary, close_package] (fst out, files'))
                | _ \<Rightarrow> Inr (False, fst out, files')))"

text \<open>
  The names of Cobalt are taken apart in the array \<open>line\<close> itself, which keeps what stood behind a shorter line. \<open>rindex\<close>
  gives a position in the text, \<open>text_at\<close> the text from a position on.
\<close>

definition rindex :: "byte \<Rightarrow> byte list \<Rightarrow> nat option" where
  "rindex c s = (if c \<in> set s then Some (length s - 1 - length (takeWhile (\<lambda>b. b \<noteq> c) (rev s))) else None)"

definition text_at :: "byte list \<Rightarrow> nat \<Rightarrow> byte list res" where
  "text_at line i = (if i < length line then c_str (drop i line) else Inl Out_Of_Bounds)"

definition cut_at :: "byte list \<Rightarrow> nat \<Rightarrow> byte list res" where
  "cut_at line i = put_byte line i 0"

text \<open>\<open>while (line[count] < 'a') count--;\<close> with a signed \<open>char\<close>.\<close>

fun last_lower :: "byte list \<Rightarrow> nat \<Rightarrow> nat res" where
  "last_lower line count =
     bind_res (get_byte line count) (\<lambda>b.
       if \<not> b <s of_char CHR ''a'' then Inr count
       else case count of 0 \<Rightarrow> Inl Out_Of_Bounds | Suc n \<Rightarrow> last_lower line n)"

declare last_lower.simps [simp del]

text \<open>The release: behind the last dash of the name without its suffix of eight bytes.\<close>

definition cobalt_release :: "byte list \<Rightarrow> (byte list \<times> byte list) res" where
  "cobalt_release line =
     bind_res (text_at line 0) (\<lambda>s.
       if length s < 8 then Inl Out_Of_Bounds
       else bind_res (cut_at line (length s - 8)) (\<lambda>line1.
            bind_res (text_at line1 0) (\<lambda>s1.
              case rindex (of_char CHR ''-'') s1 of
                None \<Rightarrow> Inl Null_Deref
              | Some i \<Rightarrow>
                  bind_res (fits 20 (drop i s1)) (\<lambda>release.
                  bind_res (cut_at line1 i) (\<lambda>line2. Inr (release, line2))))))"

text \<open>A last part of one character is left out, the version is what begins with no letter.\<close>

definition cobalt_version :: "byte list \<Rightarrow> byte list \<Rightarrow> (byte list \<times> byte list \<times> byte list) res" where
  "cobalt_version release line =
     bind_res (text_at line 0) (\<lambda>s.
     bind_res (case rindex (of_char CHR ''-'') s of
                 None \<Rightarrow> Inr line
               | Some i \<Rightarrow> if length s - i \<le> 2 then cut_at line i else Inr line) (\<lambda>line1.
     bind_res (text_at line1 0) (\<lambda>s1.
       let version = (case rindex (of_char CHR ''-'') s1 of
             None \<Rightarrow> None
           | Some i \<Rightarrow> if (drop i s1 @ [0]) ! 1 <s of_char CHR ''A'' then Some (drop i s1) else None)
       in case version of
            Some v \<Rightarrow> bind_res (fits 100 v) (\<lambda>v. Inr (v, release, line1))
          | None \<Rightarrow> Inr (release, str ''-'', line1))))"

text \<open>The name ends at its last lower-case letter, and, if there is a dot in it, at its last dash.\<close>

definition cobalt_name :: "byte list \<Rightarrow> byte list res" where
  "cobalt_name line =
     bind_res (text_at line 0) (\<lambda>s.
     bind_res (last_lower line (length s)) (\<lambda>count.
     bind_res (cut_at line (count + 1)) (\<lambda>line1.
     bind_res (text_at line1 0) (\<lambda>s1.
     bind_res (if of_char CHR ''.'' \<in> set s1
               then case rindex (of_char CHR ''-'') s1 of None \<Rightarrow> Inr line1 | Some i \<Rightarrow> cut_at line1 i
               else Inr line1) (\<lambda>line2. Inr line2)))))"

fun cobalt_packages :: "packages \<Rightarrow> byte list list \<Rightarrow> byte list \<Rightarrow> stream \<times> files \<Rightarrow> (stream \<times> files) res" where
  "cobalt_packages P [] line out = Inr out"
| "cobalt_packages P (l # ls) line out =
     bind_res (cobalt_release (l @ [0] @ drop (length l + 1) line)) (\<lambda>(release, line1).
     bind_res (cobalt_version release line1) (\<lambda>(version, release, line2).
     bind_res (cobalt_name line2) (\<lambda>line3.
     bind_res (text_at line3 16) (\<lambda>name.
       cobalt_packages P ls line3 (print_all P
         [open_package, element ''Name'' name, element ''Version'' (drop 1 version), element ''Release'' (drop 1 release),
          close_package] out)))))"

definition rename_file :: "byte list \<Rightarrow> byte list \<Rightarrow> files \<Rightarrow> files" where
  "rename_file from to files = (case files from of None \<Rightarrow> files | Some f \<Rightarrow> files(from := None, to := Some f))"

text \<open>
  For a type of device of neither range no list is opened, and the stream that is closed was never set.
\<close>

definition Software_CreatePackageList :: "packages \<Rightarrow> c_int \<Rightarrow> files \<Rightarrow> (c_int \<times> files) res" where
  "Software_CreatePackageList P devicetype files =
     (case fopen (pkern P) files (Some (str ''packages.xml.new'')) (str ''w'') of
        (None, files1) \<Rightarrow> Inr (-1, files1)
      | (Some s, files1) \<Rightarrow>
          let out = print_all P (xml_head (thedate P)) (s, files1);
              finish = (\<lambda>out. let (_, files2) = print_all P [[str '' </Packages>'' @ [10]], [str ''</Software>'']] out
                             in Inr (0, rename_file (str ''packages.xml.new'') (str ''packages.xml'') files2))
          in if 1000 \<le>s devicetype \<and> devicetype <s 2000
             then (case popen P (str ''/bin/rpm -qa'') (snd out) of
                     None \<Rightarrow> Inr (-1, snd out)
                   | Some (lst, files2) \<Rightarrow>
                       bind_res (rpm_packages P (lines_of BUF_SIZE lst) (stack_line1 P) (fst out, files2)) (\<lambda>(complete, out1).
                         if complete then finish out1 else Inr (-1, snd out1)))
             else if 2000 \<le>s devicetype \<and> devicetype <s 3000
             then (case popen P (str ''/bin/ls /var/lib/cobalt/*.md5lst'') (snd out) of
                     None \<Rightarrow> Inr (-1, snd out)
                   | Some (lst, files2) \<Rightarrow>
                       bind_res (cobalt_packages P (lines_of BUF_SIZE lst) (stack_line P) (fst out, files2)) finish)
             else Inl Dangling)"

section \<open>Installation\<close>

definition Software_InstallRPM :: "byte list" where
  "Software_InstallRPM = str ''not implemented''"

text \<open>The output of the wrapper comes behind what the payload holds; \<open>n\<close> is the room for a line.\<close>

definition run_wrapper :: "nat \<Rightarrow> packages \<Rightarrow> byte list \<Rightarrow> byte list \<Rightarrow> files \<Rightarrow> (byte list \<times> byte list \<times> files) res" where
  "run_wrapper n P command payload files =
     (case popen P command files of
        None \<Rightarrow> Inr (str ''error: wrapper did not run'', payload, files)
      | Some (out, files') \<Rightarrow> bind_res (cat_lines XML_SIZE (lines_of n out) payload) (\<lambda>p. Inr (p, p, files')))"

definition with_name :: "string \<Rightarrow> byte list option \<Rightarrow> byte list res" where
  "with_name s name = (case name of None \<Rightarrow> Inl Null_Deref | Some f \<Rightarrow> strcat_all 200 [] [str s, f])"

definition Software_InstallPKG ::
  "packages \<Rightarrow> byte list option \<Rightarrow> byte list \<Rightarrow> files \<Rightarrow> (byte list \<times> byte list \<times> files) res" where
  "Software_InstallPKG P filename payload files =
     bind_res (with_name ''./software-wrapper -i '' filename) (\<lambda>command. run_wrapper 2000 P command payload files)"

definition Software_UnInstallPKG ::
  "packages \<Rightarrow> byte list option \<Rightarrow> byte list \<Rightarrow> files \<Rightarrow> (byte list \<times> byte list \<times> files) res" where
  "Software_UnInstallPKG P filename payload files =
     bind_res (with_name ''./software-wrapper -e '' filename) (\<lambda>command. run_wrapper 2000 P command payload files)"

definition Software_ResetPKGDir :: "packages \<Rightarrow> byte list \<Rightarrow> files \<Rightarrow> (byte list \<times> byte list \<times> files) res" where
  "Software_ResetPKGDir P payload files = run_wrapper 200 P (str ''./software-wrapper -r none'') payload files"

section \<open>The receiver\<close>

definition payload_skel ::
  "(byte list \<Rightarrow> files \<Rightarrow> (byte list \<times> byte list \<times> files) res) \<Rightarrow> libc \<Rightarrow> 'w scl_io \<Rightarrow> byte list \<Rightarrow> 'w host \<Rightarrow>
   (byte list \<times> 'w host) res" where
  "payload_skel f E io payload h =
     bind_res (f payload (fs h)) (\<lambda>(t, payload', files').
     bind_res (skel_reply E io (text_item t) (h\<lparr>fs := files'\<rparr>)) (\<lambda>h'. Inr (payload', h')))"

definition filename_skel ::
  "(byte list option \<Rightarrow> byte list \<Rightarrow> files \<Rightarrow> (byte list \<times> byte list \<times> files) res) \<Rightarrow> libc \<Rightarrow> 'w scl_io \<Rightarrow> byte list \<Rightarrow> 'w host \<Rightarrow>
   (byte list \<times> 'w host) res" where
  "filename_skel f E io payload h =
     bind_res (get_args 1 E h) (\<lambda>(args, h1). payload_skel (f (args ! 0)) E io payload h1)"

definition create_skel :: "packages \<Rightarrow> libc \<Rightarrow> 'w scl_io \<Rightarrow> byte list \<Rightarrow> 'w host \<Rightarrow> (byte list \<times> 'w host) res" where
  "create_skel P E io payload h =
     bind_res (get_int E (hscl h)) (\<lambda>(devicetype, st).
     bind_res (Software_CreatePackageList P devicetype (fs h)) (\<lambda>(retval, files').
     bind_res (skel_reply E io (c_int_obj retval, SCL_INT, 1) (h\<lparr>hscl := st, fs := files'\<rparr>)) (\<lambda>h'. Inr (payload, h'))))"

definition software_functions ::
  "packages \<Rightarrow> libc \<Rightarrow> 'w scl_io \<Rightarrow> byte list \<Rightarrow> (byte list \<Rightarrow> 'w host \<Rightarrow> (byte list \<times> 'w host) res) option" where
  "software_functions P E io f =
     (if f = str ''CreatePackageList'' then Some (create_skel P E io)
      else if f = str ''FetchPackageList'' then Some (payload_skel (Software_FetchPackageList P) E io)
      else if f = str ''InstallRPM'' then Some (filename_skel (\<lambda>_ p files. Inr (Software_InstallRPM, p, files)) E io)
      else if f = str ''InstallPKG'' then Some (filename_skel (Software_InstallPKG P) E io)
      else if f = str ''UnInstallPKG'' then Some (filename_skel (Software_UnInstallPKG P) E io)
      else if f = str ''ResetPKGDir'' then Some (payload_skel (Software_ResetPKGDir P) E io)
      else None)"

definition software_suvlet :: "packages \<Rightarrow> libc \<Rightarrow> 'w scl_io \<Rightarrow> (byte list, 'w) suvlet" where
  "software_suvlet P E io =
     \<lparr>func_table = software_functions P E io, has_inlines = True, throw_exits = True,
      deconstructor = (\<lambda>p files. Inr (p, files)), at_exit = (\<lambda>p files. Inr files)\<rparr>"

section \<open>The wrapper\<close>

text \<open>software-wrapper.c: the characters \<open>^([-A-Za-z0-9._]+)$\<close> allows, and the end of the program with the command it runs as root.\<close>

definition plain_char :: "byte \<Rightarrow> bool" where
  "plain_char b \<longleftrightarrow> (65 \<le> b \<and> b \<le> 90) \<or> (97 \<le> b \<and> b \<le> 122) \<or> (48 \<le> b \<and> b \<le> 57) \<or> b \<in> {45, 46, 95}"

definition plain :: "byte list \<Rightarrow> bool" where
  "plain s \<longleftrightarrow> s \<noteq> [] \<and> list_all plain_char s"

record wrapper_run =
  exit_code :: c_int
  printed :: "byte list"
  system_cmd :: "byte list option"

definition sprintf_cmd :: "string \<Rightarrow> byte list \<Rightarrow> byte list res" where
  "sprintf_cmd s arg = fits 200 (str s @ arg)"

definition software_wrapper :: "byte list list \<Rightarrow> wrapper_run res" where
  "software_wrapper args =
     (let refuse = (\<lambda>code msg. Inr \<lparr>exit_code = code, printed = str msg @ [10], system_cmd = None\<rparr>)
      in if length args \<noteq> 2 then refuse (-1) ''Incorrect number of arguments''
         else if \<not> plain (args ! 0) then refuse (-1) ''Invalid characters''
         else if \<not> plain (args ! 1) then refuse (-1) ''Invalid characters''
         else let run = (\<lambda>cmd. bind_res cmd (\<lambda>c.
                    Inr \<lparr>exit_code = 0, printed = str ''Running: '' @ c @ [10], system_cmd = Some c\<rparr>))
              in if take 2 (args ! 0) = str ''-e'' then run (sprintf_cmd ''/var/lib/cobalt/uninstallers/'' (args ! 1))
                 else if take 2 (args ! 0) = str ''-i''
                 then run (sprintf_cmd ''/usr/local/sbin/cobalt_upgrade /home/packages/'' (args ! 1))
                 else if take 2 (args ! 0) = str ''-r''
                 then run (sprintf_cmd ''/bin/chown admin.suvlet /home/packages;/bin/chmod 775 /home/packages'' [])
                 else refuse 1 ''Invalid flag'')"

end
