(* ===== verification/Software_Props.thy ===== *)
theory Software_Props
  imports Software
begin

text \<open>Properties of the suvlet Software and of its wrapper.\<close>

lemma strcat_all_outcome:
  "length s < n \<Longrightarrow> strcat_all n s ts = (if length s + length (concat ts) < n then Inr (s @ concat ts) else Inl Out_Of_Bounds)"
proof (induction ts arbitrary: s)
  case (Cons t ts)
  show ?case
  proof (cases "length (s @ t) < n")
    case True
    with Cons.IH [OF True] show ?thesis by (simp add: strcat_def fits_def add.assoc)
  qed (simp add: strcat_def fits_def)
qed simp

section \<open>Texts\<close>

text \<open>Lines without null bytes, whatever the room for a line, add up to the file.\<close>

lemma text_upto0_plain: "0 \<notin> set s \<Longrightarrow> text_upto0 s = s"
  by (auto simp: text_upto0_def takeWhile_eq_all_conv)

lemma cat_lines_outcome:
  "length payload < n \<Longrightarrow> \<forall>l \<in> set ls. 0 \<notin> set l \<Longrightarrow>
   cat_lines n ls payload = (if length payload + length (concat ls) < n then Inr (payload @ concat ls) else Inl Out_Of_Bounds)"
proof (induction ls arbitrary: payload)
  case (Cons l ls)
  show ?case
  proof (cases "length (payload @ l) < n")
    case True
    with Cons.IH [OF True] Cons.prems show ?thesis by (simp add: strcat_def fits_def text_upto0_plain add.assoc)
  next
    case False
    with Cons.prems show ?thesis by (simp add: strcat_def fits_def text_upto0_plain)
  qed
qed simp

lemma cat_lines_of:
  assumes "2 \<le> k" and "length payload < n" and "0 \<notin> set out"
  shows "cat_lines n (lines_of k out) payload =
    (if length payload + length out < n then Inr (payload @ out) else Inl Out_Of_Bounds)"
proof -
  have "\<forall>l \<in> set (lines_of k out). 0 \<notin> set l"
    using assms(3) concat_lines_of [OF assms(1), of out] set_concat [of "lines_of k out"] by auto
  with cat_lines_outcome [OF assms(2)] show ?thesis by (simp add: concat_lines_of [OF assms(1)])
qed

lemma run_wrapper_outcome:
  assumes "2 \<le> k" and "length payload < 92160" and "popen P c files = Some (out, files')" and "0 \<notin> set out"
  shows "run_wrapper k P c payload files =
    (if length payload + length out < 92160 then Inr (payload @ out, payload @ out, files') else Inl Out_Of_Bounds)"
  using assms cat_lines_of [OF assms(1,2,4)] by (simp add: run_wrapper_def)

lemma with_name_outcome:
  "with_name s (Some name) = (if length s + length name < 200 then Inr (str s @ name) else Inl Out_Of_Bounds)"
  by (simp add: with_name_def strcat_all_outcome str_def del: strcat_all.simps)

text \<open>C34: The answer of InstallPKG is the output of the wrapper behind everything the payload held before; when the payload of 92160
  bytes is full the next line is written behind it. A name of 178 bytes or more is written behind \<open>command\<close>.
\<close>

theorem install_appends:
  assumes "length payload < 92160" and "popen P (str ''./software-wrapper -i '' @ filename) files = Some (out, files')"
    and "0 \<notin> set out"
  shows "Software_InstallPKG P (Some filename) payload files =
    (if length filename < 178 \<and> length payload + length out < 92160
     then Inr (payload @ out, payload @ out, files') else Inl Out_Of_Bounds)"
  using run_wrapper_outcome [of 2000, OF _ assms]
  by (simp add: Software_InstallPKG_def with_name_outcome)

text \<open>Two installations that print \<open>ok\<close>: the second answer holds both. A long name does not get so far.\<close>

definition sample_packages :: packages where
  "sample_packages = \<lparr>pkern = \<lparr>denied = (\<lambda>_. False), full = (\<lambda>_ _. False), new_mode = 420, err_str = []\<rparr>,
     popen = (\<lambda>c files. Some ([111, 107, 10], files)), thedate = [], stack_line = replicate 500 0, stack_line1 = []\<rparr>"

lemma install_appends_witness:
  "Software_InstallPKG sample_packages (Some [97]) [111, 107, 10] Map.empty = Inr ([111, 107, 10, 111, 107, 10], [111, 107, 10, 111, 107, 10], Map.empty) \<and>
   Software_InstallPKG sample_packages (Some (replicate 178 97)) [] Map.empty = Inl Out_Of_Bounds"
  using install_appends [of "[111, 107, 10]" sample_packages "[97]" "Map.empty" "[111, 107, 10]" "Map.empty"]
    install_appends [of "[]" sample_packages "replicate 178 97" "Map.empty" "[111, 107, 10]" "Map.empty"]
  by (simp add: sample_packages_def)

section \<open>The wrapper\<close>

definition allowed_command :: "byte list \<Rightarrow> bool" where
  "allowed_command c \<longleftrightarrow>
     (\<exists>name. plain name \<and> (c = str ''/var/lib/cobalt/uninstallers/'' @ name \<or>
                             c = str ''/usr/local/sbin/cobalt_upgrade /home/packages/'' @ name)) \<or>
     c = str ''/bin/chown admin.suvlet /home/packages;/bin/chmod 775 /home/packages''"

text \<open>C35: The wrapper never runs a command with a name in it that has other characters than the pattern allows, so none the shell gives a
  meaning to; a name is written behind \<open>cmd\<close> exactly when the command has 200 bytes or more.
\<close>

theorem software_wrapper_runs:
  "case software_wrapper args of
     Inr r \<Rightarrow> (case system_cmd r of
                 None \<Rightarrow> exit_code r \<noteq> 0
               | Some c \<Rightarrow> exit_code r = 0 \<and> allowed_command c \<and> length c < 200)
   | Inl e \<Rightarrow> e = Out_Of_Bounds \<and> (\<exists>flag name. args = [flag, name] \<and> plain name \<and> 154 \<le> length name)"
proof (cases "length args = 2 \<and> plain (args ! 0) \<and> plain (args ! 1)")
  case False
  then show ?thesis by (auto simp: software_wrapper_def Let_def)
next
  case True
  then obtain flag name where args: "args = [flag, name]" by (auto simp: numeral_2_eq_2 length_Suc_conv)
  with True have name: "plain name" "plain flag" by simp_all
  have flags: "str ''-e'' \<noteq> str ''-i''" "str ''-e'' \<noteq> str ''-r''" "str ''-i'' \<noteq> str ''-r''" by (simp_all add: str_def)
  have lens: "length (str ''/var/lib/cobalt/uninstallers/'') = 29"
    "length (str ''/usr/local/sbin/cobalt_upgrade /home/packages/'') = 46"
    "length (str ''/bin/chown admin.suvlet /home/packages;/bin/chmod 775 /home/packages'') = 68" by (simp_all add: str_def)
  consider "take 2 flag = str ''-e''" | "take 2 flag = str ''-i''" | "take 2 flag = str ''-r''"
    | "take 2 flag \<notin> {str ''-e'', str ''-i'', str ''-r''}" by blast
  then show ?thesis
  proof cases
    case 1
    then show ?thesis
      using name by (auto simp: software_wrapper_def args sprintf_cmd_def fits_def allowed_command_def lens)
  next
    case 2
    then show ?thesis
      using name flags by (auto simp: software_wrapper_def args sprintf_cmd_def fits_def allowed_command_def lens)
  next
    case 3
    then show ?thesis
      using name flags by (auto simp: software_wrapper_def args sprintf_cmd_def fits_def allowed_command_def lens)
  next
    case 4
    then show ?thesis using name by (simp add: software_wrapper_def args)
  qed
qed

end
