(* ===== verification/Suvlet_Calls.thy ===== *)
theory Suvlet_Calls
  imports Suvlet_Props Bwmeter Security_Audit_Props Device_Info Software_Props
begin

text \<open>
  The suvlets' own functions over a connection: a call arrives, the function runs on its arguments, its value is sent.
\<close>

context scl_stream
begin

lemma suva_get_request_fcall:
  assumes i: "idle E T (hscl h)" and am: "ample E T (3 + k) (mem (hscl h))" and w: "ok (world (hscl h))"
    and inc: "incoming (world (hscl h)) = packet SCL_FCALL (payload (call_items name args)) @ more_in"
    and len: "length (payload (call_items name args)) < 2 ^ 31"
    and name: "take 7 (str name) \<noteq> str ''inline-'' \<or> \<not> has_inlines V" "str name \<noteq> []" "0 \<notin> set (str name)"
    and f: "func_table V (str name) = Some f"
  obtains st1 off where
    "suva_get_request V E io K a h = bind_res (f a (h\<lparr>hscl := st1\<rparr>)) (\<lambda>(a', h'). Inr (Running a' h'))"
    "reading E st1 (payload (call_items name args)) off" "drop off (payload (call_items name args)) = payload args"
    "idle E T st1" "ample E T k (mem st1)" "incoming (world st1) = more_in" "sent (world st1) = sent (world (hscl h))"
    "room (world st1) = room (world (hscl h))" "ok (world st1)"
proof -
  have "3 \<le> 3 + k" by simp
  from scl_read_packet_idle [OF i w inc len am this] obtain n st1 where
    st1: "scl_read_packet E io (hscl h) = Inr (n, st1)" "reading E st1 (payload (call_items name args)) 0" "idle E T st1"
      "in_packet_opcode (conn st1) = SCL_FCALL" "incoming (world st1) = more_in" "sent (world st1) = sent (world (hscl h))"
      "room (world st1) = room (world (hscl h))" "ok (world st1)" "ample E T (3 + k - 3) (mem st1)" by metis
  have "drop 0 (payload (call_items name args)) = payload ((c_str_obj (Some (str name)), SCL_STRING, 1) # args)"
    by (simp add: call_items_def)
  then obtain q j o' where g: "get_str E st1 = Inr ((q, arrived (Some (str name))), advance st1 j)"
      "reading E (advance st1 j) (payload (call_items name args)) o'" "drop o' (payload (call_items name args)) = payload args"
    by (rule get_str_items [OF st1(2)]) (use name in simp_all)
  have "arrived (Some (str name)) = Some (str name)" using name by (simp add: arrived_def)
  moreover have "call_function V E io K (str name) a' h' = f a' h'" for a' h' using name(1) f by (auto simp: call_function_def)
  ultimately show thesis
    using st1 g by (intro that [of "advance st1 j" o']) (simp_all add: suva_get_request_def idle_advance)
qed

lemma skel_reply_answers:
  assumes "idle E T (hscl h)" and "item_ok item" and "ample E T (5 + k) (mem (hscl h))"
    and "ok (world (hscl h))" and "16 + length (payload [item]) \<le> room (world (hscl h))"
  obtains st' where "skel_reply E io item h = Inr (h\<lparr>hscl := st'\<rparr>)"
    "wrote (world (hscl h)) (packet SCL_FRETURN (payload [item])) (world st')" "idle E T st'" "ample E T k (mem st')"
proof -
  have "h\<lparr>fs := fs h, inline_file := inline_file h, hscl := hscl h\<rparr> = h" by simp
  moreover have "\<exists>h'. bind_res (free_packet E (h\<lparr>fs := fs h, inline_file := inline_file h, hscl := hscl h\<rparr>)) (reply E io [item]) = Inr h' \<and>
      answered E T k h (fs h, inline_file h, [item]) h'"
    by (rule free_then_answer) (use assms in \<open>simp_all add: same_conn_def\<close>)
  ultimately show thesis using that by (auto simp: skel_reply_def answered_def)
qed

end

section \<open>BWMeter\<close>

lemma payload_long_int: "payload [(Block (le8 (scast n)), SCL_INT, k)] = le4 n"
proof -
  have "take 4 (le8 (scast n)) = le4 n"
    by (simp add: le8_def le4_def) (auto intro!: bit_word_eqI simp: bit_simps)
  then show ?thesis by (simp add: payload_def enc_item_def encode_def scalars_def block_of_def)
qed

lemma load_pcursor [simp]: "load (upd_conn (in_pcursor_update f) st) p n = load st p n"
  by (cases "heap (mem st) (in_pdata (conn st))") (simp_all add: load_def in_packet_def packet_bytes_def)

lemma idle_pcursor [simp]: "idle E T (upd_conn (in_pcursor_update f) st) = idle E T st"
  by (simp add: idle_def queue_def queue_at_def)

text \<open>C16: The meter answers a chunk of data with its checksum.
\<close>

theorem bwmeter_answers_checksum:
  assumes "idle E T (hscl h)" and "ample E T 8 (mem (hscl h))" and "prompt (world (hscl h))"
    and "to_read (world (hscl h)) =
      packet SCL_FCALL (payload (call_items ''xfer_chunk'' [(Block ds, SCL_DATA, of_nat (length ds)), (c_int_obj n, SCL_INT, 1)])) @ more_in"
    and "length ds < 2 ^ 30" and "20 \<le> room_left (world (hscl h))"
  shows "\<exists>crc st'. scl_crc ds (of_nat (length ds)) = Inr crc \<and>
    suva_get_request (bwmeter_suvlet E sock_io) E sock_io K () h = Inr (Running () (h\<lparr>hscl := st'\<rparr>)) \<and>
    idle E T st' \<and> to_read (world st') = more_in \<and> wire (world st') = wire (world (hscl h)) @ packet SCL_FRETURN (le4 crc)"
proof -
  let ?args = "[(Block ds, SCL_DATA, of_nat (length ds)), (c_int_obj n, SCL_INT, 1)]"
  have len: "length (payload (call_items ''xfer_chunk'' ?args)) < 2 ^ 31"
    using assms(5) by (simp add: call_items_def payload_def enc_item_def encode_def scalars_def arrays_def c_int_obj_def c_str_obj_def
      block_of_def enc_string_def string_ptr_def text_of_def str_def)
  have am: "ample E T (3 + 5) (mem (hscl h))" using assms(2) by simp
  have f: "func_table (bwmeter_suvlet E sock_io) (str ''xfer_chunk'') = Some (bwm_xfer_chunk E sock_io)"
    by (simp add: bwmeter_suvlet_def str_def)
  obtain st1 off where 1:
    "suva_get_request (bwmeter_suvlet E sock_io) E sock_io K () h =
       bind_res (bwm_xfer_chunk E sock_io () (h\<lparr>hscl := st1\<rparr>)) (\<lambda>(a', h'). Inr (Running a' h'))"
    "reading E st1 (payload (call_items ''xfer_chunk'' ?args)) off" "drop off (payload (call_items ''xfer_chunk'' ?args)) = payload ?args"
    "idle E T st1" "ample E T 5 (mem st1)" "to_read (world st1) = more_in" "wire (world st1) = wire (world (hscl h))"
    "room_left (world st1) = room_left (world (hscl h))" "prompt (world st1)"
    by (rule sockets.suva_get_request_fcall [OF assms(1) am assms(3,4) len _ _ _ f, of K "()"])
      (simp_all add: bwmeter_suvlet_def str_def)
  let ?n = "of_nat (length ds) :: c_int"
  have small: "unat ?n = length ds" "\<not> ?n <s 0" using assms(5) by (simp_all add: unat_of_nat small_nonneg)
  have "length ds < 2 ^ 31" using assms(5) by simp
  with 1(2,3) obtain q j o' where g: "get_data E st1 = Inr ((q, ?n), advance st1 j)" "load (advance st1 j) q (length ds) = Inr ds"
    by (rule get_data_items)
  let ?st = "advance (advance st1 j) 4"
  have v: "scl_get_value E (advance st1 j) SCL_INT True = Inr (cursor (advance st1 j), None, ?st)"
    by (simp add: scl_get_value_def less_eq_scl_type_def)
  have bs: "item_bytes ?st q ?n = Inr ds"
    using g(2) small by (auto simp: item_bytes_def)
  obtain crc where crc: "scl_crc ds ?n = Inr crc"
    using small by (auto simp: scl_crc_def crc_data_eq)
  have item: "item_ok (Block (le8 (scast crc)), SCL_INT, 1)" by (simp add: item_ok_def val_ok_def scalars_def)
  obtain st' where "skel_reply E sock_io (Block (le8 (scast crc)), SCL_INT, 1) (h\<lparr>hscl := ?st\<rparr>) = Inr (h\<lparr>hscl := st'\<rparr>)"
    "sockets.wrote (world ?st) (packet SCL_FRETURN (payload [(Block (le8 (scast crc)), SCL_INT, 1)])) (world st')"
    "idle E T st'" "ample E T 0 (mem st')"
    by (rule sockets.skel_reply_answers [where h = "h\<lparr>hscl := ?st\<rparr>" and k = 0, OF _ item])
      (use 1 assms(6) in \<open>simp_all add: idle_advance payload_long_int\<close>)
  then show ?thesis
    using 1 g(1) v bs crc
    by (intro exI [of _ crc] exI [of _ st'])
      (auto simp: bwm_xfer_chunk_def xfer_chunk_def payload_long_int sockets.wrote_def)
qed

text \<open>The meter on a sample connection.\<close>

lemma bwmeter_answers_checksum_witness:
  "\<exists>st st' :: sock scl. \<exists>crc. scl_crc [1, 2, 3] 3 = Inr crc \<and>
     suva_get_request (bwmeter_suvlet large_libc sock_io) large_libc sock_io sample_kernel () (sample_host st) =
       Inr (Running () (sample_host st')) \<and> wire (world st') = packet SCL_FRETURN (le4 crc)"
proof -
  let ?p = "packet SCL_FCALL (payload (call_items ''xfer_chunk''
    [(Block [1, 2, 3], SCL_DATA, of_nat (length [1, 2, 3 :: byte])), (c_int_obj 3, SCL_INT, 1)]))"
  have "?p \<noteq> []" using packet_nonempty [of SCL_FCALL _ "[]"] by simp
  then obtain T and s :: "sock session" where s: "idle large_libc T (scl s)" "ample large_libc T 900 (mem (scl s))"
    "world (scl s) = dialled ?p" by (rule sample_session)
  let ?h = "sample_host (scl s)"
  have 1: "idle large_libc T (hscl ?h)" "ample large_libc T 8 (mem (hscl ?h))"
    using s ample_le [OF s(2), of 8] by (simp_all add: sample_host_def)
  have 2: "prompt (world (hscl ?h))" "to_read (world (hscl ?h)) = ?p @ []" "20 \<le> room_left (world (hscl ?h))"
    using s(3) \<open>?p \<noteq> []\<close> by (simp_all add: sample_host_def dialled)
  have "length [1, 2, 3 :: byte] < 2 ^ 30" by simp
  from bwmeter_answers_checksum [OF 1 2(1,2) this 2(3), of sample_kernel] obtain crc st' where
    "scl_crc [1, 2, 3] (of_nat (length [1, 2, 3 :: byte])) = Inr crc"
    "suva_get_request (bwmeter_suvlet large_libc sock_io) large_libc sock_io sample_kernel () ?h = Inr (Running () (?h\<lparr>hscl := st'\<rparr>))"
    "wire (world st') = wire (world (hscl ?h)) @ packet SCL_FRETURN (le4 crc)" by blast
  moreover have "wire (world (hscl ?h)) = []" "?h\<lparr>hscl := st'\<rparr> = sample_host st'" using s(3) by (simp_all add: sample_host_def dialled_def)
  ultimately show ?thesis by (intro exI [of _ "scl s"] exI [of _ st'] exI [of _ crc]) simp
qed

section \<open>SecurityAudit\<close>

text \<open>C30: A suvlet with a working directory that is told to end frees its name and then, in what it registered for the end, uses it;
  without one it ends normally.
\<close>

theorem audit_end_dangling:
  assumes "idle E T (hscl h)" and "ample E T 3 (mem (hscl h))" and "prompt (world (hscl h))"
    and "to_read (world (hscl h)) = packet SCL_DSUVLET [] @ more_in"
  shows "if tmpDir a = No_Dir
    then \<exists>st'. suva_get_request (audit_suvlet k S E sock_io) E sock_io K a h = Inr (Exited 0 a (h\<lparr>hscl := st'\<rparr>))
    else suva_get_request (audit_suvlet k S E sock_io) E sock_io K a h = Inl Dangling"
proof -
  obtain n st1 where "scl_read_packet E sock_io (hscl h) = Inr (n, st1)" "in_packet_opcode (conn st1) = SCL_DSUVLET"
    using sockets.scl_read_packet_idle [OF assms(1,3,4) _ assms(2)] by auto
  then show ?thesis
    by (cases "tmpDir a") (auto simp: suva_get_request_def audit_suvlet_def exit_suvlet_def deconstruct_audit_def exit_clean_up_def)
qed

definition sample_audit :: audit where
  "sample_audit = \<lparr>buf = zero_buffer, buf2 = zero_buffer, tmpDir = Dir [116]\<rparr>"

lemma audit_end_dangling_witness:
  "\<exists>st :: sock scl. suva_get_request (audit_suvlet 0 sample_machine large_libc sock_io) large_libc sock_io sample_kernel sample_audit
     (sample_host st) = Inl Dangling"
proof -
  let ?p = "packet SCL_DSUVLET []"
  have "?p \<noteq> []" using packet_nonempty [of SCL_DSUVLET "[]" "[]"] by simp
  then obtain T and s :: "sock session" where s: "idle large_libc T (scl s)" "ample large_libc T 900 (mem (scl s))"
    "world (scl s) = dialled ?p" by (rule sample_session)
  let ?h = "sample_host (scl s)"
  have 1: "idle large_libc T (hscl ?h)" "ample large_libc T 3 (mem (hscl ?h))"
    using s ample_le [OF s(2), of 3] by (simp_all add: sample_host_def)
  have 2: "prompt (world (hscl ?h))" "to_read (world (hscl ?h)) = ?p @ []"
    using s(3) \<open>?p \<noteq> []\<close> by (simp_all add: sample_host_def dialled)
  from audit_end_dangling [OF 1 2, of sample_audit 0 sample_machine sample_kernel] show ?thesis
    by (auto simp: sample_audit_def)
qed

text \<open>A fresh suvlet that has counted the accounts once.\<close>

lemma audit_buffers_ok_witness:
  "\<exists>b b2 a. \<exists>h0 h :: sock host. constructor sample_core = Inr (b, b2) \<and>
     reachable (audit_suvlet 0 sample_machine large_libc sock_io) large_libc sock_io sample_kernel
       \<lparr>buf = b, buf2 = b2, tmpDir = No_Dir\<rparr> h0 (Running a h) \<and> buf_ok (buf a)"
proof -
  have ok: "buf_ok zero_buffer" "\<not> superseded zero_buffer" "\<forall>n. realloc_ok sample_core n" "str ''null'' \<noteq> []"
    "buffer_pos zero_buffer + length (str ''null'') < 2 ^ 30"
    by (simp_all add: buf_ok_def bytes_of_def zero_buffer_def sample_core_def str_def)
  have "grown (buffer_size zero_buffer) (buffer_pos zero_buffer + length (str ''null'')) = 4096"
    "fits_line 4096 (buffer_pos zero_buffer + length (str ''null''))"
    by (simp_all add: grown.simps zero_buffer_def str_def fits_line_def)
  with add_line_works [OF ok] obtain b where "add_line sample_core (str ''null'') zero_buffer = Inr b" by auto
  then have c: "constructor sample_core = Inr (b, b)" by (simp add: constructor_def)
  let ?a = "\<lparr>buf = b, buf2 = b, tmpDir = No_Dir\<rparr>"
  let ?p = "packet SCL_FCALL (payload (call_items ''get_uid_zeros'' []))"
  have "?p \<noteq> []" using packet_nonempty [of SCL_FCALL _ "[]"] by simp
  then obtain T and s :: "sock session" where s: "idle large_libc T (scl s)" "ample large_libc T 900 (mem (scl s))"
    "world (scl s) = dialled ?p" by (rule sample_session)
  let ?h = "sample_host (scl s)" and ?V = "audit_suvlet 0 sample_machine large_libc sock_io"
  have 1: "idle large_libc T (hscl ?h)" "ample large_libc T (3 + 5) (mem (hscl ?h))"
    using s ample_le [OF s(2), of 8] by (simp_all add: sample_host_def)
  have 2: "prompt (world (hscl ?h))" "to_read (world (hscl ?h)) = ?p @ []"
    using s(3) \<open>?p \<noteq> []\<close> by (simp_all add: sample_host_def dialled)
  have len: "length (payload (call_items ''get_uid_zeros'' [])) < 2 ^ 31"
    by (simp add: call_items_def payload_def enc_item_def encode_def scalars_def arrays_def c_str_obj_def
      enc_string_def string_ptr_def text_of_def str_def)
  have f: "func_table ?V (str ''get_uid_zeros'') = Some (get_uid_zeros_skel sample_machine large_libc sock_io)"
    by (simp add: audit_suvlet_def audit_functions_def str_def)
  obtain st1 off where r: "suva_get_request ?V large_libc sock_io sample_kernel ?a ?h =
      bind_res (get_uid_zeros_skel sample_machine large_libc sock_io ?a (?h\<lparr>hscl := st1\<rparr>)) (\<lambda>(a', h'). Inr (Running a' h'))"
      "idle large_libc T st1" "ample large_libc T 5 (mem st1)" "room_left (world st1) = room_left (world (hscl ?h))" "prompt (world st1)"
    by (rule sockets.suva_get_request_fcall [OF 1 2 len _ _ _ f, of sample_kernel ?a]) (simp_all add: str_def)
  have z: "SecurityAudit_get_uid_zeros sample_machine (fs ?h) = Inr (-1)"
    by (simp add: SecurityAudit_get_uid_zeros_def fopen_def sample_machine_def sample_host_def sample_files_def str_def)
  obtain st' where "skel_reply large_libc sock_io (c_int_obj (-1), SCL_INT, 1) (?h\<lparr>hscl := st1\<rparr>) = Inr (?h\<lparr>hscl := st1, hscl := st'\<rparr>)"
    by (rule sockets.skel_reply_answers [where h = "?h\<lparr>hscl := st1\<rparr>" and k = 0 and E = large_libc and T = T and item = "(c_int_obj (-1), SCL_INT, 1)"])
      (use r(2-5) s(3) in \<open>simp_all add: item_ok_def val_ok_int payload_def enc_item_int sample_host_def dialled\<close>)
  then have "suva_get_request ?V large_libc sock_io sample_kernel ?a ?h = Inr (Running ?a (?h\<lparr>hscl := st1, hscl := st'\<rparr>))"
    using r(1) z by (simp add: get_uid_zeros_skel_def audit_reply_def)
  then have reach: "reachable ?V large_libc sock_io sample_kernel ?a ?h (Running ?a (?h\<lparr>hscl := st1, hscl := st'\<rparr>))"
    by (rule one_more [OF at_start])
  have "\<forall>n. realloc_ok (mcore sample_machine) n" "constructor (mcore sample_machine) = Inr (b, b)"
    using c by (simp_all add: sample_machine_def sample_core_def)
  with audit_buffers_ok [OF _ _ reach] have "buf_ok (buf ?a)" by blast
  with c reach show ?thesis by blast
qed

end
