(* ===== verification/Software_List.thy ===== *)
theory Software_List
  imports Software_Props
begin

text \<open>
  The list of packages of a system with rpm: what \<open>Software_CreatePackageList\<close> writes is what
  \<open>Software_FetchPackageList\<close> answers.
\<close>

section \<open>What rpm says\<close>

record package =
  pkg_name :: "byte list"
  pkg_version :: "byte list"
  pkg_release :: "byte list"
  pkg_size :: "byte list"
  pkg_summary :: "byte list"

definition info_line :: "package \<Rightarrow> byte list" where
  "info_line p = pkg_name p @ 9 # pkg_version p @ 9 # pkg_release p @ 9 # pkg_size p @ 9 # pkg_summary p"

text \<open>Four words that fit into their arrays and a summary in one line.\<close>

definition word_ok :: "nat \<Rightarrow> byte list \<Rightarrow> bool" where
  "word_ok n w \<longleftrightarrow> w \<noteq> [] \<and> length w < n \<and> (\<forall>b \<in> set w. \<not> blank b \<and> b \<noteq> 0)"

definition package_ok :: "package \<Rightarrow> bool" where
  "package_ok p \<longleftrightarrow> word_ok 100 (pkg_name p) \<and> word_ok 100 (pkg_version p) \<and> word_ok 20 (pkg_release p) \<and> word_ok 20 (pkg_size p) \<and>
     pkg_summary p \<noteq> [] \<and> \<not> blank (hd (pkg_summary p)) \<and> 10 \<notin> set (pkg_summary p) \<and> 0 \<notin> set (pkg_summary p) \<and>
     length (info_line p) < 499"

lemma scan_pkg_word:
  assumes "word_ok n w"
  shows "scan (Word n # ds) (w @ 9 # s) = bind_res (scan ds (9 # s)) (\<lambda>r. Inr (Text w # r))"
proof -
  have d: "dropWhile blank (w @ 9 # s) = w @ 9 # s" using assms by (cases w) (auto simp: word_ok_def)
  have "blank 9" by (simp add: blank_def)
  then have "takeWhile (\<lambda>b. \<not> blank b) (w @ 9 # s) = w"
    using assms takeWhile_append2 [of w "\<lambda>b. \<not> blank b" "9 # s"] by (simp add: word_ok_def)
  with assms d show ?thesis by (simp add: word_ok_def fits_def Let_def)
qed

lemma scan_tab: "s \<noteq> [] \<Longrightarrow> \<not> blank (hd s) \<Longrightarrow> scan (White # ds) (9 # s) = scan ds s"
  by (cases s) (simp_all add: blank_def)

lemma word_ok_hd: "word_ok n w \<Longrightarrow> w @ s \<noteq> [] \<and> \<not> blank (hd (w @ s))"
  by (cases w) (auto simp: word_ok_def)

lemma scan_info:
  assumes p: "package_ok p"
  shows "scan info_format (info_line p @ [10]) =
    Inr [Text (pkg_name p), Text (pkg_version p), Text (pkg_release p), Text (pkg_size p), Text (pkg_summary p)]"
proof -
  let ?s = "pkg_summary p"
  have w: "word_ok 100 (pkg_name p)" "word_ok 100 (pkg_version p)" "word_ok 20 (pkg_release p)" "word_ok 20 (pkg_size p)"
    and s: "?s \<noteq> []" "\<not> blank (hd ?s)" "10 \<notin> set ?s" using p by (simp_all add: package_ok_def)
  have "length ?s < 500" using p by (simp add: package_ok_def info_line_def)
  moreover have "takeWhile (\<lambda>b. b \<noteq> 10) (?s @ [10]) = ?s" using s(3) by (subst takeWhile_append2) auto
  ultimately have r: "scan (Rest 500 # lits ''s'') (?s @ [10]) = Inr [Text ?s]"
    using s(1) by (simp add: fits_def lits_def Let_def)
  have h: "?s @ [10] \<noteq> []" "\<not> blank (hd (?s @ [10]))" using s by simp_all
  note word_ok_hd [OF w(2)] word_ok_hd [OF w(3)] word_ok_hd [OF w(4)]
  then show ?thesis
    unfolding info_format_def info_line_def append_assoc append_Cons
    by (simp only: append_Nil scan_pkg_word [OF w(1)] scan_pkg_word [OF w(2)] scan_pkg_word [OF w(3)] scan_pkg_word [OF w(4)]
        scan_tab h simp_thms not_False_eq_True r bind_res.simps)
qed

section \<open>The file\<close>

definition new_list :: path where "new_list = str ''packages.xml.new''"

definition written :: "c_int \<Rightarrow> byte list \<Rightarrow> files \<Rightarrow> stream \<times> files" where
  "written m bs files =
     (\<lparr>s_path = new_list, s_reads = False, s_writes = True, s_append = False, s_pos = length bs\<rparr>,
      files(new_list \<mapsto> \<lparr>f_bytes = bs, f_mode = m\<rparr>))"

lemma print_to_written:
  assumes "\<forall>p n. \<not> full (pkern P) p n"
  shows "print_to P ts (written m bs files) = written m (bs @ concat ts) files"
proof -
  obtain w where w: "concat ts = w" by simp
  with assms show ?thesis by (cases "w = []") (simp_all add: print_to_def w written_def fwrite_item_def overlay_end del: concat_eq_Nil_conv)
qed

lemma print_all_written:
  assumes "\<forall>p n. \<not> full (pkern P) p n"
  shows "print_all P tss (written m bs files) = written m (bs @ concat (concat tss)) files"
  by (induction tss arbitrary: bs) (simp_all add: print_to_written [OF assms])

definition package_text :: "package \<Rightarrow> byte list" where
  "package_text p = concat (concat [open_package, element ''Name'' (pkg_name p), element ''Version'' (pkg_version p),
     element ''Release'' (pkg_release p), element ''Size'' (pkg_size p), element ''Summary'' (pkg_summary p), close_package])"

definition list_text :: "byte list \<Rightarrow> package list \<Rightarrow> byte list" where
  "list_text date ps = concat (concat (xml_head date)) @ concat (map package_text ps) @ str '' </Packages>'' @ 10 # str ''</Software>''"

section \<open>Create and fetch\<close>

text \<open>rpm lists the packages under their identifiers, answers a query about each in one line and changes no file.\<close>

definition rpm_query :: "byte list \<Rightarrow> byte list" where
  "rpm_query i = str ''/bin/rpm -q --queryformat '' @ query @ i @ [10]"

definition rpm_says :: "packages \<Rightarrow> (byte list \<times> package) list \<Rightarrow> bool" where
  "rpm_says P ips \<longleftrightarrow> (\<forall>files. popen P (str ''/bin/rpm -qa'') files = Some (line_text (map fst ips), files)) \<and>
     (\<forall>(i, p) \<in> set ips. package_ok p \<and> 10 \<notin> set i \<and> 0 \<notin> set i \<and> length (rpm_query i) < 200 \<and>
        (\<forall>files. popen P (rpm_query i) files = Some (info_line p @ [10], files)))"

lemma info_line_fgets:
  assumes "package_ok p"
  shows "fgets BUF_SIZE (info_line p @ [10]) 0 = Some (info_line p @ [10], length (info_line p) + 1)"
    "text_upto0 (info_line p @ [10]) = info_line p @ [10]"
proof -
  have "10 \<notin> set w" if "word_ok n w" for n w using that by (auto simp: word_ok_def blank_def)
  moreover have "0 \<notin> set w" if "word_ok n w" for n w using that by (auto simp: word_ok_def)
  ultimately have "10 \<notin> set (info_line p)" "0 \<notin> set (info_line p)" "length (info_line p) < 499"
    using assms unfolding package_ok_def by (simp_all add: info_line_def) blast+
  then show "fgets BUF_SIZE (info_line p @ [10]) 0 = Some (info_line p @ [10], length (info_line p) + 1)"
    "text_upto0 (info_line p @ [10]) = info_line p @ [10]"
    by (simp_all add: fgets_def take_line_whole text_upto0_plain)
qed

lemma rpm_packages_written:
  assumes nf: "\<forall>p n. \<not> full (pkern P) p n"
  shows "\<forall>(i, p) \<in> set ips. package_ok p \<and> 10 \<notin> set i \<and> 0 \<notin> set i \<and> length (rpm_query i) < 200 \<and>
      (\<forall>files. popen P (rpm_query i) files = Some (info_line p @ [10], files)) \<Longrightarrow>
    rpm_packages P (map (\<lambda>(i, p). i @ [10]) ips) line1 (written m bs files) =
      Inr (True, written m (bs @ concat (map (package_text \<circ> snd) ips)) files)"
proof (induction ips arbitrary: line1 bs)
  case (Cons ip ips)
  obtain i p where ip: "ip = (i, p)" by (cases ip)
  then have p: "package_ok p" "0 \<notin> set i" "length (rpm_query i) < 200"
      "popen P (rpm_query i) f = Some (info_line p @ [10], f)" for f using Cons.prems by auto
  have c: "strcat_all 200 [] [str ''/bin/rpm -q --queryformat '', query, text_upto0 (i @ [10])] = Inr (rpm_query i)"
    using p(2,3) by (simp add: strcat_all_outcome text_upto0_plain rpm_query_def del: strcat_all.simps)
  have w: "print_all P [open_package, element ''Name'' (pkg_name p), element ''Version'' (pkg_version p),
      element ''Release'' (pkg_release p), element ''Size'' (pkg_size p), element ''Summary'' (pkg_summary p), close_package]
      (written m bs files) = written m (bs @ package_text p) files"
    unfolding package_text_def by (rule print_all_written [OF nf])
  have "rpm_packages P (map (\<lambda>(i, p). i @ [10]) ips) (info_line p @ [10]) (written m (bs @ package_text p) files) =
      Inr (True, written m ((bs @ package_text p) @ concat (map (package_text \<circ> snd) ips)) files)"
    by (rule Cons.IH) (use Cons.prems in auto)
  then show ?case
    by (simp add: ip c p(4) info_line_fgets [OF p(1)] scan_info [OF p(1)] w comp_def del: strcat_all.simps print_all.simps BUF_SIZE_def)
qed simp

lemma fetch_list:
  assumes "\<not> denied (pkern P) (str ''packages.xml'')" and "files (str ''packages.xml'') = Some f" and "0 \<notin> set (f_bytes f)"
  shows "Software_FetchPackageList P payload files =
    (if length (f_bytes f) < 92160 then Inr (f_bytes f, f_bytes f, files) else Inl Out_Of_Bounds)"
  using assms cat_lines_of [of 500 "[]" 92160 "f_bytes f"] by (simp add: Software_FetchPackageList_def fopen_read)

text \<open>What is left of the other files, and the list in its place.\<close>

lemma create_list:
  assumes type: "1000 \<le>s devicetype" "devicetype <s 2000"
    and kern: "\<forall>p n. \<not> full (pkern P) p n" "\<not> denied (pkern P) (str ''packages.xml.new'')"
    and rpm: "rpm_says P ips" and date: "0 \<notin> set (thedate P)"
  obtains files' f where "Software_CreatePackageList P devicetype files = Inr (0, files')" "files' (str ''packages.xml'') = Some f"
    "f_bytes f = list_text (thedate P) (map snd ips)" "0 \<notin> set (f_bytes f)"
    "\<And>p. p \<noteq> str ''packages.xml'' \<Longrightarrow> p \<noteq> str ''packages.xml.new'' \<Longrightarrow> files' p = files p"
proof -
  let ?xml = "list_text (thedate P) (map snd ips)"
  obtain m where m: "(case files new_list of None \<Rightarrow> new_mode (pkern P) | Some f \<Rightarrow> f_mode f) = m" by simp
  let ?head = "concat (concat (xml_head (thedate P)))"
  have open_new: "fopen (pkern P) files (Some (str ''packages.xml.new'')) (str ''w'') =
      (Some (fst (written m [] files)), snd (written m [] files))"
    using m by (simp add: fopen_write [OF kern(2)] written_def new_list_def)
  have head: "print_all P (xml_head (thedate P)) (written m [] files) = written m ?head files"
    using print_all_written [OF kern(1), of "xml_head (thedate P)" m "[]" files] by simp
  have ids: "\<forall>l \<in> set (map fst ips). length l + 1 < 500 \<and> 10 \<notin> set l"
    using rpm by (auto simp: rpm_says_def rpm_query_def)
  have lines: "lines_of BUF_SIZE (line_text (map fst ips)) = map (\<lambda>(i, p). i @ [10]) ips"
    using lines_of_text [OF _ ids] by (simp add: case_prod_beta comp_def)
  have body: "rpm_packages P (map (\<lambda>(i, p). i @ [10]) ips) (stack_line1 P) (written m ?head files) =
      Inr (True, written m (?head @ concat (map (package_text \<circ> snd) ips)) files)"
    by (rule rpm_packages_written [OF kern(1)]) (use rpm in \<open>auto simp: rpm_says_def\<close>)
  have tail: "print_all P [[str '' </Packages>'' @ [10]], [str ''</Software>'']] (written m (?head @ concat (map (package_text \<circ> snd) ips)) files) =
      written m ?xml files"
    by (simp only: print_all_written [OF kern(1)]) (simp add: list_text_def)
  let ?files = "rename_file (str ''packages.xml.new'') (str ''packages.xml'') (snd (written m ?xml files))"
  have "popen P (str ''/bin/rpm -qa'') f = Some (line_text (map fst ips), f)" for f using rpm by (simp add: rpm_says_def)
  with type have c: "Software_CreatePackageList P devicetype files = Inr (0, ?files)"
    by (simp add: Software_CreatePackageList_def open_new head lines body Let_def case_prod_beta tail
        del: print_all.simps BUF_SIZE_def)
  have there: "?files (str ''packages.xml'') = Some \<lparr>f_bytes = ?xml, f_mode = m\<rparr>"
    by (simp add: rename_file_def written_def new_list_def)
  have "0 \<notin> set (package_text p)" if "package_ok p" for p
    using that by (auto simp: package_text_def package_ok_def word_ok_def element_def open_package_def close_package_def str_def)
  then have "0 \<notin> set ?xml"
    using rpm date by (auto simp: list_text_def xml_head_def rpm_says_def str_def)
  with c there show thesis
    by (intro that [of ?files "\<lparr>f_bytes = ?xml, f_mode = m\<rparr>"]) (simp_all add: rename_file_def written_def new_list_def)
qed

text \<open>
  For a type of device between 1000 and 1999, on a system whose rpm lists packages and answers each query, the list that was created
  is the answer of the next FetchPackageList, if it has less than 92160 bytes; with more FetchPackageList writes behind its array.
\<close>

theorem package_list_round_trip:
  assumes type: "1000 \<le>s devicetype" "devicetype <s 2000"
    and kern: "\<forall>p n. \<not> full (pkern P) p n" "\<not> denied (pkern P) (str ''packages.xml'')" "\<not> denied (pkern P) (str ''packages.xml.new'')"
    and rpm: "rpm_says P ips" and date: "0 \<notin> set (thedate P)"
  defines "xml \<equiv> list_text (thedate P) (map snd ips)"
  shows "\<exists>files'. Software_CreatePackageList P devicetype files = Inr (0, files') \<and>
    Software_FetchPackageList P payload files' = (if length xml < 92160 then Inr (xml, xml, files') else Inl Out_Of_Bounds)"
proof -
  obtain files' f where "Software_CreatePackageList P devicetype files = Inr (0, files')" "files' (str ''packages.xml'') = Some f"
      "f_bytes f = xml" "0 \<notin> set (f_bytes f)"
    unfolding xml_def by (rule create_list [OF type kern(1,3) rpm date])
  with fetch_list [OF kern(2), of files' f payload] show ?thesis by simp
qed

text \<open>One package \<open>n\<close> with version \<open>v\<close>, release \<open>r\<close>, size \<open>1\<close> and summary \<open>t u\<close>.\<close>

definition sample_rpm :: packages where
  "sample_rpm = sample_packages\<lparr>popen := \<lambda>c files.
     Some (if c = str ''/bin/rpm -qa'' then [110, 10] else [110, 9, 118, 9, 114, 9, 49, 9, 116, 32, 117, 10], files)\<rparr>"

definition sample_ids :: "(byte list \<times> package) list" where
  "sample_ids = [([110], \<lparr>pkg_name = [110], pkg_version = [118], pkg_release = [114], pkg_size = [49], pkg_summary = [116, 32, 117]\<rparr>)]"

lemma sample_rpm_says: "rpm_says sample_rpm sample_ids"
proof -
  let ?p = "snd (hd sample_ids)"
  have "package_ok ?p" by (simp add: sample_ids_def package_ok_def word_ok_def blank_def info_line_def)
  moreover have "rpm_query [110] \<noteq> str ''/bin/rpm -qa''" "length (rpm_query [110]) < 200"
    by (simp_all add: rpm_query_def query_def str_def)
  ultimately show ?thesis
    by (simp add: rpm_says_def sample_rpm_def line_text_def info_line_def sample_ids_def)
qed

lemma length_sample_list: "length (list_text (thedate sample_rpm) (map snd sample_ids)) < 9000"
  by (simp add: sample_rpm_def sample_packages_def sample_ids_def list_text_def xml_head_def package_text_def element_def open_package_def
      close_package_def str_def)

lemma package_list_round_trip_witness:
  "\<exists>files' xml. Software_CreatePackageList sample_rpm 1000 Map.empty = Inr (0, files') \<and>
    Software_FetchPackageList sample_rpm [] files' = Inr (xml, xml, files')"
proof -
  have "length (list_text (thedate sample_rpm) (map snd sample_ids)) < 92160" using length_sample_list by simp
  then show ?thesis
    using package_list_round_trip [OF _ _ _ _ _ sample_rpm_says, of 1000 Map.empty "[]"]
    by (simp add: sample_rpm_def sample_packages_def) blast
qed

end
