(* ===== verification/Suvlet_Dialogues.thy ===== *)
theory Suvlet_Dialogues
  imports Suvlet_Calls Software_List
begin

text \<open>
  Calls of the suvlets' functions from the packet that arrives to the packet that is sent, one after the other.
\<close>

section \<open>A call\<close>

context scl_stream
begin

text \<open>
  A function that takes its arguments from the packet, changes files and state and then answers with one value.
\<close>

lemma suva_get_request_replies:
  assumes i: "idle E T (hscl h)" and am: "ample E T (8 + k) (mem (hscl h))" and w: "ok (world (hscl h))"
    and inc: "incoming (world (hscl h)) = packet SCL_FCALL (payload (call_items name args)) @ more_in"
    and len: "length (payload (call_items name args)) < 2 ^ 31"
    and name: "take 7 (str name) \<noteq> str ''inline-'' \<or> \<not> has_inlines V" "str name \<noteq> []" "0 \<notin> set (str name)"
    and f: "func_table V (str name) = Some f"
    and body: "\<forall>st1 off. reading E st1 (payload (call_items name args)) off \<and> drop off (payload (call_items name args)) = payload args \<longrightarrow>
      (\<exists>g. f a (h\<lparr>hscl := st1\<rparr>) =
          bind_res (skel_reply E io item (h2\<lparr>hscl := upd_conn (in_pcursor_update g) st1\<rparr>)) (\<lambda>h'. Inr (a', h')))"
    and item: "item_ok item" and room: "16 + length (payload [item]) \<le> room (world (hscl h))"
  shows "\<exists>st'. suva_get_request V E io K a h = Inr (Running a' (h2\<lparr>hscl := st'\<rparr>)) \<and> idle E T st' \<and> ample E T k (mem st') \<and>
    ok (world st') \<and> incoming (world st') = more_in \<and>
    sent (world st') = sent (world (hscl h)) @ packet SCL_FRETURN (payload [item]) \<and>
    room (world st') = room (world (hscl h)) - (16 + length (payload [item]))"
proof -
  have "ample E T (3 + (5 + k)) (mem (hscl h))" using am by simp
  from suva_get_request_fcall [OF i this w inc len name f] obtain st1 off where
    r: "suva_get_request V E io K a h = bind_res (f a (h\<lparr>hscl := st1\<rparr>)) (\<lambda>(a', h'). Inr (Running a' h'))"
    "reading E st1 (payload (call_items name args)) off" "drop off (payload (call_items name args)) = payload args"
    "idle E T st1" "ample E T (5 + k) (mem st1)" "incoming (world st1) = more_in" "sent (world st1) = sent (world (hscl h))"
    "room (world st1) = room (world (hscl h))" "ok (world st1)" by metis
  from body r(2,3) obtain g where
    g: "f a (h\<lparr>hscl := st1\<rparr>) = bind_res (skel_reply E io item (h2\<lparr>hscl := upd_conn (in_pcursor_update g) st1\<rparr>)) (\<lambda>h'. Inr (a', h'))" by blast
  let ?st = "upd_conn (in_pcursor_update g) st1"
  obtain st' where s: "skel_reply E io item (h2\<lparr>hscl := ?st\<rparr>) = Inr (h2\<lparr>hscl := ?st, hscl := st'\<rparr>)"
      "wrote (world ?st) (packet SCL_FRETURN (payload [item])) (world st')" "idle E T st'" "ample E T k (mem st')"
    by (rule skel_reply_answers [where h = "h2\<lparr>hscl := ?st\<rparr>", OF _ item]) (use r room in simp_all)
  from wroteD [OF s(2)] have "ok (world st')" "incoming (world st') = more_in"
      "sent (world st') = sent (world (hscl h)) @ packet SCL_FRETURN (payload [item])"
      "room (world st') = room (world (hscl h)) - (16 + length (payload [item]))"
    using r(6-8) by (simp_all add: length_packet)
  moreover have "suva_get_request V E io K a h = Inr (Running a' (h2\<lparr>hscl := st'\<rparr>))" using r(1) g s(1) by simp
  ultimately show ?thesis using s(3,4) by (intro exI [of _ st']) simp
qed

end

text \<open>Functions with strings only.\<close>

abbreviation string_args :: "byte list option list \<Rightarrow> (object \<times> scl_type \<times> c_int) list" where
  "string_args ps \<equiv> map (\<lambda>p. (c_str_obj p, SCL_STRING, 1)) ps"

lemma get_args_items:
  "reading E (hscl h) bs off \<Longrightarrow> drop off bs = payload (string_args ps) \<Longrightarrow> \<forall>p \<in> set ps. \<forall>s. p = Some s \<longrightarrow> 0 \<notin> set s \<Longrightarrow>
   \<exists>g. get_args (length ps) E h = Inr (map arrived ps, h\<lparr>hscl := upd_conn (in_pcursor_update g) (hscl h)\<rparr>)"
proof (induction ps arbitrary: h off)
  case Nil
  have "h = h\<lparr>hscl := upd_conn (in_pcursor_update (\<lambda>p. p)) (hscl h)\<rparr>" by simp
  then show ?case by (intro exI [of _ "\<lambda>p. p"]) simp
next
  case (Cons p ps)
  have d: "drop off bs = payload ((c_str_obj p, SCL_STRING, 1) # string_args ps)" using Cons.prems(2) by simp
  have "\<forall>s. p = Some s \<longrightarrow> 0 \<notin> set s" using Cons.prems(3) by simp
  from get_str_items [OF Cons.prems(1) d this] obtain q j o' where g: "get_str E (hscl h) = Inr ((q, arrived p), advance (hscl h) j)"
      "reading E (advance (hscl h) j) bs o'" "drop o' bs = payload (string_args ps)" by metis
  let ?h = "h\<lparr>hscl := advance (hscl h) j\<rparr>"
  have "reading E (hscl ?h) bs o'" "\<forall>p \<in> set ps. \<forall>s. p = Some s \<longrightarrow> 0 \<notin> set s" using g(2) Cons.prems(3) by simp_all
  from Cons.IH [OF this(1) g(3) this(2)] obtain g' where
    "get_args (length ps) E ?h = Inr (map arrived ps, ?h\<lparr>hscl := upd_conn (in_pcursor_update g') (hscl ?h)\<rparr>)" ..
  then show ?case using g(1) by (intro exI [of _ "\<lambda>p. g' (p + j)"]) (simp add: comp_def)
qed

lemma item_ok_text: "item_ok (text_item t)"
  by (simp add: text_item_def item_ok_def val_ok_str)

section \<open>SecurityAudit\<close>

definition audit_texts ::
  "machine \<Rightarrow> (string \<times> (path option \<Rightarrow> audit \<Rightarrow> files \<Rightarrow> (byte list \<times> audit \<times> files) res)) list" where
  "audit_texts S = [(''get_new_xuids'', SecurityAudit_get_new_xuids S), (''get_new_dot_files'', SecurityAudit_get_new_dot_files S),
     (''get_passwordless'', SecurityAudit_get_passwordless S)]"

lemma audit_texts_functions:
  assumes "(name, F) \<in> set (audit_texts S)"
  shows "audit_functions k S E io (str name) = Some (text_skel F E io)" "take 7 (str name) \<noteq> str ''inline-'' \<or> \<not> has_inlines (audit_suvlet k S E io)" "str name \<noteq> []"
    "0 \<notin> set (str name)" "length name < 20"
  using assms by (auto simp: audit_texts_def audit_functions_def str_def)

lemma length_string_call:
  assumes "length name < 20" and "length s < 2 ^ 30"
  shows "length (payload (call_items name (string_args [Some s]))) < 2 ^ 31"
  using assms length_takeWhile_le [of "\<lambda>b. b \<noteq> 0" "map chr name @ [0]"] length_takeWhile_le [of "\<lambda>b. b \<noteq> 0" "s @ [0]"]
  by (simp add: call_items_def payload_def enc_item_str enc_string_def string_ptr_def text_of_def str_def)

text \<open>C19: 
  A call of one of the functions that compare or list what a program prints is answered with the text the function returns, its errors
  included, and the suvlet is ready for the next call; an empty name of the program arrives as NULL.
\<close>

theorem audit_answers_text:
  assumes "idle E T (hscl h)" and "ample E T 8 (mem (hscl h))" and "prompt (world (hscl h))"
    and "to_read (world (hscl h)) = packet SCL_FCALL (payload (call_items name (string_args [Some prog]))) @ more_in"
    and prog: "0 \<notin> set prog" "length prog < 2 ^ 30" and F: "(name, F) \<in> set (audit_texts S)"
    and r: "F (arrived (Some prog)) a (fs h) = Inr (t, a', files')"
    and room: "16 + length (payload [text_item t]) \<le> room_left (world (hscl h))"
  shows "\<exists>st'. suva_get_request (audit_suvlet k S E sock_io) E sock_io K a h = Inr (Running a' (h\<lparr>fs := files', hscl := st'\<rparr>)) \<and>
    idle E T st' \<and> to_read (world st') = more_in \<and>
    wire (world st') = wire (world (hscl h)) @ packet SCL_FRETURN (payload [text_item t])"
proof -
  note n = audit_texts_functions [OF F]
  have f: "func_table (audit_suvlet k S E sock_io) (str name) = Some (text_skel F E sock_io)" by (simp add: audit_suvlet_def n(1))
  have am: "ample E T (8 + 0) (mem (hscl h))" using assms(2) by simp
  have ex: "\<exists>g. text_skel F E sock_io a (h\<lparr>hscl := st1\<rparr>) =
      bind_res (skel_reply E sock_io (text_item t) (h\<lparr>fs := files'\<rparr>\<lparr>hscl := upd_conn (in_pcursor_update g) st1\<rparr>)) (\<lambda>h'. Inr (a', h'))"
    if rd: "reading E st1 (payload (call_items name (string_args [Some prog]))) off"
      and d: "drop off (payload (call_items name (string_args [Some prog]))) = payload (string_args [Some prog])" for st1 off
  proof -
    have "reading E (hscl (h\<lparr>hscl := st1\<rparr>)) (payload (call_items name (string_args [Some prog]))) off" using rd by simp
    from get_args_items [OF this d] prog obtain g where
      "get_args 1 E (h\<lparr>hscl := st1\<rparr>) = Inr ([arrived (Some prog)], h\<lparr>hscl := upd_conn (in_pcursor_update g) st1\<rparr>)" by auto
    with r show ?thesis by (intro exI [of _ g]) (simp add: text_skel_def audit_reply_def host_upd)
  qed
  then have body: "\<forall>st1 off. reading E st1 (payload (call_items name (string_args [Some prog]))) off \<and>
      drop off (payload (call_items name (string_args [Some prog]))) = payload (string_args [Some prog]) \<longrightarrow>
      (\<exists>g. text_skel F E sock_io a (h\<lparr>hscl := st1\<rparr>) =
        bind_res (skel_reply E sock_io (text_item t) (h\<lparr>fs := files'\<rparr>\<lparr>hscl := upd_conn (in_pcursor_update g) st1\<rparr>)) (\<lambda>h'. Inr (a', h')))"
    by blast
  from sockets.suva_get_request_replies [where K = K, OF assms(1) am assms(3,4) length_string_call [OF n(5) prog(2)] n(2) n(3,4) f body item_ok_text room]
  show ?thesis by blast
qed

text \<open>A list of accounts without password that is empty, asked for on a sample connection.\<close>

lemma sample_call:
  assumes "bs \<noteq> []"
  obtains T and st :: "sock scl" where "idle large_libc T (hscl (sample_host st))" "ample large_libc T 900 (mem (hscl (sample_host st)))"
    "prompt (world (hscl (sample_host st)))" "to_read (world (hscl (sample_host st))) = bs"
    "room_left (world (hscl (sample_host st))) = 10004" "wire (world (hscl (sample_host st))) = []"
proof -
  obtain T and s :: "sock session" where s: "idle large_libc T (scl s)" "ample large_libc T 900 (mem (scl s))"
    "world (scl s) = dialled bs" using sample_session [OF assms] by metis
  then show thesis
    by (intro that [of T "scl s"]) (use assms in \<open>simp_all add: sample_host_def dialled\<close>, simp add: dialled_def)
qed

lemma packet_not_empty: "packet op bs @ more_in \<noteq> []"
  using packet_nonempty [of op bs more_in] by simp

lemma audit_answers_text_witness:
  "\<exists>st st' :: sock scl. suva_get_request (audit_suvlet 0 sample_machine large_libc sock_io) large_libc sock_io sample_kernel
      \<lparr>buf = sample_block 64, buf2 = sample_block 64, tmpDir = No_Dir\<rparr> (sample_host st) =
    Inr (Running \<lparr>buf = sample_block 64, buf2 = sample_block 64, tmpDir = No_Dir\<rparr> (sample_host st')) \<and>
    wire (world st') = packet SCL_FRETURN (payload [text_item []])"
proof -
  let ?p = "packet SCL_FCALL (payload (call_items ''get_passwordless'' (string_args [Some [112]])))"
  let ?a = "\<lparr>buf = sample_block 64, buf2 = sample_block 64, tmpDir = No_Dir\<rparr>"
  obtain T and st :: "sock scl" where s: "idle large_libc T (hscl (sample_host st))" "ample large_libc T 900 (mem (hscl (sample_host st)))"
    "prompt (world (hscl (sample_host st)))" "to_read (world (hscl (sample_host st))) = ?p @ []"
    "room_left (world (hscl (sample_host st))) = 10004" "wire (world (hscl (sample_host st))) = []"
    using sample_call [OF packet_not_empty] by metis
  have am: "ample large_libc T 8 (mem (hscl (sample_host st)))" using ample_le [OF s(2), of 8] by simp
  have prog: "0 \<notin> set [112 :: byte]" "length [112 :: byte] < 2 ^ 30" by simp_all
  have F: "(''get_passwordless'', SecurityAudit_get_passwordless sample_machine) \<in> set (audit_texts sample_machine)"
    by (simp add: audit_texts_def)
  have r: "SecurityAudit_get_passwordless sample_machine (arrived (Some [112])) ?a (fs (sample_host st)) = Inr ([], ?a, fs (sample_host st))"
    by (simp add: SecurityAudit_get_passwordless_def clear_buffer_def sample_block_def blit_def safe_exec_pipe_def sample_machine_def
        child_failed_def buffer_text_def c_str_def)
  have room: "16 + length (payload [text_item []]) \<le> room_left (world (hscl (sample_host st)))"
    using s(5) by (simp add: text_item_def payload_def enc_item_str enc_string_def string_ptr_def text_of_def)
  from audit_answers_text [OF s(1) am s(3,4) prog F r room, of 0 sample_kernel] s(6) show ?thesis
    by (auto simp: sample_host_def)
qed

section \<open>Software\<close>

abbreviation create_args :: "c_int \<Rightarrow> (object \<times> scl_type \<times> c_int) list" where
  "create_args devicetype \<equiv> [(c_int_obj devicetype, SCL_INT, 1)]"

lemma software_calls:
  "length (payload (call_items ''CreatePackageList'' (create_args n))) < 2 ^ 31" "length (payload (call_items ''FetchPackageList'' [])) < 2 ^ 31"
  "take 7 (str ''CreatePackageList'') \<noteq> str ''inline-'' \<or> \<not> has_inlines (software_suvlet P E io)"
  "take 7 (str ''FetchPackageList'') \<noteq> str ''inline-'' \<or> \<not> has_inlines (software_suvlet P E io)"
  "str ''CreatePackageList'' \<noteq> []" "0 \<notin> set (str ''CreatePackageList'')" "str ''FetchPackageList'' \<noteq> []" "0 \<notin> set (str ''FetchPackageList'')"
  "func_table (software_suvlet P E io) (str ''CreatePackageList'') = Some (create_skel P E io)"
  "func_table (software_suvlet P E io) (str ''FetchPackageList'') = Some (payload_skel (Software_FetchPackageList P) E io)"
  by (simp_all add: call_items_def payload_def enc_item_str enc_item_int enc_string_def string_ptr_def text_of_def
      software_suvlet_def software_functions_def str_def)

lemma create_call:
  assumes "idle E T (hscl h)" and "ample E T (8 + k) (mem (hscl h))" and "prompt (world (hscl h))"
    and "to_read (world (hscl h)) = packet SCL_FCALL (payload (call_items ''CreatePackageList'' (create_args devicetype))) @ more_in"
    and c: "Software_CreatePackageList P devicetype (fs h) = Inr (n, files')" and "20 \<le> room_left (world (hscl h))"
  shows "\<exists>st'. suva_get_request (software_suvlet P E sock_io) E sock_io K old h = Inr (Running old (h\<lparr>fs := files', hscl := st'\<rparr>)) \<and>
    idle E T st' \<and> ample E T k (mem st') \<and> prompt (world st') \<and> to_read (world st') = more_in \<and>
    wire (world st') = wire (world (hscl h)) @ packet SCL_FRETURN (le4 n) \<and> room_left (world st') = room_left (world (hscl h)) - 20"
proof -
  let ?call = "payload (call_items ''CreatePackageList'' (create_args devicetype))"
  have int: "payload [(c_int_obj n, SCL_INT, 1)] = le4 n" by (simp add: payload_def enc_item_int)
  have "\<exists>g. create_skel P E sock_io old (h\<lparr>hscl := st1\<rparr>) =
      bind_res (skel_reply E sock_io (c_int_obj n, SCL_INT, 1) (h\<lparr>fs := files'\<rparr>\<lparr>hscl := upd_conn (in_pcursor_update g) st1\<rparr>)) (\<lambda>h'. Inr (old, h'))"
    if rd: "reading E st1 ?call off" and d: "drop off ?call = payload (create_args devicetype)" for st1 off
  proof -
    obtain j where "get_int E st1 = Inr (devicetype, advance st1 j)" by (rule get_int_items [OF rd d])
    then show ?thesis using c by (intro exI [of _ "\<lambda>p. p + j"]) (simp add: create_skel_def host_upd)
  qed
  then have body: "\<forall>st1 off. reading E st1 ?call off \<and> drop off ?call = payload (create_args devicetype) \<longrightarrow>
      (\<exists>g. create_skel P E sock_io old (h\<lparr>hscl := st1\<rparr>) =
        bind_res (skel_reply E sock_io (c_int_obj n, SCL_INT, 1) (h\<lparr>fs := files'\<rparr>\<lparr>hscl := upd_conn (in_pcursor_update g) st1\<rparr>))
          (\<lambda>h'. Inr (old, h')))"
    by blast
  have "item_ok (c_int_obj n, SCL_INT, 1)" "16 + length (payload [(c_int_obj n, SCL_INT, 1)]) \<le> room_left (world (hscl h))"
    using assms(6) by (simp_all add: item_ok_def val_ok_int int)
  from sockets.suva_get_request_replies [where K = K, OF assms(1-4) software_calls(1,3,5,6,9) body this] show ?thesis
    by (simp add: int)
qed

lemma fetch_call:
  assumes "idle E T (hscl h)" and "ample E T (8 + k) (mem (hscl h))" and "prompt (world (hscl h))"
    and "to_read (world (hscl h)) = packet SCL_FCALL (payload (call_items ''FetchPackageList'' [])) @ more_in"
    and f: "Software_FetchPackageList P old (fs h) = Inr (t, new, fs h)" and "16 + length (payload [text_item t]) \<le> room_left (world (hscl h))"
  shows "\<exists>st'. suva_get_request (software_suvlet P E sock_io) E sock_io K old h = Inr (Running new (h\<lparr>hscl := st'\<rparr>)) \<and>
    idle E T st' \<and> to_read (world st') = more_in \<and> wire (world st') = wire (world (hscl h)) @ packet SCL_FRETURN (payload [text_item t])"
proof -
  have "payload_skel (Software_FetchPackageList P) E sock_io old (h\<lparr>hscl := st1\<rparr>) =
      bind_res (skel_reply E sock_io (text_item t) (h\<lparr>hscl := upd_conn (in_pcursor_update (\<lambda>p. p)) st1\<rparr>)) (\<lambda>h'. Inr (new, h'))" for st1
  proof -
    have same: "upd_conn (in_pcursor_update (\<lambda>p. p)) st1 = st1" by simp
    show ?thesis unfolding same using f by (simp add: payload_skel_def host_upd)
  qed
  then have "\<forall>st1 off. reading E st1 (payload (call_items ''FetchPackageList'' [])) off \<and>
      drop off (payload (call_items ''FetchPackageList'' [])) = payload [] \<longrightarrow>
      (\<exists>g. payload_skel (Software_FetchPackageList P) E sock_io old (h\<lparr>hscl := st1\<rparr>) =
        bind_res (skel_reply E sock_io (text_item t) (h\<lparr>hscl := upd_conn (in_pcursor_update g) st1\<rparr>)) (\<lambda>h'. Inr (new, h')))" by blast
  from sockets.suva_get_request_replies [where K = K, OF assms(1-4) software_calls(2,4,7,8,10) this item_ok_text assms(6)] show ?thesis
    by blast
qed

text \<open>C17: 
  A client that calls CreatePackageList and then FetchPackageList gets 0 and the list of all packages with what rpm says about each,
  and nothing else, when the list has less than 92160 bytes.
\<close>

theorem software_serves_list:
  assumes "idle E T (hscl h)" and "ample E T 16 (mem (hscl h))" and "prompt (world (hscl h))"
    and "to_read (world (hscl h)) = packet SCL_FCALL (payload (call_items ''CreatePackageList'' (create_args devicetype))) @
      packet SCL_FCALL (payload (call_items ''FetchPackageList'' [])) @ more_in"
    and type: "1000 \<le>s devicetype" "devicetype <s 2000"
    and kern: "\<forall>p n. \<not> full (pkern P) p n" "\<not> denied (pkern P) (str ''packages.xml'')" "\<not> denied (pkern P) (str ''packages.xml.new'')"
    and rpm: "rpm_says P ips" and date: "0 \<notin> set (thedate P)"
    and xml: "xml = list_text (thedate P) (map snd ips)" "length xml < 92160"
    and room: "36 + length (payload [text_item xml]) \<le> room_left (world (hscl h))"
  shows "\<exists>files' st'. serve_requests 2 (software_suvlet P E sock_io) E sock_io K old h =
      Inr (Running xml (h\<lparr>fs := files', hscl := st'\<rparr>)) \<and> idle E T st' \<and> to_read (world st') = more_in \<and>
    wire (world st') = wire (world (hscl h)) @ packet SCL_FRETURN (le4 0) @ packet SCL_FRETURN (payload [text_item xml])"
proof -
  obtain files' g where c: "Software_CreatePackageList P devicetype (fs h) = Inr (0, files')" "files' (str ''packages.xml'') = Some g"
      "f_bytes g = xml" "0 \<notin> set (f_bytes g)"
    unfolding xml(1) by (rule create_list [OF type kern(1,3) rpm date])
  have am: "ample E T (8 + 8) (mem (hscl h))" and room20: "20 \<le> room_left (world (hscl h))" using assms(2) room by simp_all
  obtain st1 where 1: "suva_get_request (software_suvlet P E sock_io) E sock_io K old h = Inr (Running old (h\<lparr>fs := files', hscl := st1\<rparr>))"
      "idle E T st1" "ample E T 8 (mem st1)" "prompt (world st1)"
      "to_read (world st1) = packet SCL_FCALL (payload (call_items ''FetchPackageList'' [])) @ more_in"
      "wire (world st1) = wire (world (hscl h)) @ packet SCL_FRETURN (le4 0)" "room_left (world st1) = room_left (world (hscl h)) - 20"
    using create_call [OF assms(1) am assms(3,4) c(1) room20] by blast
  let ?h = "h\<lparr>fs := files', hscl := st1\<rparr>"
  have "idle E T (hscl ?h)" "ample E T (8 + 0) (mem (hscl ?h))" "prompt (world (hscl ?h))"
      "to_read (world (hscl ?h)) = packet SCL_FCALL (payload (call_items ''FetchPackageList'' [])) @ more_in"
      "Software_FetchPackageList P old (fs ?h) = Inr (xml, xml, fs ?h)" "16 + length (payload [text_item xml]) \<le> room_left (world (hscl ?h))"
    using 1 room fetch_list [OF kern(2), of files' g old] c xml(2) by simp_all
  from fetch_call [OF this] obtain st2 where
    "suva_get_request (software_suvlet P E sock_io) E sock_io K old ?h = Inr (Running xml (?h\<lparr>hscl := st2\<rparr>))" "idle E T st2"
      "to_read (world st2) = more_in" "wire (world st2) = wire (world (hscl ?h)) @ packet SCL_FRETURN (payload [text_item xml])" by blast
  with 1 show ?thesis by (intro exI [of _ files'] exI [of _ st2]) (simp add: numeral_2_eq_2)
qed

text \<open>The same with the one package of \<open>sample_rpm\<close>.\<close>

lemma length_text_payload: "length (payload [text_item t]) \<le> length t + 6"
  using length_takeWhile_le [of "\<lambda>b. b \<noteq> 0" "t @ [0]"]
  by (simp add: text_item_def payload_def enc_item_str enc_string_def string_ptr_def text_of_def)

lemma software_serves_list_witness:
  "\<exists>st st' :: sock scl. \<exists>files' xml. serve_requests 2 (software_suvlet sample_rpm large_libc sock_io) large_libc sock_io sample_kernel [] (sample_host st) =
      Inr (Running xml ((sample_host st')\<lparr>fs := files'\<rparr>)) \<and>
    wire (world st') = packet SCL_FRETURN (le4 0) @ packet SCL_FRETURN (payload [text_item xml])"
proof -
  let ?xml = "list_text (thedate sample_rpm) (map snd sample_ids)"
  have xml: "length ?xml < 9000" by (rule length_sample_list)
  obtain T and st :: "sock scl" where s: "idle large_libc T (hscl (sample_host st))" "ample large_libc T 900 (mem (hscl (sample_host st)))"
    "prompt (world (hscl (sample_host st)))"
    "to_read (world (hscl (sample_host st))) = packet SCL_FCALL (payload (call_items ''CreatePackageList'' (create_args 1000))) @
      packet SCL_FCALL (payload (call_items ''FetchPackageList'' [])) @ []"
    "room_left (world (hscl (sample_host st))) = 10004" "wire (world (hscl (sample_host st))) = []"
    using sample_call [OF packet_not_empty] by metis
  have am: "ample large_libc T 16 (mem (hscl (sample_host st)))" using ample_le [OF s(2), of 16] by simp
  have type: "1000 \<le>s (1000 :: c_int)" "(1000 :: c_int) <s 2000" by simp_all
  have kern: "\<forall>p n. \<not> full (pkern sample_rpm) p n" "\<not> denied (pkern sample_rpm) (str ''packages.xml'')"
      "\<not> denied (pkern sample_rpm) (str ''packages.xml.new'')" "0 \<notin> set (thedate sample_rpm)"
    by (simp_all add: sample_rpm_def sample_packages_def)
  have room: "36 + length (payload [text_item ?xml]) \<le> room_left (world (hscl (sample_host st)))" "length ?xml < 92160"
    using xml length_text_payload [of ?xml] s(5) by simp_all
  from software_serves_list [OF s(1) am s(3,4) type kern(1-3) sample_rpm_says kern(4) refl room(2,1), of sample_kernel "[]"] s(6) show ?thesis
    by (auto simp: sample_host_def)
qed

end
