(* ===== verification/Audit_Diff.thy ===== *)
theory Audit_Diff
  imports Security_Audit_Props
begin

text \<open>
  The whole comparison of SecurityAudit with an output that has not changed: nothing is reported and the data base stays as it is.
\<close>

section \<open>Buffers that do not grow\<close>

definition holds_text :: "buffer_desc \<Rightarrow> byte list \<Rightarrow> nat \<Rightarrow> bool" where
  "holds_text b t s \<longleftrightarrow> \<not> superseded b \<and> buffer_size b = s \<and> buffer_pos b = length t \<and>
     (\<exists>rest. chars b = Some (t @ 0 # rest) \<and> s = length t + 1 + length rest)"

lemma buffer_text_holds: "holds_text b t s \<Longrightarrow> 0 \<notin> set t \<Longrightarrow> buffer_text b = Inr t"
  by (auto simp: holds_text_def buffer_text_def)

lemma clear_buffer_holds:
  assumes "buf_ok b" and "0 < buffer_size b"
  obtains b' where "clear_buffer b = Inr b'" "holds_text b' [] (buffer_size b)"
proof -
  obtain bs where bs: "chars b = Some bs" "length bs = buffer_size b"
    using assms by (cases "chars b") (simp_all add: buf_ok_def bytes_of_def)
  then have "clear_buffer b = Inr (b\<lparr>buffer_pos := 0, chars := Some (0 # drop 1 bs), superseded := False\<rparr>)"
    using assms(2) by (simp add: clear_buffer_def blit_def)
  then show thesis by (rule that) (use bs assms(2) in \<open>simp add: holds_text_def\<close>)
qed

lemma add_line_holds:
  assumes b: "holds_text b t s" and room: "length t + length line + 2 \<le> s" "s \<le> 262144"
  obtains b' where "add_line M line b = Inr b'" "holds_text b' (t @ line) s"
proof -
  obtain rest where rest: "chars b = Some (t @ 0 # rest)" "s = length t + 1 + length rest" and
      d: "\<not> superseded b" "buffer_size b = s" "buffer_pos b = length t" using b by (auto simp: holds_text_def)
  have "make_room (Suc 63) M (add_line_at (Suc 0) M) (length line) b = Inr b"
    using room d by (simp only: make_room.simps) simp
  then have "make_room 64 M (add_line_at (Suc 0) M) (length line) b = Inr b" by simp
  then have add: "add_line M line b = put_line line b"
    using d(1) by (simp add: add_line_def numeral_2_eq_2 del: make_room.simps)
  have "length (t @ 0 # rest) = buffer_size b" "fits_line (buffer_size b) (buffer_pos b + length line)"
    using rest d room by (simp_all add: fits_line_def)
  with put_line_works [OF rest(1)] obtain bs where bs: "put_line line b = Inr (b\<lparr>chars := Some bs, buffer_pos := buffer_pos b + length line,
      superseded := superseded b \<or> 262144 < buffer_size b\<rparr>)" "length bs = buffer_size b"
    "take (buffer_pos b + length line) bs = put_text b line" "bs ! (buffer_pos b + length line) = 0" by metis
  let ?p = "length t + length line"
  have "put_text b line = t @ line" using rest d room by (simp add: put_text_def content_def bytes_of_def)
  then have "bs = (t @ line) @ 0 # drop (?p + 1) bs"
    using id_take_nth_drop [of ?p bs] bs(2-4) d room by simp
  then have "\<exists>r. bs = (t @ line) @ 0 # r \<and> s = length (t @ line) + 1 + length r"
    using bs(2) d room by (intro exI [of _ "drop (?p + 1) bs"]) simp
  then show thesis using add bs(1) d room
    by (intro that [of "b\<lparr>chars := Some bs, buffer_pos := ?p, superseded := False\<rparr>"]) (auto simp: holds_text_def)
qed

lemma add_lines_holds:
  "holds_text b t s \<Longrightarrow> length t + length (concat ls) + 2 \<le> s \<Longrightarrow> s \<le> 262144 \<Longrightarrow> \<forall>l \<in> set ls. 0 \<notin> set l \<and> \<not> skip l \<Longrightarrow>
   \<exists>b'. add_lines M skip ls b = Inr b' \<and> holds_text b' (t @ concat ls) s"
proof (induction ls arbitrary: b t)
  case Nil
  then show ?case by simp
next
  case (Cons l ls)
  have "text_upto0 l = l" using Cons.prems(4) by (auto simp: text_upto0_def takeWhile_eq_all_conv)
  moreover have "length t + length l + 2 \<le> s" using Cons.prems(2) by simp
  then obtain b1 where "add_line M l b = Inr b1" "holds_text b1 (t @ l) s"
    using add_line_holds [OF Cons.prems(1) _ Cons.prems(3)] by blast
  ultimately show ?case using Cons.IH [of b1 "t @ l"] Cons.prems by simp
qed

section \<open>The lines of a text\<close>

lemma tokens_text: "\<forall>l \<in> set ls. 10 \<notin> set l \<Longrightarrow> tokens (\<lambda>b. b = 10) (line_text ls) = filter (\<lambda>l. l \<noteq> []) ls"
proof (induction ls)
  case Nil
  then show ?case by (simp add: line_text_def tokens_nil)
next
  case (Cons l ls)
  have t: "line_text (l # ls) = l @ 10 # line_text ls" by (simp add: line_text_def)
  show ?case
  proof (cases "l = []")
    case True
    with Cons t show ?thesis by (simp add: tokens_sep)
  next
    case False
    then have "tokens (\<lambda>b. b = 10) (l @ 10 # line_text ls) = l # tokens (\<lambda>b. b = 10) (line_text ls)"
      by (rule tokens_first) (use Cons.prems in auto)
    with Cons t False show ?thesis by simp
  qed
qed

section \<open>Searching what is there, in order\<close>

lemma match_forward:
  assumes L: "text_lines c L"
  shows "s \<le> i \<Longrightarrow> i \<le> j \<Longrightarrow> j < length L \<Longrightarrow> \<forall>m. i \<le> m \<and> m < j \<longrightarrow> chop (L ! m) \<noteq> needle \<Longrightarrow> chop (L ! j) = needle \<Longrightarrow>
    0 < s \<Longrightarrow> j - i < k \<Longrightarrow> match_loop k needle c (offset L s) (offset L i) = Inr (1, offset L (Suc j))"
proof (induction "j - i" arbitrary: i k)
  case 0
  then show ?case by (cases k) (simp_all add: match_at_line [OF L])
next
  case (Suc d)
  then obtain k' where k: "k = Suc k'" by (cases k) auto
  have i: "i < length L" and ij: "i < j" using Suc by simp_all
  have ne: "chop (L ! i) \<noteq> needle" using Suc.prems(4) ij by blast
  have s: "offset L s \<noteq> 0" using offset_mono [OF L, of 0 s] Suc.prems by simp
  have e: "offset L (Suc i) \<noteq> offset L s" using offset_eq [OF L, of "Suc i" s] Suc.prems i by simp
  have "match_loop k' needle c (offset L s) (offset L (Suc i)) = Inr (1, offset L (Suc j))"
    using Suc.hyps Suc.prems ij k by (intro Suc.hyps(1)) auto
  with ne s e show ?case by (simp add: k match_at_line [OF L i])
qed

lemma get_match_next:
  assumes L: "text_lines c L" and ij: "i \<le> j" "j < length L" and first: "\<forall>m. i \<le> m \<and> m < j \<longrightarrow> chop (L ! m) \<noteq> needle"
    and hit: "chop (L ! j) = needle"
  shows "get_match needle c (offset L i) = Inr (1, offset L (Suc j))"
proof -
  have i: "i < length L" using ij by simp
  have e: "offset L (Suc i) \<noteq> 0" using offset_mono [OF L, of 0 "Suc i"] i by simp
  have len: "length L \<le> length c" by (rule length_text_lines [OF L])
  show ?thesis
  proof (cases "i = j")
    case True
    with hit show ?thesis by (simp only: get_match_rounds) (simp add: match_at_line [OF L ij(2)])
  next
    case False
    have "match_loop (Suc (2 * length c + 2)) needle c (offset L (Suc i)) (offset L (Suc i)) = Inr (1, offset L (Suc j))"
      by (rule match_forward [OF L]) (use False ij first hit len in auto)
    moreover have "chop (L ! i) \<noteq> needle" using first False ij by simp
    ultimately show ?thesis using e by (simp add: get_match_rounds match_at_line [OF L i])
  qed
qed

lemma new_lines_none:
  assumes L: "text_lines c L" and ls: "L = map (\<lambda>l. l @ [10]) ls"
  shows "i \<le> j \<Longrightarrow> j \<le> length ls \<Longrightarrow> \<forall>m. i \<le> m \<and> m < j \<longrightarrow> ls ! m = [] \<Longrightarrow>
    new_lines M c (offset L i) (filter (\<lambda>l. l \<noteq> []) (drop j ls)) b = Inr b"
proof (induction "length ls - j" arbitrary: i j)
  case 0
  then show ?case by simp
next
  case (Suc d)
  then have j: "j < length ls" by simp
  then have dr: "drop j ls = ls ! j # drop (Suc j) ls" by (simp add: Cons_nth_drop_Suc)
  show ?case
  proof (cases "ls ! j = []")
    case True
    then have "\<forall>m. i \<le> m \<and> m < Suc j \<longrightarrow> ls ! m = []" using Suc.prems(3) by (auto simp: less_Suc_eq)
    then show ?thesis using Suc.hyps(1) [of "Suc j" i] Suc.hyps(2) Suc.prems j dr True by simp
  next
    case False
    have ch: "chop (L ! m) = ls ! m" if "m < length ls" for m using that by (simp add: ls chop_def)
    have "\<forall>m. i \<le> m \<and> m < j \<longrightarrow> chop (L ! m) \<noteq> ls ! j"
      using False Suc.prems(3) ch j by (metis less_trans)
    moreover have "j < length L" "chop (L ! j) = ls ! j" using j ch by (simp_all add: ls)
    ultimately have "get_match (ls ! j) c (offset L i) = Inr (1, offset L (Suc j))"
      using get_match_next [OF L Suc.prems(1)] by blast
    moreover have "new_lines M c (offset L (Suc j)) (filter (\<lambda>l. l \<noteq> []) (drop (Suc j) ls)) b = Inr b"
      by (rule Suc.hyps(1)) (use Suc.hyps(2) j in auto)
    ultimately show ?thesis using dr False by simp
  qed
qed

section \<open>Nothing new\<close>

text \<open>The lines a data base can hold without harm: no line end, null byte or percent sign, none that is too long or left out.\<close>

definition plain_line :: "byte list \<Rightarrow> bool" where
  "plain_line l \<longleftrightarrow> length l < 4095 \<and> 10 \<notin> set l \<and> 0 \<notin> set l \<and> chr CHR ''%'' \<notin> set l \<and> \<not> find_proc (l @ [10])"

lemma plain_text:
  assumes "\<forall>l \<in> set ls. plain_line l"
  shows "0 \<notin> set (line_text ls)" "format_alone (line_text ls) = Inr (line_text ls)"
    "lines_of 4096 (line_text ls) = map (\<lambda>l. l @ [10]) ls" "tokens (\<lambda>b. b = 10) (line_text ls) = filter (\<lambda>l. l \<noteq> []) ls"
proof -
  show "0 \<notin> set (line_text ls)" using assms by (auto simp: line_text_def plain_line_def)
  show "format_alone (line_text ls) = Inr (line_text ls)"
    by (rule format_alone_plain) (use assms in \<open>auto simp: line_text_def plain_line_def\<close>)
  show "lines_of 4096 (line_text ls) = map (\<lambda>l. l @ [10]) ls" by (rule lines_of_text) (use assms in \<open>auto simp: plain_line_def\<close>)
  show "tokens (\<lambda>b. b = 10) (line_text ls) = filter (\<lambda>l. l \<noteq> []) ls"
    by (rule tokens_text) (use assms in \<open>auto simp: plain_line_def\<close>)
qed

lemma save_db_same:
  assumes f: "files db = Some f" and d: "\<not> denied (kern S) db" "\<not> full (kern S) db (length (f_bytes f))"
    and t: "format_alone (f_bytes f) = Inr (f_bytes f)"
  shows "save_db S db (f_bytes f) r files = Inr (r, files)"
proof -
  obtain bs m where fbs: "f = \<lparr>f_bytes = bs, f_mode = m\<rparr>" by (cases f) simp
  then have "files(db \<mapsto> \<lparr>f_bytes = bs, f_mode = m\<rparr>) = files" using f by (auto simp: fun_eq_iff)
  moreover have "overlay [] 0 bs = bs" by (simp add: overlay_def)
  ultimately show ?thesis using f d t fbs by (cases "bs = []") (simp_all add: save_db_def fopen_write fwrite_item_def Let_def)
qed

text \<open>C20: 
  What has not changed is not reported: when a program prints the lines its data base file holds and the second buffer is large enough for
  them, the answer is empty and the file is written back as it is. The lines have neither null bytes nor percent signs and less than 4095 bytes.
\<close>

theorem db_diff_unchanged:
  assumes runs: "program S prog [name] files = (line_text ls, Some 0, files1)" "pipe_ok S" "fork_ok S" "fdopen_ok S"
    and db: "files1 db = Some f" "f_bytes f = line_text ls" "\<not> denied (kern S) db" "\<not> full (kern S) db (length (line_text ls))"
    and ls: "\<forall>l \<in> set ls. plain_line l"
    and a: "buf_ok (buf a)" "0 < buffer_size (buf a)" "buf_ok (buf2 a)"
      "length (line_text ls) + 2 \<le> buffer_size (buf2 a)" "buffer_size (buf2 a) \<le> 262144"
  shows "\<exists>a'. db_diff S prog name db a files = Inr ([], a', files1) \<and> tmpDir a' = tmpDir a"
proof -
  note plain = plain_text [OF ls]
  obtain b where b: "clear_buffer (buf a) = Inr b" "holds_text b [] (buffer_size (buf a))" using clear_buffer_holds [OF a(1,2)] by blast
  have size: "0 < buffer_size (buf2 a)" using a(4) by simp
  obtain b2 where b2: "clear_buffer (buf2 a) = Inr b2" "holds_text b2 [] (buffer_size (buf2 a))"
    using clear_buffer_holds [OF a(3) size] by blast
  have "\<forall>l \<in> set (map (\<lambda>l. l @ [10]) ls). 0 \<notin> set l \<and> \<not> find_proc l" using ls by (auto simp: plain_line_def)
  then obtain c2 where c2: "add_lines (mcore S) find_proc (map (\<lambda>l. l @ [10]) ls) b2 = Inr c2"
      "holds_text c2 ([] @ concat (map (\<lambda>l. l @ [10]) ls)) (buffer_size (buf2 a))"
    using add_lines_holds [OF b2(2), of "map (\<lambda>l. l @ [10]) ls" find_proc "mcore S"] a(4,5) by (auto simp: line_text_def)
  have new: "buffer_text c2 = Inr (line_text ls)"
    using buffer_text_holds [OF c2(2)] plain(1) by (simp add: line_text_def)
  have "text_lines (line_text ls) (map (\<lambda>l. l @ [10]) ls)" using plain by (simp add: text_lines_def)
  then have none: "new_lines (mcore S) (line_text ls) 0 (filter (\<lambda>l. l \<noteq> []) ls) b = Inr b"
    using new_lines_none [of "line_text ls" "map (\<lambda>l. l @ [10]) ls" ls 0 0] by simp
  have old: "buffer_text b = Inr []" using buffer_text_holds [OF b(2)] by simp
  have "collect_args [Some name] = [name]" by (simp add: collect_args_def)
  then have e: "safe_exec_pipe S prog [Some name] files = (Started (line_text ls) (Some 0), files1)"
    using runs by (simp add: safe_exec_pipe_def)
  have "save_db S db (line_text ls) [] files1 = Inr ([], files1)"
    using save_db_same [of files1 db f S "[]"] db plain(2) by simp
  with b(1) b2(1) c2(1) new none old e runs(4) db show ?thesis
    by (simp add: db_diff_def child_failed_def plain(3,4) fopen_read)
qed

lemma db_diff_unchanged_witness:
  "\<exists>a'. db_diff (sample_machine\<lparr>program := \<lambda>_ _ files. ([65, 10, 66, 10], Some 0, files)\<rparr>) None [120] [100]
      \<lparr>buf = sample_block 64, buf2 = sample_block 64, tmpDir = No_Dir\<rparr> [[100] \<mapsto> \<lparr>f_bytes = [65, 10, 66, 10], f_mode = 420\<rparr>] =
    Inr ([], a', [[100] \<mapsto> \<lparr>f_bytes = [65, 10, 66, 10], f_mode = 420\<rparr>])"
proof -
  have l: "line_text [[65], [66]] = [65, 10, 66, 10]" by (simp add: line_text_def)
  have "\<forall>l \<in> set [[65 :: byte], [66]]. plain_line l" by (simp add: plain_line_def find_proc_def str_def)
  then show ?thesis
    using db_diff_unchanged [of "sample_machine\<lparr>program := \<lambda>_ _ files. ([65, 10, 66, 10], Some 0, files)\<rparr>" None "[120]"
        "[[100] \<mapsto> \<lparr>f_bytes = [65, 10, 66, 10], f_mode = 420\<rparr>]" "[[65], [66]]" "[[100] \<mapsto> \<lparr>f_bytes = [65, 10, 66, 10], f_mode = 420\<rparr>]"
        "[100]" "\<lparr>f_bytes = [65, 10, 66, 10], f_mode = 420\<rparr>" "\<lparr>buf = sample_block 64, buf2 = sample_block 64, tmpDir = No_Dir\<rparr>"]
    by (auto simp: l sample_machine_def sample_block_def buf_ok_def bytes_of_def)
qed

end
