(* ===== verification/Sutil_Heap.thy ===== *)
theory Sutil_Heap
  imports Sutil
begin

text \<open>
  The arrays of strings of sutil.c where they are: a \<open>char **\<close> is the address of a block of pointers, the last
  one NULL, to blocks with one string each. The theory \<open>Sutil\<close> has them as lists; here \<open>array_push\<close>, \<open>array_reverse\<close> and
  \<open>array_free\<close> are shown to do on the blocks what it says and to keep account of them.
\<close>

section \<open>The heap\<close>

text \<open>
  The blocks of pointers and of strings. Where the next block is, given the addresses that are taken and its size, is an
  input, and so is what a block that has grown holds behind its old content.
\<close>

record c_heap =
  vecs :: "addr \<rightharpoonup> addr list"
  texts :: "addr \<rightharpoonup> byte list"

record c_alloc =
  new_block :: "addr set \<Rightarrow> nat \<Rightarrow> addr option"
  junk_ptr :: addr

definition taken :: "c_heap \<Rightarrow> addr set" where
  "taken H = dom (vecs H) \<union> dom (texts H)"

definition vec_get :: "c_heap \<Rightarrow> addr \<Rightarrow> nat \<Rightarrow> addr res" where
  "vec_get H array i =
     (case vecs H array of None \<Rightarrow> Inl Dangling | Some ps \<Rightarrow> if i < length ps then Inr (ps ! i) else Inl Out_Of_Bounds)"

definition vec_put :: "c_heap \<Rightarrow> addr \<Rightarrow> nat \<Rightarrow> addr \<Rightarrow> c_heap res" where
  "vec_put H array i p =
     (case vecs H array of
        None \<Rightarrow> Inl Dangling
      | Some ps \<Rightarrow> if i < length ps then Inr (H\<lparr>vecs := (vecs H)(array \<mapsto> ps[i := p])\<rparr>) else Inl Out_Of_Bounds)"

text \<open>\<open>realloc\<close> to \<open>n\<close> pointers, the block may stay where it is; \<open>strdup\<close> and \<open>free\<close> of a string and of a block of pointers.\<close>

definition realloc_vec :: "c_alloc \<Rightarrow> c_heap \<Rightarrow> addr \<Rightarrow> nat \<Rightarrow> (addr \<times> c_heap) res" where
  "realloc_vec E H array n =
     (if array \<noteq> 0 \<and> vecs H array = None then Inl Dangling
      else let old = (case vecs H array of None \<Rightarrow> [] | Some ps \<Rightarrow> ps)
           in case new_block E (taken H - {array}) (n * 8) of
                None \<Rightarrow> Inr (0, H)
              | Some a \<Rightarrow> Inr (a, H\<lparr>vecs := (vecs H)(array := None, a \<mapsto> take n old @ replicate (n - length old) (junk_ptr E))\<rparr>))"

definition strdup :: "c_alloc \<Rightarrow> c_heap \<Rightarrow> byte list \<Rightarrow> addr \<times> c_heap" where
  "strdup E H s =
     (case new_block E (taken H) (length s + 1) of None \<Rightarrow> (0, H) | Some p \<Rightarrow> (p, H\<lparr>texts := (texts H)(p \<mapsto> s)\<rparr>))"

definition free_text :: "c_heap \<Rightarrow> addr \<Rightarrow> c_heap res" where
  "free_text H p = (if p = 0 then Inr H else if texts H p = None then Inl Dangling else Inr (H\<lparr>texts := (texts H)(p := None)\<rparr>))"

definition free_vec :: "c_heap \<Rightarrow> addr \<Rightarrow> c_heap res" where
  "free_vec H p = (if p = 0 then Inr H else if vecs H p = None then Inl Dangling else Inr (H\<lparr>vecs := (vecs H)(p := None)\<rparr>))"

definition string_at :: "c_heap \<Rightarrow> addr \<Rightarrow> byte list res" where
  "string_at H p = (if p = 0 then Inl Null_Deref else case texts H p of None \<Rightarrow> Inl Dangling | Some s \<Rightarrow> Inr s)"

section \<open>The functions\<close>

text \<open>\<open>while(array && array[i]) i++;\<close>\<close>

abbreviation vec_left :: "c_heap \<Rightarrow> addr \<Rightarrow> nat \<Rightarrow> nat" where
  "vec_left H array i \<equiv> (case vecs H array of None \<Rightarrow> 0 | Some ps \<Rightarrow> length ps - i)"

lemma vec_get_Inr: "vec_get H array i = Inr p \<longleftrightarrow> (\<exists>ps. vecs H array = Some ps \<and> i < length ps \<and> p = ps ! i)"
  by (auto simp: vec_get_def split: option.splits)

function vec_len :: "c_heap \<Rightarrow> addr \<Rightarrow> nat \<Rightarrow> nat res" where
  "vec_len H array i =
     (if array = 0 then Inr i
      else bind_res (vec_get H array i) (\<lambda>p. if p = 0 then Inr i else vec_len H array (i + 1)))"
  by pat_completeness auto
termination
  by (relation "measure (\<lambda>(H, array, i). vec_left H array i)") (auto simp: vec_get_Inr)

declare vec_len.simps [simp del]

definition heap_push :: "c_alloc \<Rightarrow> c_heap \<Rightarrow> addr \<Rightarrow> byte list \<Rightarrow> (addr \<times> c_heap) res" where
  "heap_push E H array s =
     bind_res (vec_len H array 0) (\<lambda>i.
     bind_res (realloc_vec E H array (i + 2)) (\<lambda>(a, H1).
       if a = 0 then Inl Aborted
       else let (p, H2) = strdup E H1 s
            in bind_res (vec_put H2 a i p) (\<lambda>H3. bind_res (vec_put H3 a (i + 1) 0) (\<lambda>H4. Inr (a, H4)))))"

function free_strings :: "c_heap \<Rightarrow> addr \<Rightarrow> nat \<Rightarrow> c_heap res" where
  "free_strings H array i =
     (if array = 0 then Inr H
      else bind_res (vec_get H array i) (\<lambda>p.
           if p = 0 then Inr H else bind_res (free_text H p) (\<lambda>H'. free_strings H' array (i + 1))))"
  by pat_completeness auto
termination
  by (relation "measure (\<lambda>(H, array, i). vec_left H array i)") (auto simp: vec_get_Inr free_text_def split: if_splits)

declare free_strings.simps [simp del]

definition array_free :: "c_heap \<Rightarrow> addr \<Rightarrow> c_heap res" where
  "array_free H array = bind_res (free_strings H array 0) (\<lambda>H'. free_vec H' array)"

fun heap_reverse_loop :: "c_alloc \<Rightarrow> c_heap \<Rightarrow> addr \<Rightarrow> addr \<Rightarrow> nat \<Rightarrow> (addr \<times> c_heap) res" where
  "heap_reverse_loop E H new_array array 0 = Inr (new_array, H)"
| "heap_reverse_loop E H new_array array (Suc len) =
     bind_res (vec_get H array len) (\<lambda>p.
     bind_res (string_at H p) (\<lambda>s.
     bind_res (heap_push E H new_array s) (\<lambda>(a, H'). heap_reverse_loop E H' a array len)))"

definition heap_reverse :: "c_alloc \<Rightarrow> c_heap \<Rightarrow> addr \<Rightarrow> (addr \<times> c_heap) res" where
  "heap_reverse E H array =
     bind_res (vec_len H array 0) (\<lambda>len.
       if len = 0 then Inr (array, H)
       else bind_res (heap_reverse_loop E H 0 array len) (\<lambda>(a, H'). bind_res (array_free H' array) (\<lambda>H''. Inr (a, H''))))"

section \<open>Arrays as lists\<close>

text \<open>
  The array at an address is a list of strings (\<open>array_at\<close>); \<open>array_blocks\<close> are the addresses it is made of. A heap is well-formed when NULL is no block
  and no address is both kinds.
\<close>

definition heap_ok :: "c_heap \<Rightarrow> bool" where
  "heap_ok H \<longleftrightarrow> 0 \<notin> taken H \<and> dom (vecs H) \<inter> dom (texts H) = {}"

definition array_at :: "c_heap \<Rightarrow> addr \<Rightarrow> addr list \<Rightarrow> strv \<Rightarrow> bool" where
  "array_at H array ps a \<longleftrightarrow>
     (case a of
        None \<Rightarrow> array = 0 \<and> ps = []
      | Some xs \<Rightarrow> array \<noteq> 0 \<and> (\<exists>rest. vecs H array = Some (ps @ 0 # rest)) \<and> 0 \<notin> set ps \<and> distinct ps \<and> map (texts H) ps = map Some xs)"

definition array_blocks :: "addr \<Rightarrow> addr list \<Rightarrow> addr set" where
  "array_blocks array ps = (if array = 0 then {} else insert array (set ps))"

text \<open>Memory for blocks of the sizes \<open>M\<close> allows, as long as there are less than \<open>k\<close> blocks.\<close>

definition allocates :: "c_alloc \<Rightarrow> room \<Rightarrow> nat \<Rightarrow> bool" where
  "allocates E M k \<longleftrightarrow> (\<forall>U n. card U < k \<longrightarrow>
     (case new_block E U n of None \<Rightarrow> \<not> M n | Some p \<Rightarrow> M n \<and> p \<noteq> 0 \<and> p \<notin> U))"

lemma allocates_Some: "allocates E M k \<Longrightarrow> card U < k \<Longrightarrow> M n \<Longrightarrow> \<exists>p. new_block E U n = Some p \<and> p \<noteq> 0 \<and> p \<notin> U"
  unfolding allocates_def by (drule spec [of _ U], drule spec [of _ n]) (auto split: option.splits)

lemma allocates_None: "allocates E M k \<Longrightarrow> card U < k \<Longrightarrow> \<not> M n \<Longrightarrow> new_block E U n = None"
  unfolding allocates_def by (drule spec [of _ U], drule spec [of _ n]) (auto split: option.splits)

lemma vec_len_at:
  "array \<noteq> 0 \<Longrightarrow> vecs H array = Some (ps @ 0 # rest) \<Longrightarrow> 0 \<notin> set ps \<Longrightarrow> i \<le> length ps \<Longrightarrow> vec_len H array i = Inr (length ps)"
proof (induction "length ps - i" arbitrary: i)
  case 0
  then have "i = length ps" by simp
  with 0 show ?case by (subst vec_len.simps) (simp add: vec_get_def)
next
  case (Suc d)
  then have i: "i < length ps" by simp
  have "ps ! i \<noteq> 0" using Suc.prems(3) nth_mem [OF i] by metis
  with i have "(ps @ 0 # rest) ! i \<noteq> 0" by (simp add: nth_append)
  with Suc i show ?case by (subst vec_len.simps) (simp add: vec_get_def)
qed

lemma array_len: "array_at H array ps a \<Longrightarrow> vec_len H array 0 = Inr (length ps) \<and> length ps = length (elems a)"
proof (cases a)
  case None
  moreover assume "array_at H array ps a"
  ultimately show ?thesis by (simp add: array_at_def elems_def vec_len.simps [of H 0 0])
next
  case (Some xs)
  assume "array_at H array ps a"
  with Some obtain rest where "array \<noteq> 0" "vecs H array = Some (ps @ 0 # rest)" "0 \<notin> set ps" "map (texts H) ps = map Some xs"
    by (auto simp: array_at_def)
  then show ?thesis using vec_len_at [of array H ps rest 0] map_eq_imp_length_eq [of "texts H" ps Some xs] Some
    by (simp add: elems_def)
qed

lemma array_at_used: "array_at H array ps a \<Longrightarrow> array_blocks array ps \<subseteq> taken H"
proof (cases a)
  case (Some xs)
  moreover assume "array_at H array ps a"
  ultimately have a: "\<exists>rest. vecs H array = Some (ps @ 0 # rest)" and t: "map (texts H) ps = map Some xs" by (auto simp: array_at_def)
  have "texts H p \<noteq> None" if "p \<in> set ps" for p
  proof -
    have "texts H p \<in> set (map (texts H) ps)" using that by simp
    then show ?thesis unfolding t by auto
  qed
  with a show ?thesis by (auto simp: array_blocks_def taken_def)
qed (simp add: array_at_def array_blocks_def)

text \<open>An array does not notice what happens to other blocks.\<close>

definition same_at :: "addr set \<Rightarrow> c_heap \<Rightarrow> c_heap \<Rightarrow> bool" where
  "same_at S H H' \<longleftrightarrow> (\<forall>p \<in> S. vecs H' p = vecs H p \<and> texts H' p = texts H p)"

lemma same_at_array: "array_at H array ps a \<Longrightarrow> same_at (array_blocks array ps) H H' \<Longrightarrow> array_at H' array ps a"
proof (cases a)
  case (Some xs)
  assume a: "array_at H array ps a" and s: "same_at (array_blocks array ps) H H'"
  with Some have "array \<noteq> 0" by (simp add: array_at_def)
  with s have "vecs H' array = vecs H array" "map (texts H') ps = map (texts H) ps" by (simp_all add: same_at_def array_blocks_def)
  with a Some show ?thesis by (simp add: array_at_def)
qed (simp add: array_at_def)

lemma same_at_trans: "same_at S H H' \<Longrightarrow> same_at S H' H'' \<Longrightarrow> same_at S H H''"
  by (simp add: same_at_def)

lemma same_at_mono: "same_at S H H' \<Longrightarrow> T \<subseteq> S \<Longrightarrow> same_at T H H'"
  by (auto simp: same_at_def)

section \<open>Pushing\<close>

lemma realloc_array:
  assumes a: "array_at H array ps a" and H: "heap_ok H" and E: "allocates E M k" "card (taken H) < k" and M: "M ((length ps + 2) * 8)"
  obtains v x y where "realloc_vec E H array (length ps + 2) = Inr (v, H\<lparr>vecs := (vecs H)(array := None, v \<mapsto> ps @ [x, y])\<rparr>)"
    "v \<noteq> 0" "v \<notin> taken H - {array}"
proof -
  have "card (taken H - {array}) < k" using E(2) by (meson card_mono Diff_subset finite le_less_trans)
  from allocates_Some [OF E(1) this M] obtain v where v: "new_block E (taken H - {array}) ((length ps + 2) * 8) = Some v" "v \<noteq> 0"
    "v \<notin> taken H - {array}" by blast
  show thesis
  proof (cases a)
    case None
    then have "array = 0" "ps = []" using a by (simp_all add: array_at_def)
    moreover have "vecs H 0 = None" using H by (auto simp: heap_ok_def taken_def)
    ultimately show thesis using v that [of v "junk_ptr E" "junk_ptr E"] by (simp add: realloc_vec_def numeral_2_eq_2)
  next
    case (Some xs)
    then obtain rest where "array \<noteq> 0" "vecs H array = Some (ps @ 0 # rest)" using a by (auto simp: array_at_def)
    then show thesis using v that [of v 0 "hd (rest @ [junk_ptr E])"]
      by (cases rest) (simp_all add: realloc_vec_def numeral_2_eq_2)
  qed
qed

text \<open>The two pointers that are written behind the old ones, whatever was there.\<close>

lemma put_two:
  assumes "vecs H v = Some (ps @ [x, y])"
  shows "bind_res (vec_put H v (length ps) p) (\<lambda>H3. bind_res (vec_put H3 v (length ps + 1) 0) (\<lambda>H4. Inr (v, H4))) =
    Inr (v, H\<lparr>vecs := (vecs H)(v \<mapsto> ps @ [p, 0])\<rparr>)"
  using assms by (simp add: vec_put_def list_update_append)

text \<open>
  An array in other blocks than before: the blocks of the array it replaces are free, its own are new, all others are as they were.
\<close>

definition moved :: "c_heap \<Rightarrow> addr \<Rightarrow> addr list \<Rightarrow> c_heap \<Rightarrow> addr \<Rightarrow> addr list \<Rightarrow> bool" where
  "moved H array ps H' v qs \<longleftrightarrow> heap_ok H' \<and> taken H' = (taken H - array_blocks array ps) \<union> array_blocks v qs \<and>
     (taken H - array_blocks array ps) \<inter> array_blocks v qs = {} \<and> same_at (taken H - array_blocks array ps) H H'"

lemma moved_others: "moved H array ps H' v qs \<Longrightarrow> taken H' - array_blocks v qs = taken H - array_blocks array ps"
  by (auto simp: moved_def)

lemma moved_trans: "moved H array ps H' v qs \<Longrightarrow> moved H' v qs H'' w rs \<Longrightarrow> moved H array ps H'' w rs"
  using moved_others [of H array ps H' v qs] by (auto simp: moved_def intro: same_at_trans)

text \<open>What is known of an array in one heap.\<close>

lemma array_facts:
  assumes a: "array_at H array ps a" and H: "heap_ok H"
  shows "0 \<notin> set ps" "distinct ps" "map (texts H) ps = map Some (elems a)" "texts H array = None" "set ps \<subseteq> taken H - {array}"
    "taken H - array_blocks array ps = taken H - {array} - set ps" "0 \<notin> taken H" "dom (vecs H) \<inter> dom (texts H) = {}"
proof -
  show z: "0 \<notin> taken H" "dom (vecs H) \<inter> dom (texts H) = {}" using H by (simp_all add: heap_ok_def)
  show "0 \<notin> set ps" "distinct ps" and t: "map (texts H) ps = map Some (elems a)"
    using a by (auto simp: array_at_def elems_def split: option.splits)
  have "array = 0 \<or> array \<in> dom (vecs H)" using a by (auto simp: array_at_def split: option.splits)
  with z show n: "texts H array = None" by (auto simp: taken_def)
  have "texts H q \<noteq> None" if "q \<in> set ps" for q
  proof -
    have "texts H q \<in> set (map (texts H) ps)" using that by simp
    then show ?thesis unfolding t by auto
  qed
  moreover from this n have "array \<notin> set ps" by metis
  ultimately show s: "set ps \<subseteq> taken H - {array}" by (auto simp: taken_def)
  have "array = 0 \<Longrightarrow> ps = []" using a by (auto simp: array_at_def split: option.splits)
  with z show "taken H - array_blocks array ps = taken H - {array} - set ps" by (auto simp: array_blocks_def)
qed

lemma movedI:
  assumes a: "array_at H array ps a" and H: "heap_ok H" and v: "v \<noteq> 0" "v \<notin> taken H - {array}"
    and vecs: "vecs H' = (vecs H)(array := None, v \<mapsto> c)"
    and texts: "dom (texts H') = dom (texts H) \<union> P" "\<forall>q. q \<notin> P \<longrightarrow> texts H' q = texts H q"
    and P: "P \<inter> (taken H - {array}) = {}" "v \<notin> P" "0 \<notin> P" and qs: "set qs = set ps \<union> P"
  shows "moved H array ps H' v qs"
proof -
  note f = array_facts [OF a H]
  have dv: "dom (vecs H') = insert v (dom (vecs H) - {array})" using vecs by auto
  have t: "array \<notin> dom (texts H)" "v \<notin> dom (texts H)" using v f(4) by (auto simp: taken_def)
  have u: "taken H' = insert v (taken H - {array}) \<union> P" using t unfolding taken_def dv texts(1) by blast
  have "dom (vecs H') \<inter> dom (texts H') = {}" using f(8) t P unfolding dv texts(1) taken_def by blast
  moreover have "0 \<notin> taken H'" using f(7) v P unfolding u by blast
  moreover have b: "array_blocks v qs = insert v (set ps \<union> P)" using v qs by (simp add: array_blocks_def)
  moreover have "taken H' = (taken H - array_blocks array ps) \<union> array_blocks v qs" using f(5) unfolding u f(6) b by blast
  moreover have "(taken H - array_blocks array ps) \<inter> array_blocks v qs = {}" using v P unfolding f(6) b by blast
  moreover have "same_at (taken H - array_blocks array ps) H H'" unfolding same_at_def f(6)
  proof
    fix q assume q: "q \<in> taken H - {array} - set ps"
    then have "q \<noteq> array" "q \<noteq> v" "q \<notin> P" using v P by auto
    with vecs texts(2) show "vecs H' q = vecs H q \<and> texts H' q = texts H q" by simp
  qed
  ultimately show ?thesis by (simp add: moved_def heap_ok_def)
qed

lemma pushed_without:
  assumes a: "array_at H array ps a" and H: "heap_ok H" and v: "v \<noteq> 0" "v \<notin> taken H - {array}"
  defines "H' \<equiv> H\<lparr>vecs := (vecs H)(array := None, v \<mapsto> ps @ [0, 0])\<rparr>"
  shows "array_at H' v ps (Some (elems a))" "moved H array ps H' v ps"
proof -
  show "array_at H' v ps (Some (elems a))" using array_facts(1-3) [OF a H] v by (simp add: array_at_def H'_def)
  show "moved H array ps H' v ps" by (rule movedI [OF a H v, where P = "{}" and c = "ps @ [0, 0]"]) (simp_all add: H'_def)
qed

lemma pushed_with:
  fixes s :: "byte list"
  assumes a: "array_at H array ps a" and H: "heap_ok H" and v: "v \<noteq> 0" "v \<notin> taken H - {array}"
    and p: "p \<noteq> 0" "p \<noteq> v" "p \<notin> taken H - {array}"
  defines "H' \<equiv> H\<lparr>vecs := (vecs H)(array := None, v \<mapsto> ps @ [p, 0]), texts := (texts H)(p \<mapsto> s)\<rparr>"
  shows "array_at H' v (ps @ [p]) (Some (elems a @ [s]))" "moved H array ps H' v (ps @ [p])"
proof -
  note f = array_facts [OF a H]
  have ps: "p \<notin> set ps" using p(3) f(5) by auto
  then have "map (texts H') ps = map (texts H) ps" by (auto simp: H'_def)
  with f(1-3) ps v p show "array_at H' v (ps @ [p]) (Some (elems a @ [s]))" by (simp add: array_at_def) (simp add: H'_def)
  show "moved H array ps H' v (ps @ [p])"
    by (rule movedI [OF a H v, where P = "{p}" and c = "ps @ [p, 0]"]) (use p in \<open>auto simp: H'_def\<close>)
qed

text \<open>
  \<open>array_push\<close> on the heap gives the array its list model gives, in blocks of its own, or stops where that one stops; no
  other block is changed, and none is lost.
\<close>

lemma heap_push_refines:
  assumes a: "array_at H array ps a" and H: "heap_ok H" and E: "allocates E M k" "card (taken H) + 1 < k"
  shows "case array_push M a s of
      Inl e \<Rightarrow> heap_push E H array s = Inl e
    | Inr a' \<Rightarrow> \<exists>v H' qs. heap_push E H array s = Inr (v, H') \<and> array_at H' v qs a' \<and> moved H array ps H' v qs \<and>
        length qs \<le> length ps + 1"
proof -
  note len = array_len [OF a]
  show ?thesis
  proof (cases "M ((length ps + 2) * 8)")
    case False
    have "card (taken H - {array}) < k" using E(2) card_mono [of "taken H" "taken H - {array}"] by simp
    with allocates_None [OF E(1) _ False] have "realloc_vec E H array (length ps + 2) = Inr (0, H)"
      using a by (cases a) (auto simp: realloc_vec_def array_at_def)
    with False len show ?thesis by (simp add: array_push_def Let_def heap_push_def)
  next
    case True
    have "card (taken H) < k" using E(2) by simp
    then obtain v x y where v: "realloc_vec E H array (length ps + 2) = Inr (v, H\<lparr>vecs := (vecs H)(array := None, v \<mapsto> ps @ [x, y])\<rparr>)"
      "v \<noteq> 0" "v \<notin> taken H - {array}" by (rule realloc_array [OF a H E(1) _ True])
    let ?H1 = "H\<lparr>vecs := (vecs H)(array := None, v \<mapsto> ps @ [x, y])\<rparr>"
    have u1: "taken ?H1 = insert v (taken H - {array})" using array_facts(4) [OF a H] by (auto simp: taken_def)
    have "card (taken H - {array}) \<le> card (taken H)" by (rule card_mono) auto
    then have c: "card (taken ?H1) < k" using E(2) card_insert_le_m1 [of "card (taken H) + 1" "taken H - {array}" v] by (simp add: u1)
    show ?thesis
    proof (cases "M (length s + 1)")
      case False
      from allocates_None [OF E(1) c False] have "heap_push E H array s = Inr (v, ?H1\<lparr>vecs := (vecs ?H1)(v \<mapsto> ps @ [0, 0])\<rparr>)"
        using len v(1,2) put_two [of ?H1 v ps x y 0] by (simp add: heap_push_def strdup_def)
      moreover have "?H1\<lparr>vecs := (vecs ?H1)(v \<mapsto> ps @ [0, 0])\<rparr> = H\<lparr>vecs := (vecs H)(array := None, v \<mapsto> ps @ [0, 0])\<rparr>" by simp
      moreover have "array_push M a s = Inr (Some (elems a))" using len True False by (simp add: array_push_def Let_def)
      moreover have "length ps \<le> length ps + 1" by simp
      ultimately show ?thesis using pushed_without [OF a H v(2,3)] by (simp only: sum.case) blast
    next
      case m: True
      from allocates_Some [OF E(1) c m] obtain p where p: "new_block E (taken ?H1) (length s + 1) = Some p" "p \<noteq> 0" "p \<notin> taken ?H1" by blast
      have "heap_push E H array s = Inr (v, ?H1\<lparr>texts := (texts H)(p \<mapsto> s), vecs := (vecs ?H1)(v \<mapsto> ps @ [p, 0])\<rparr>)"
        using len v(1,2) p(1) put_two [of "?H1\<lparr>texts := (texts H)(p \<mapsto> s)\<rparr>" v ps x y p] by (simp add: heap_push_def strdup_def)
      moreover have "?H1\<lparr>texts := (texts H)(p \<mapsto> s), vecs := (vecs ?H1)(v \<mapsto> ps @ [p, 0])\<rparr> =
          H\<lparr>vecs := (vecs H)(array := None, v \<mapsto> ps @ [p, 0]), texts := (texts H)(p \<mapsto> s)\<rparr>" by simp
      moreover have "p \<noteq> v" "p \<notin> taken H - {array}" using p(3) u1 by auto
      moreover have "array_push M a s = Inr (Some (elems a @ [s]))" using len True m by (simp add: array_push_def Let_def)
      moreover have "length (ps @ [p]) \<le> length ps + 1" by simp
      ultimately show ?thesis using pushed_with [OF a H v(2,3) p(2), of s] by (simp only: sum.case) blast
    qed
  qed
qed

section \<open>Freeing\<close>

lemma free_strings_at:
  assumes "array \<noteq> 0" and "0 \<notin> set ps" and "distinct ps"
  shows "vecs H array = Some (ps @ 0 # rest) \<Longrightarrow> i \<le> length ps \<Longrightarrow> \<forall>q \<in> set (drop i ps). texts H q \<noteq> None \<Longrightarrow>
    free_strings H array i = Inr (H\<lparr>texts := \<lambda>q. if q \<in> set (drop i ps) then None else texts H q\<rparr>)"
proof (induction "length ps - i" arbitrary: i H)
  case 0
  then have "i = length ps" by simp
  with 0 assms(1) show ?case by (subst free_strings.simps) (simp add: vec_get_def)
next
  case (Suc d)
  then have i: "i < length ps" by simp
  have z: "ps ! i \<noteq> 0" using assms(2) nth_mem [OF i] by metis
  have d: "drop i ps = ps ! i # drop (Suc i) ps" using i by (simp add: Cons_nth_drop_Suc)
  have n: "ps ! i \<notin> set (drop (Suc i) ps)" using assms(3) distinct_drop [of ps i] by (simp add: d)
  let ?H = "H\<lparr>texts := (texts H)(ps ! i := None)\<rparr>"
  have f: "free_text H (ps ! i) = Inr ?H" using Suc.prems(3) z by (auto simp: free_text_def d)
  have "free_strings ?H array (Suc i) = Inr (?H\<lparr>texts := \<lambda>q. if q \<in> set (drop (Suc i) ps) then None else texts ?H q\<rparr>)"
    by (rule Suc.hyps(1)) (use Suc.hyps(2) Suc.prems i n in \<open>auto simp: d\<close>)
  moreover have "?H\<lparr>texts := \<lambda>q. if q \<in> set (drop (Suc i) ps) then None else texts ?H q\<rparr> =
      H\<lparr>texts := \<lambda>q. if q \<in> set (drop i ps) then None else texts H q\<rparr>" by (auto simp: d fun_eq_iff)
  ultimately show ?case using assms(1) i z f Suc.prems(1)
    by (subst free_strings.simps) (simp add: vec_get_def nth_append)
qed

text \<open>\<open>array_free\<close> frees the blocks of an array and no others.\<close>

lemma array_free_exactly:
  assumes a: "array_at H array ps a" and H: "heap_ok H"
  obtains H' where "array_free H array = Inr H'" "taken H' = taken H - array_blocks array ps" "heap_ok H'"
    "same_at (taken H - array_blocks array ps) H H'"
proof (cases a)
  case None
  with a have "array = 0" "ps = []" by (simp_all add: array_at_def)
  with H show thesis
    by (intro that [of H]) (simp_all add: array_free_def free_strings.simps [of H 0 0] free_vec_def array_blocks_def same_at_def)
next
  case (Some xs)
  then obtain rest where r: "array \<noteq> 0" "vecs H array = Some (ps @ 0 # rest)" using a by (auto simp: array_at_def)
  note f = array_facts [OF a H]
  have t: "\<forall>q \<in> set (drop 0 ps). texts H q \<noteq> None"
  proof
    fix q assume "q \<in> set (drop 0 ps)"
    then have "texts H q \<in> set (map Some (elems a))" using f(3) by (metis drop0 imageI set_map)
    then show "texts H q \<noteq> None" by auto
  qed
  let ?H = "H\<lparr>texts := \<lambda>q. if q \<in> set ps then None else texts H q, vecs := (vecs H)(array := None)\<rparr>"
  have free: "array_free H array = Inr ?H"
    using free_strings_at [OF r(1) f(1,2) r(2) _ t] r by (simp add: array_free_def free_vec_def)
  have b: "array_blocks array ps = insert array (set ps)" using r(1) by (simp add: array_blocks_def)
  have nv: "vecs H q = None" if "q \<in> set ps" for q using that t f(8) by auto
  have u: "taken ?H = taken H - array_blocks array ps" unfolding b using nv f(4) by (auto simp: taken_def split: if_splits)
  moreover have "heap_ok ?H" using u f(7,8) by (auto simp: heap_ok_def split: if_splits)
  moreover have "same_at (taken H - array_blocks array ps) H ?H" by (auto simp: same_at_def b)
  ultimately show thesis using free by (rule that [rotated])
qed

section \<open>Reversing\<close>

lemma card_used:
  assumes "moved H0 a0 ps0 H v qs"
  shows "card (taken H) \<le> card (taken H0 - array_blocks a0 ps0) + 1 + length qs"
proof -
  have "card (array_blocks v qs) \<le> 1 + length qs"
    using card_length [of qs] card_insert_le_m1 [of "1 + length qs" "set qs" v] by (auto simp: array_blocks_def)
  moreover have "card (taken H) \<le> card (taken H0 - array_blocks a0 ps0) + card (array_blocks v qs)"
    using assms by (simp add: moved_def card_Un_le)
  ultimately show ?thesis by simp
qed

text \<open>The loop copies the strings of an array that stays where it is.\<close>

lemma heap_reverse_loop_refines:
  assumes E: "allocates E M k" and old: "array_at H0 array ps (Some xs)"
  shows "moved H0 0 [] H nw qs \<Longrightarrow> array_at H nw qs b \<Longrightarrow> len \<le> length ps \<Longrightarrow> card (taken H0) + length qs + len + 1 < k \<Longrightarrow>
    case reverse_loop M b xs len of
      Inl e \<Rightarrow> heap_reverse_loop E H nw array len = Inl e
    | Inr b' \<Rightarrow> \<exists>v H' qs'. heap_reverse_loop E H nw array len = Inr (v, H') \<and> array_at H' v qs' b' \<and> moved H0 0 [] H' v qs'"
proof (induction len arbitrary: H nw qs b)
  case 0
  then show ?case by auto
next
  case (Suc len)
  have "array_blocks array ps \<subseteq> taken H0 - array_blocks 0 []" using array_at_used [OF old] by (simp add: array_blocks_def)
  then have here: "array_at H array ps (Some xs)"
    using Suc.prems(1) same_at_array [OF old] same_at_mono by (auto simp: moved_def)
  have H: "heap_ok H" using Suc.prems(1) by (simp add: moved_def)
  have len: "len < length ps" using Suc.prems(3) by simp
  note f = array_facts [OF here H]
  have "ps ! len \<noteq> 0" using f(1) nth_mem [OF len] by metis
  moreover have "texts H (ps ! len) = Some (xs ! len)"
    using f(3) len map_eq_imp_length_eq [OF f(3)] nth_map [OF len, of "texts H"] by (simp add: elems_def)
  ultimately have s: "string_at H (ps ! len) = Inr (xs ! len)" by (simp add: string_at_def)
  have g: "vec_get H array len = Inr (ps ! len)" using here len by (auto simp: array_at_def vec_get_def nth_append)
  have c: "card (taken H) + 1 < k" using card_used [OF Suc.prems(1)] Suc.prems(4) by (simp add: array_blocks_def)
  note push = heap_push_refines [OF Suc.prems(2) H E c, of "xs ! len"]
  show ?case
  proof (cases "array_push M b (xs ! len)")
    case (Inl e)
    with push g s show ?thesis by simp
  next
    case (Inr b1)
    with push obtain v H1 qs1 where 1: "heap_push E H nw (xs ! len) = Inr (v, H1)" "array_at H1 v qs1 b1" "moved H nw qs H1 v qs1"
      "length qs1 \<le> length qs + 1" by auto
    have "card (taken H0) + length qs1 + len + 1 < k" "len \<le> length ps" using 1(4) Suc.prems(4) len by simp_all
    note IH = Suc.IH [OF moved_trans [OF Suc.prems(1) 1(3)] 1(2) this(2,1)]
    have "heap_reverse_loop E H nw array (Suc len) = heap_reverse_loop E H1 v array len" using g s 1(1) by simp
    moreover have "reverse_loop M b xs (Suc len) = reverse_loop M b1 xs len" using Inr by simp
    ultimately show ?thesis using IH by (simp only:)
  qed
qed

text \<open>C18: 
  What \<open>array_reverse\<close> of the list model says happens in memory: the pointers and strings of the new array are in blocks of their own, those of the old
  array are freed, every one once, and no other block is changed or lost; it stops where the model stops.
\<close>

theorem heap_reverse_refines:
  assumes a: "array_at H array ps a" and H: "heap_ok H" and E: "allocates E M k" "card (taken H) + length ps + 1 < k"
  shows "case array_reverse M a of
      Inl e \<Rightarrow> heap_reverse E H array = Inl e
    | Inr a' \<Rightarrow> \<exists>v H' qs. heap_reverse E H array = Inr (v, H') \<and> array_at H' v qs a' \<and> moved H array ps H' v qs"
proof (cases "length ps = 0")
  case True
  have "moved H array ps H array ps" using H array_at_used [OF a] by (auto simp: moved_def same_at_def)
  then show ?thesis using True array_len [OF a] a by (auto simp: array_reverse_def heap_reverse_def Let_def)
next
  case False
  note len = array_len [OF a]
  obtain xs where xs: "a = Some xs" using False a by (cases a) (auto simp: array_at_def)
  have r: "array_reverse M a = reverse_loop M None xs (length ps)"
    using len False xs by (simp add: array_reverse_def elems_def Let_def)
  have start: "moved H 0 [] H 0 []" "array_at H 0 [] None" using H by (simp_all add: moved_def same_at_def array_blocks_def array_at_def)
  have k: "card (taken H) + length ([] :: addr list) + length ps + 1 < k" using E(2) by simp
  note loop = heap_reverse_loop_refines [OF E(1) a [unfolded xs] start order_refl k]
  show ?thesis
  proof (cases "reverse_loop M None xs (length ps)")
    case (Inl e)
    with loop r len False show ?thesis by (simp add: heap_reverse_def)
  next
    case (Inr b)
    with loop obtain v H1 qs where 1: "heap_reverse_loop E H 0 array (length ps) = Inr (v, H1)" "array_at H1 v qs b" "moved H 0 [] H1 v qs"
      by auto
    then have u: "taken H1 = taken H \<union> array_blocks v qs" "taken H \<inter> array_blocks v qs = {}" "same_at (taken H) H H1" "heap_ok H1"
      by (simp_all add: moved_def array_blocks_def)
    have old: "array_blocks array ps \<subseteq> taken H" by (rule array_at_used [OF a])
    have "array_at H1 array ps a" by (rule same_at_array [OF a same_at_mono [OF u(3) old]])
    then obtain H2 where 2: "array_free H1 array = Inr H2" "taken H2 = taken H1 - array_blocks array ps" "heap_ok H2"
      "same_at (taken H1 - array_blocks array ps) H1 H2" by (rule array_free_exactly [OF _ u(4)])
    have "array_blocks v qs \<subseteq> taken H1 - array_blocks array ps" using u old by blast
    with 1(2) 2(4) have "array_at H2 v qs b" by (blast intro: same_at_array same_at_mono)
    moreover have "same_at (taken H - array_blocks array ps) H H2"
      by (rule same_at_trans [of _ _ H1]) (rule same_at_mono [OF u(3)], blast, rule same_at_mono [OF 2(4)], use u(1) in blast)
    then have "moved H array ps H2 v qs" using u old 2 by (auto simp: moved_def)
    ultimately show ?thesis using 1(1) 2(1) r Inr len False by (auto simp: heap_reverse_def)
  qed
qed

text \<open>
  Two strings in blocks 24 and 32, with their pointers in block 16: the new array is at the lowest free addresses, the old one is gone.
\<close>

definition lowest :: c_alloc where
  "lowest = \<lparr>new_block = (\<lambda>U n. find (\<lambda>p. p \<notin> U) [8, 16, 24, 32, 40, 48, 56, 64, 72, 80]), junk_ptr = 7\<rparr>"

lemma find_SomeD: "find P ps = Some p \<Longrightarrow> P p \<and> p \<in> set ps"
  by (induction ps) (auto split: if_splits)

lemma lowest_allocates: "allocates lowest (\<lambda>_. True) 10"
proof -
  let ?ps = "[8, 16, 24, 32, 40, 48, 56, 64, 72, 80] :: addr list"
  have "find (\<lambda>p. p \<notin> U) ?ps \<noteq> None" if "card U < 10" for U
  proof
    assume "find (\<lambda>p. p \<notin> U) ?ps = None"
    then have "set ?ps \<subseteq> U" unfolding find_None_iff by blast
    then have "card (set ?ps) \<le> card U" by (intro card_mono) auto
    moreover have "card (set ?ps) = length ?ps" by (rule distinct_card) simp
    ultimately show False using that by simp
  qed
  moreover have "0 \<notin> set ?ps" by simp
  then have "p \<noteq> 0 \<and> p \<notin> U" if "find (\<lambda>p. p \<notin> U) ?ps = Some p" for U p
    using find_SomeD [OF that] by metis
  ultimately show ?thesis unfolding allocates_def lowest_def
    by (simp only: c_alloc.simps) (fastforce split: option.splits simp del: find.simps)
qed

definition two_strings :: c_heap where
  "two_strings = \<lparr>vecs = [16 \<mapsto> [24, 32, 0]], texts = [24 \<mapsto> [97], 32 \<mapsto> [98]]\<rparr>"

lemma heap_reverse_refines_witness:
  "\<exists>v H' qs. heap_reverse lowest two_strings 16 = Inr (v, H') \<and> array_at H' v qs (Some [[98], [97]]) \<and> taken H' = array_blocks v qs"
proof -
  have a: "array_at two_strings 16 [24, 32] (Some [[97], [98]])" by (simp add: array_at_def two_strings_def)
  have u: "taken two_strings = {16, 24, 32}" by (auto simp: taken_def two_strings_def)
  then have "heap_ok two_strings" "card (taken two_strings) + length [24, 32 :: addr] + 1 < 10"
    by (simp_all add: heap_ok_def two_strings_def)
  from heap_reverse_refines [OF a this(1) lowest_allocates this(2)]
  have "case array_reverse (\<lambda>_. True) (Some [[97], [98]]) of Inl e \<Rightarrow> heap_reverse lowest two_strings 16 = Inl e
    | Inr a' \<Rightarrow> \<exists>v H' qs. heap_reverse lowest two_strings 16 = Inr (v, H') \<and> array_at H' v qs a' \<and> moved two_strings 16 [24, 32] H' v qs" .
  moreover have "array_reverse (\<lambda>_. True) (Some [[97], [98]]) = Inr (Some [[98], [97]])"
    by (simp add: array_reverse_def array_push_def elems_def Let_def numeral_2_eq_2)
  moreover have "taken two_strings - array_blocks 16 [24, 32] = {}" by (simp add: u array_blocks_def)
  ultimately show ?thesis unfolding moved_def by (simp only: sum.case) auto
qed

end
