(* ===== verification/Device_Props.thy ===== *)
theory Device_Props
  imports Device_Info Software_Props
begin

text \<open>Properties of the suvlet DeviceInfo: the load average, and the sums over the disks.\<close>

section \<open>Scanning what was printed\<close>

lemma dropWhile_blank: "w \<noteq> [] \<Longrightarrow> \<forall>b \<in> set w. \<not> blank b \<Longrightarrow> dropWhile blank (w @ s) = w @ s"
  by (cases w) auto

lemma takeWhile_stop: "s = [] \<or> blank (hd s) \<Longrightarrow> takeWhile (\<lambda>b. \<not> blank b) s = []"
  by (cases s) auto

definition word_like :: "byte list \<Rightarrow> bool" where
  "word_like w \<longleftrightarrow> w \<noteq> [] \<and> (\<forall>b \<in> set w. \<not> blank b \<and> b \<noteq> 0)"

lemma blank_space: "blank 32"
  by (simp add: blank_def)

lemma scan_word:
  assumes "word_like w"
  shows "scan (Word n # ds) (w @ 32 # s) = bind_res (fits n w) (\<lambda>_. bind_res (scan ds (32 # s)) (\<lambda>r. Inr (Text w # r)))"
    and "scan (Skip_Word # ds) (w @ 32 # s) = scan ds (32 # s)"
    and "scan (White # ds) (32 # w @ s) = scan ds (w @ s)"
  using assms dropWhile_blank [of w] by (simp_all add: word_like_def takeWhile_stop blank_space takeWhile_append2)

lemma scan_end: "scan [White] s = Inr []"
  by simp

lemma decimal_digits_step: "10 \<le> n \<Longrightarrow> decimal_digits n = decimal_digits (n div 10) @ [48 + of_nat (n mod 10)]"
  by (subst decimal_digits.simps) simp

lemma decimal_digits_one: "n < 10 \<Longrightarrow> decimal_digits n = [48 + of_nat n]"
  by (subst decimal_digits.simps) simp

lemma digit_chars: "n < 10 \<Longrightarrow> digit (48 + of_nat n) = Some n \<and> \<not> blank (48 + of_nat n)"
proof -
  assume "n < 10"
  then have "n = 0 \<or> n = 1 \<or> n = 2 \<or> n = 3 \<or> n = 4 \<or> n = 5 \<or> n = 6 \<or> n = 7 \<or> n = 8 \<or> n = 9" by presburger
  then show ?thesis by (elim disjE) (simp_all add: digit_def blank_def)
qed

lemma decimal_digits_digits: "b \<in> set (decimal_digits n) \<Longrightarrow> digit_of 10 b \<and> \<not> blank b"
proof (induction n rule: less_induct)
  case (less n)
  show ?case
  proof (cases "n < 10")
    case True
    with less.prems digit_chars [of n] show ?thesis by (simp add: decimal_digits_one digit_of_def)
  next
    case False
    then consider "b \<in> set (decimal_digits (n div 10))" | "b = 48 + of_nat (n mod 10)"
      using less.prems by (auto simp: decimal_digits_step)
    then show ?thesis
    proof cases
      case 1
      with False show ?thesis by (intro less.IH [of "n div 10"]) simp_all
    next
      case 2
      with digit_chars [of "n mod 10"] show ?thesis by (simp add: digit_of_def)
    qed
  qed
qed

lemma number_of_digits: "number_of 10 (decimal_digits n) = n"
proof (induction n rule: less_induct)
  case (less n)
  show ?case
  proof (cases "n < 10")
    case True
    with digit_chars [of n] show ?thesis by (simp add: decimal_digits_one number_of_def)
  next
    case False
    then have "number_of 10 (decimal_digits (n div 10)) = n div 10" by (intro less.IH) simp
    with False digit_chars [of "n mod 10"] show ?thesis by (simp add: decimal_digits_step number_of_def)
  qed
qed

lemma decimal_digits_nonempty: "decimal_digits n \<noteq> []"
  by (subst decimal_digits.simps) simp

lemma hd_decimal_digits: "0 < n \<Longrightarrow> hd (decimal_digits n) \<noteq> 48"
proof (induction n rule: less_induct)
  case (less n)
  show ?case
  proof (cases "n < 10")
    case True
    with less.prems digit_chars [of n] digit_chars [of 0] show ?thesis
      by (auto simp: decimal_digits_one)
  next
    case False
    then show ?thesis using less.IH [of "n div 10"] decimal_digits_nonempty [of "n div 10"] by (simp add: decimal_digits_step)
  qed
qed

lemma base_prefix_digits:
  "s = [] \<or> blank (hd s) \<Longrightarrow> base_prefix (decimal_digits n @ s) = (if n = 0 then 8 else 10, decimal_digits n @ s)"
proof (cases "n = 0")
  case True
  assume "s = [] \<or> blank (hd s)"
  then show ?thesis using True
    by (cases s; cases "tl s") (auto simp: base_prefix_def decimal_digits_one blank_def)
next
  case False
  with hd_decimal_digits [of n] obtain d ds where "decimal_digits n = d # ds" "d \<noteq> 48"
    using decimal_digits_nonempty [of n] by (cases "decimal_digits n") auto
  with False show ?thesis by (simp add: base_prefix_def)
qed

lemma blank_not_digit: "blank b \<Longrightarrow> \<not> digit_of base b"
  by (auto simp: blank_def digit_of_def digit_def)

lemma takeWhile_digits: "s = [] \<or> blank (hd s) \<Longrightarrow> takeWhile (digit_of base) s = []"
  by (cases s) (auto simp: blank_not_digit)

lemma digit_sign: "digit_of 10 b \<Longrightarrow> b \<noteq> 45 \<and> b \<noteq> 43"
  by (auto simp: digit_of_def digit_def)

lemma digit_zero: "\<not> digit_of 10 0"
  by (simp add: digit_of_def digit_def)

lemma scan_int_digits:
  assumes "n < 2 ^ 63" and s: "s = [] \<or> blank (hd s)"
  shows "scan_int (decimal_digits n @ s) = Some (int n, s)"
proof -
  obtain d ds where d: "decimal_digits n = d # ds" using decimal_digits_nonempty [of n] by (cases "decimal_digits n") auto
  with decimal_digits_digits [of d n] digit_sign have "d \<noteq> 45" "d \<noteq> 43" by auto
  then have sign: "take 1 (decimal_digits n @ s) \<noteq> [45]" "take 1 (decimal_digits n @ s) \<noteq> [43]" by (simp_all add: d)
  have tw: "takeWhile (digit_of 10) (decimal_digits n @ s) = decimal_digits n"
    using decimal_digits_digits [of _ n] takeWhile_digits [OF s] by (simp add: takeWhile_append2)
  have "int n < 2 ^ 63" using assms(1) by (metis of_nat_less_iff of_nat_numeral of_nat_power)
  then have cut: "max (- (2 ^ 63)) (min (2 ^ 63 - 1) (int n)) = int n" by simp
  show ?thesis
  proof (cases "n = 0")
    case True
    have "takeWhile (digit_of 8) (decimal_digits 0 @ s) = [48]" "number_of 8 [48] = 0"
      using takeWhile_digits [OF s] by (simp_all add: decimal_digits_one digit_of_def digit_def number_of_def)
    with True sign base_prefix_digits [OF s, of n] show ?thesis by (simp add: scan_int_def Let_def decimal_digits_one)
  next
    case False
    with sign base_prefix_digits [OF s, of n] tw cut show ?thesis
      by (simp add: scan_int_def Let_def number_of_digits decimal_digits_nonempty)
  qed
qed

text \<open>Columns are separated by blanks: any number of spaces and tabs, at least one.\<close>

definition padding :: "byte list \<Rightarrow> bool" where
  "padding g \<longleftrightarrow> g \<noteq> [] \<and> set g \<subseteq> {32, 9}"

lemma padding_blank: "padding g \<Longrightarrow> \<forall>b \<in> set g. blank b"
  by (auto simp: padding_def blank_def)

lemma padding_hd: "padding g \<Longrightarrow> g @ s = [] \<or> blank (hd (g @ s))"
  by (cases g) (auto simp: padding_def blank_def)

lemma scan_padding:
  assumes "padding g" and "word_like w"
  shows "scan (White # ds) (g @ w @ s) = scan ds (w @ s)"
  using assms padding_blank [OF assms(1)] dropWhile_blank [of w s] by (simp add: dropWhile_append2 word_like_def)

lemma scan_skip_word:
  assumes "word_like w" and "s = [] \<or> blank (hd s)"
  shows "scan (Skip_Word # ds) (w @ s) = scan ds s"
  using assms(1) dropWhile_blank [of w] takeWhile_stop [OF assms(2)] by (simp add: word_like_def takeWhile_append2)

lemma scan_num:
  assumes "n < 2 ^ 63" and "s = [] \<or> blank (hd s)"
  shows "scan (Num # ds) (decimal_digits n @ s) = bind_res (scan ds s) (\<lambda>r. Inr (Number (int n) # r))"
  using dropWhile_blank [of "decimal_digits n" s] decimal_digits_nonempty [of n] decimal_digits_digits [of _ n]
  by (simp add: scan_int_digits [OF assms])

section \<open>The load average\<close>

text \<open>The three averages of the first line come back separated by commas, when each of them has less than ten characters; a longer one is
  written behind its array.
\<close>

theorem load_average_outcome:
  assumes "files (str ''/proc/loadavg'') = Some f" and "\<not> denied (dkern D) (str ''/proc/loadavg'')"
    and "take_line 99 (f_bytes f) = a @ 32 # b @ 32 # c @ 32 # rest" and "word_like a" "word_like b" "word_like c" "0 \<notin> set rest"
  shows "DeviceInfo_LoadAverage D files payload =
    (if length a < 10 \<and> length b < 10 \<and> length c < 10
     then Inr (a @ 44 # b @ 44 # c, a @ 44 # b @ 44 # c) else Inl Out_Of_Bounds)"
proof -
  let ?line = "a @ 32 # b @ 32 # c @ 32 # rest"
  have z: "0 \<notin> set ?line" using assms(4-7) by (auto simp: word_like_def)
  have "take_line 99 [] = []" by (simp add: take_line_nil)
  then have "f_bytes f \<noteq> []" using assms(3) by (cases "f_bytes f") simp_all
  then have msg: "nth_msg 1 (f_bytes f) 0 (stack D) = ?line"
    using assms(3) text_upto0_plain [OF z] by (simp add: fgets_def Let_def)
  have sc: "scan [Word 10, White, Word 10, White, Word 10, White] ?line =
      bind_res (fits 10 a) (\<lambda>_. bind_res (bind_res (fits 10 b) (\<lambda>_. bind_res (bind_res (fits 10 c) (\<lambda>_. Inr [Text c])) (\<lambda>r. Inr (Text b # r))))
        (\<lambda>r. Inr (Text a # r)))"
    using assms(4-6) by (simp add: scan_word scan_end del: scan.simps(2,4))
  have three: "three_words [a, b, c] = Inr (a @ 44 # b @ 44 # c, a @ 44 # b @ 44 # c)"
    if "length a < 10" "length b < 10" "length c < 10"
    using that by (simp add: three_words_def strcat_all_outcome str_def del: strcat_all.simps)
  have "open_proc D files ''/proc/loadavg'' = Some (f_bytes f)"
    using assms(1,2) by (simp add: open_proc_def fopen_read)
  then show ?thesis
    using three by (simp add: DeviceInfo_LoadAverage_def msg sc fits_def del: One_nat_def nth_msg.simps scan.simps)
qed

text \<open>A usual load, and one of ten characters.\<close>

definition sample_device :: device where
  "sample_device = \<lparr>dkern = \<lparr>denied = (\<lambda>_. False), full = (\<lambda>_ _. False), new_mode = 420, err_str = []\<rparr>,
     df = None, stack = [], strtod = (\<lambda>_. None)\<rparr>"

definition sample_loads :: "byte list \<Rightarrow> files" where
  "sample_loads a = [str ''/proc/loadavg'' \<mapsto> \<lparr>f_bytes = a @ [32, 49, 32, 50, 32, 51, 10], f_mode = 292\<rparr>]"

lemma load_average_outcome_witness:
  "DeviceInfo_LoadAverage sample_device (sample_loads [48]) [] = Inr ([48, 44, 49, 44, 50], [48, 44, 49, 44, 50]) \<and>
   DeviceInfo_LoadAverage sample_device (sample_loads ([48, 48, 48, 48, 48, 48, 48, 48, 48, 48])) [] = Inl Out_Of_Bounds"
proof -
  have "take_line 99 ([48] @ [32, 49, 32, 50, 32, 51, 10]) = [48] @ 32 # [49] @ 32 # [50] @ 32 # [51, 10]"
    "take_line 99 ([48, 48, 48, 48, 48, 48, 48, 48, 48, 48] @ [32, 49, 32, 50, 32, 51, 10]) = [48, 48, 48, 48, 48, 48, 48, 48, 48, 48] @ 32 # [49] @ 32 # [50] @ 32 # [51, 10]"
    by (simp_all add: take_line_numeral)
  then show ?thesis
    using load_average_outcome [of "sample_loads [48]" _ sample_device "[48]" "[49]" "[50]" "[51, 10]"]
      load_average_outcome [of "sample_loads ([48, 48, 48, 48, 48, 48, 48, 48, 48, 48])" _ sample_device "[48, 48, 48, 48, 48, 48, 48, 48, 48, 48]" "[49]" "[50]" "[51, 10]"]
    by (simp add: sample_loads_def sample_device_def word_like_def blank_def)
qed

section \<open>The sums over the disks\<close>

text \<open>A line of \<open>df\<close>: the file system and three numbers in padded columns, and the rest.\<close>

record disk =
  d_name :: "byte list"
  d_pad1 :: "byte list"
  d_total :: nat
  d_pad2 :: "byte list"
  d_used :: nat
  d_pad3 :: "byte list"
  d_free :: nat
  d_rest :: "byte list"

definition disk_line :: "disk \<Rightarrow> byte list" where
  "disk_line d = d_name d @ d_pad1 d @ decimal_digits (d_total d) @ d_pad2 d @ decimal_digits (d_used d) @ d_pad3 d @
     decimal_digits (d_free d) @ d_rest d"

text \<open>The rest is set off by a blank too; with its newline the line fits in the buffer.\<close>

definition disk_like :: "disk \<Rightarrow> bool" where
  "disk_like d \<longleftrightarrow> word_like (d_name d) \<and> padding (d_pad1 d) \<and> padding (d_pad2 d) \<and> padding (d_pad3 d) \<and>
     (d_rest d = [] \<or> hd (d_rest d) \<in> {32, 9}) \<and> 0 \<notin> set (d_rest d) \<and> 10 \<notin> set (d_rest d) \<and>
     d_total d < 2 ^ 63 \<and> d_used d < 2 ^ 63 \<and> d_free d < 2 ^ 63 \<and> length (disk_line d) < BUFSIZE - 1"

lemma word_like_digits: "word_like (decimal_digits n)"
  using decimal_digits_digits [of _ n] decimal_digits_nonempty [of n] digit_zero by (auto simp: word_like_def)

lemma disk_line_plain:
  assumes "disk_like d"
  shows "0 \<notin> set (disk_line d)" and "10 \<notin> set (disk_line d)"
proof -
  have w: "0 \<notin> set w \<and> 10 \<notin> set w" if "word_like w" for w using that by (auto simp: word_like_def blank_def)
  have p: "0 \<notin> set g \<and> 10 \<notin> set g" if "padding g" for g using that by (auto simp: padding_def)
  have n: "0 \<notin> set (decimal_digits n) \<and> 10 \<notin> set (decimal_digits n)" for n by (rule w [OF word_like_digits])
  show "0 \<notin> set (disk_line d)" "10 \<notin> set (disk_line d)"
    using assms w p n by (simp_all add: disk_line_def disk_like_def del: decimal_digits.simps)
qed

lemma scan_disk:
  assumes "disk_like d"
  shows "scan [Skip_Word, White, Num, White, Num, White, Num, White, Skip_Word, White, Skip_Word] (text_upto0 (disk_line d @ [10])) =
    Inr [Number (int (d_total d)), Number (int (d_used d)), Number (int (d_free d))]"
proof -
  have d: "word_like (d_name d)" "padding (d_pad1 d)" "padding (d_pad2 d)" "padding (d_pad3 d)"
    "d_total d < 2 ^ 63" "d_used d < 2 ^ 63" "d_free d < 2 ^ 63" using assms by (simp_all add: disk_like_def)
  have rest: "d_rest d @ [10] = [] \<or> blank (hd (d_rest d @ [10]))"
    using assms by (cases "d_rest d") (auto simp: disk_like_def blank_def)
  have plain: "text_upto0 (disk_line d @ [10]) = d_name d @ d_pad1 d @ decimal_digits (d_total d) @ d_pad2 d @
      decimal_digits (d_used d) @ d_pad3 d @ decimal_digits (d_free d) @ d_rest d @ [10]"
    using disk_line_plain(1) [OF assms] text_upto0_plain [of "disk_line d @ [10]"] by (simp add: disk_line_def)
  have "scan [White, Skip_Word, White, Skip_Word] s = Inr []" for s by (simp add: Let_def)
  then show ?thesis unfolding plain
    by (simp only: scan_skip_word [OF d(1) padding_hd [OF d(2)]] scan_padding [OF d(2) word_like_digits] scan_num [OF d(5) padding_hd [OF d(3)]]
      scan_padding [OF d(3) word_like_digits] scan_num [OF d(6) padding_hd [OF d(4)]] scan_padding [OF d(4) word_like_digits]
      scan_num [OF d(7) rest] bind_res.simps)
qed

lemma add_disks_sums:
  "\<forall>d \<in> set ds. disk_like d \<Longrightarrow> add_disks (map (\<lambda>l. l @ [10]) (map disk_line ds)) t u f =
    Inr (Some (t + of_nat (sum_list (map d_total ds)), u + of_nat (sum_list (map d_used ds)), f + of_nat (sum_list (map d_free ds))))"
  by (induction ds arbitrary: t u f) (simp_all add: scan_disk add.assoc of_int_of_nat_eq del: scan.simps)

lemma length_decimal_digits: "n < 10 ^ k \<Longrightarrow> 0 < k \<Longrightarrow> length (decimal_digits n) \<le> k"
proof (induction k arbitrary: n)
  case (Suc k)
  show ?case
  proof (cases "n < 10")
    case False
    then have "0 < k" using Suc.prems(1) by (cases k) auto
    moreover have "n div 10 < 10 ^ k" using Suc.prems(1) by (simp add: less_mult_imp_div_less mult.commute)
    ultimately show ?thesis using Suc.IH [of "n div 10"] False by (simp add: decimal_digits_step)
  qed (simp add: decimal_digits_one)
qed simp

lemma print_sum: "n < 2 ^ 63 \<Longrightarrow> print_int (sint (of_nat n :: 64 word)) = decimal_digits n \<and> length (decimal_digits n) \<le> 19"
proof -
  assume n: "n < 2 ^ 63"
  then have "int n < 2 ^ 63" by (metis of_nat_less_iff of_nat_numeral of_nat_power)
  then have "signed_take_bit 63 (int n) = int n" by (intro signed_take_bit_int_eq_self) simp_all
  then have "sint (of_nat n :: 64 word) = int n" using sint_sbintrunc' [of "int n", where 'a = 64] by simp
  moreover have "n < 10 ^ 19" using n by simp
  ultimately show ?thesis using length_decimal_digits [of n 19] by (simp add: print_int_def)
qed

text \<open>C36: The sums leave out the first disk: what is thrown away as the header of the table is the first line that \<open>grep ^/dev\<close> has let through, and
  the header does not begin that way. This is so for output as \<open>df\<close> prints it: lines shorter than the buffer of 100 bytes, each with a name, three
  numbers that are not negative and a rest, in columns with any padding between them; the sums are below \<open>2^63\<close>.
\<close>

theorem disk_total_skips_first:
  assumes "df D = Some (line_text (map disk_line ds))" and "\<forall>d \<in> set ds. disk_like d"
    and "sum_list (map d_total (tl ds)) < 2 ^ 63" and "sum_list (map d_used (tl ds)) < 2 ^ 63"
    and "sum_list (map d_free (tl ds)) < 2 ^ 63"
  shows "map_sum id fst (DeviceInfo_DiskSpaceTotal D payload) =
    Inr (decimal_digits (sum_list (map d_total (tl ds))) @ 44 # decimal_digits (sum_list (map d_used (tl ds))) @ 44 #
         decimal_digits (sum_list (map d_free (tl ds))))"
proof -
  have "lines_of BUFSIZE (line_text (map disk_line ds)) = map (\<lambda>l. l @ [10]) (map disk_line ds)"
    using assms(2) disk_line_plain(2) by (intro lines_of_text) (auto simp: disk_like_def)
  then have "drop 1 (lines_of BUFSIZE (line_text (map disk_line ds))) = map (\<lambda>l. l @ [10]) (map disk_line (tl ds))"
    by (simp add: drop_Suc map_tl del: BUFSIZE_def)
  moreover have "\<forall>d \<in> set (tl ds). disk_like d" using assms(2) by (cases ds) simp_all
  ultimately have add: "add_disks (drop 1 (lines_of BUFSIZE (line_text (map disk_line ds)))) 0 0 0 =
      Inr (Some (of_nat (sum_list (map d_total (tl ds))), of_nat (sum_list (map d_used (tl ds))), of_nat (sum_list (map d_free (tl ds)))))"
    using add_disks_sums [of "tl ds" 0 0 0] by (simp del: BUFSIZE_def)
  note p = print_sum [OF assms(3)] print_sum [OF assms(4)] print_sum [OF assms(5)]
  show ?thesis
    unfolding DeviceInfo_DiskSpaceTotal_def assms(1) option.simps add bind_res.simps prod.simps three_words_def
    using p by (simp add: strcat_all_outcome str_def del: strcat_all.simps)
qed

text \<open>Two disks, as \<open>df\<close> prints them: the sums are the numbers of the second.\<close>

definition sample_df :: "byte list" where
  "sample_df = str ''/dev/sda1       20511312 9421344  10025008  49% /'' @ [10] @
     str ''/dev/sdb1          97826   15621     77205  17% /boot'' @ [10]"

lemma disk_total_skips_first_witness:
  "map_sum id fst (DeviceInfo_DiskSpaceTotal (sample_device\<lparr>df := Some sample_df\<rparr>) []) = Inr (str ''97826,15621,77205'')"
proof -
  let ?ds = "[\<lparr>d_name = str ''/dev/sda1'', d_pad1 = str ''       '', d_total = 20511312, d_pad2 = str '' '', d_used = 9421344, d_pad3 = str ''  '',
      d_free = 10025008, d_rest = str ''  49% /''\<rparr>,
    \<lparr>d_name = str ''/dev/sdb1'', d_pad1 = str ''          '', d_total = 97826, d_pad2 = str ''   '', d_used = 15621, d_pad3 = str ''     '',
      d_free = 77205, d_rest = str ''  17% /boot''\<rparr>]"
  have digits: "decimal_digits 20511312 = str ''20511312''" "decimal_digits 9421344 = str ''9421344''" "decimal_digits 10025008 = str ''10025008''"
    "decimal_digits 97826 = str ''97826''" "decimal_digits 15621 = str ''15621''" "decimal_digits 77205 = str ''77205''"
    by (simp_all add: decimal_digits_step decimal_digits_one str_def del: decimal_digits.simps)
  have "sample_df = line_text (map disk_line ?ds)"
    by (simp add: sample_df_def line_text_def disk_line_def digits) (simp add: str_def)
  moreover have "\<forall>d \<in> set ?ds. disk_like d"
    by (simp add: disk_like_def disk_line_def digits) (simp add: word_like_def blank_def padding_def str_def)
  ultimately have "map_sum id fst (DeviceInfo_DiskSpaceTotal (sample_device\<lparr>df := Some sample_df\<rparr>) []) =
      Inr (decimal_digits 97826 @ 44 # decimal_digits 15621 @ 44 # decimal_digits 77205)"
    using disk_total_skips_first [of "sample_device\<lparr>df := Some sample_df\<rparr>" ?ds "[]"] by (simp del: decimal_digits.simps)
  also have "\<dots> = Inr (str ''97826,15621,77205'')" unfolding digits by (simp add: str_def)
  finally show ?thesis .
qed

end
