(* ===== verification/Spec2Isabelle.thy ===== *)
theory Spec2Isabelle
  imports Suva_Prelude Crc Mem_Props Sutil_Props Sutil_Hex Suva_Conn_Props Suvlet_Props Put_Props Suvlet_Dialogues Audit_Diff Sutil_Heap Device_Props
begin

text \<open>
  Verification of compat-suva: the client library of the Suva remote procedure calls (src/*.c) and the suvlets,
  programs a server starts that answer calls over a pipe (src/suvlets/*/remote).

  \<^bold>\<open>The program.\<close> A client opens a connection (suva_conn.c), asks the server for a suvlet and calls functions of it. A
  call is a packet of typed values: they are queued and written by scl_writer.c, read by scl_reader.c. All packets live in
  memory of the manager in mem.c, under two memory types of the connection. Every suvlet reads requests with its copy of
  suva_receiver.c, answers those that begin with \<open>inline-\<close> by scl_inlines.c, which also holds the client's side of them and the
  transfer of files made of them, and looks the others up in a table of its own functions. sutil.c has helpers, crc.c a checksum.

  \<^bold>\<open>Faults.\<close> A C function is a HOL function from the state it reads to the state it leaves, in the sum type \<open>res\<close> of
  \<open>Suva_Prelude\<close>. \<open>Inl\<close> is behaviour C leaves undefined (a null or freed pointer, an access outside its object, a division by
  zero), a failed ASSERT, or a loop that used up its rounds. So a theorem with \<open>Inr\<close> excludes all of these, and some theorems state exactly
  when one of them occurs. \<open>int\<close> is \<open>32 word\<close>, a pointer \<open>64 word\<close>, a \<open>char\<close> \<open>8 word\<close>.

  \<^bold>\<open>The theories\<close>, in the order of the code:

  \<^item> \<open>Crc\<close>: crc.c. The table, the step on the signed register, both loops. One step is eight steps of a division by the
    polynomial; errors within four bytes are detected.

  \<^item> \<open>Mem\<close>: mem.c, the two chained tables over a heap of blocks. \<open>Mem_Iface\<close> is the locale of a pointer table, \<open>Mem_Inv\<close>
    the invariant \<open>mem_ok\<close>, the abstraction \<open>mem_abs\<close> and what each operation does to them, with the chains as an
    interpretation of the locale; \<open>Typed_Memory\<close> is the contract the packets rely on, interpreted in \<open>Mem_Props\<close>, which has the
    properties; \<open>Mem_Supply\<close> says when there is enough memory for the next \<open>k\<close> calls (\<open>ample\<close>).

  \<^item> \<open>Sutil\<close>, \<open>Sutil_Props\<close>, \<open>Sutil_Hex\<close>, \<open>Sutil_Heap\<close>: sutil.c. String arrays and the parsers that fill them, name filters, output,
    lock files, the hex dump; the arrays are lists, and \<open>Sutil_Heap\<close> shows that the blocks of memory behind them behave so.

  \<^item> \<open>Scl_Types\<close>, \<open>Scl_IO\<close>, \<open>Scl_Writer\<close>, \<open>Scl_Reader\<close>: suva.h, suva_api.h, scl_read and scl_write over lists of the results of
    read(2) and write(2), the queue and the values on the wire, packets and values taken out of them. \<open>Scl_Iface\<close> is the locale of a stream
    (\<open>scl_stream\<close>), interpreted by the sockets, and by sockets that keep a log of their bytes in \<open>Scl_Log\<close>, which also says when the logs of
    two ends fit together (\<open>joint\<close>); \<open>Scl_Writer_Props\<close> refines the linked queue to a list of values (\<open>queue\<close>) and the bytes to
    \<open>packet\<close> and \<open>payload\<close>; \<open>Scl_Reader_Props\<close> follows the cursor (\<open>reading\<close>); \<open>Scl_Session\<close> puts both together for a connection
    between two packets (\<open>idle\<close>); \<open>Scl_Props\<close> has the properties.

  \<^item> \<open>Suva_Conn\<close>, \<open>Suva_Conn_Props\<close>: suva_conn.c and suva_api.c. Opening, suvlets, closing.

  \<^item> \<open>Host_Files\<close>, \<open>Scl_Inlines\<close>, \<open>Scl_Xfer\<close>: files as a map from names, scl_inlines.c on both sides. \<open>Inlines_Server\<close> is the
    abstract specification: \<open>serve\<close> maps a request, the files and the open file to new ones and the values of the answer.
    \<open>Xfer_Client\<close>, \<open>Xfer_Props\<close> and \<open>Put_Props\<close> follow a transfer against it; at the end of \<open>Xfer_Props\<close> client and suvlet run against each other,
    and their logs show that neither reads a byte before the other has sent it.

  \<^item> \<open>Suvlet\<close>, \<open>Suvlet_Props\<close>, \<open>Suvlet_Calls\<close>, \<open>Suvlet_Dialogues\<close>: suva_receiver.c with the table of functions as a parameter, the suvlets Blank and
    Snort, which have no functions, and calls of functions over a connection; a suvlet refines \<open>serve\<close> on whole conversations.

  \<^item> \<open>Bwmeter\<close>; \<open>Security_Audit\<close>, \<open>Security_Audit_Props\<close>, \<open>Audit_Diff\<close>; \<open>Device_Info\<close>, \<open>Device_Props\<close>; \<open>Software\<close>, \<open>Software_Props\<close>, \<open>Software_List\<close>: the suvlets BWMeter, SecurityAudit
    (with its helpers under utils), DeviceInfo and Software (with software-wrapper.c), on the text functions of the C library in \<open>C_Text\<close>.

  \<^bold>\<open>Bounds.\<close> Loops that follow pointers or ask a counter have rounds: \<open>ELE_ROUNDS\<close> (2^64) for the queue, more than there are
  addresses; \<open>ID_ROUNDS\<close> (2^32 + 1) for memory types, more than there are identifiers. The rounds of a transfer and of
  the copy of a file are an argument; the theorems ask for more than there are blocks. \<open>make_room\<close> has 64 rounds, as each
  doubles the size, and \<open>add_line\<close> two levels, as the message of the inner call fits at once; \<open>get_match\<close> has two rounds for every byte of the file
  and four more. The theorems about these functions show that they return.

  \<^bold>\<open>What the environment decides\<close> is a parameter: where malloc finds a block and when it fails (\<open>libc\<close>; a realloc to 0 bytes that
  returns NULL has freed the block, as in glibc), what read(2) and write(2)
  return and when a call times out (\<open>sock\<close>), which files may be opened and grow (\<open>kernel\<close>), what child programs print, return and do to the files
  (\<open>machine\<close>, \<open>packages\<close>, \<open>device\<close>), what an array on the stack holds before it is written.

  \<^bold>\<open>Not modelled.\<close> Builds with \<open>SCO_BIG_ENDIAN\<close> or without \<open>SCO_SUVA_API\<close> (mem_plot, mem_dump); the buffering of stdio, so a write is seen at once;
  symbolic links and directories; what is printed on stderr; floating-point arithmetic: the bytes per second of an interval of a transfer
  and the conversion of a text to a double in DeviceInfo_Uptime are parameters; a failing strdup in db_diff; a child that is stopped by a signal; that a child of
  SecurityAudit whose execv fails runs exit_clean_up (the parameter \<open>program\<close> stands for all a child does to the files); fatal of suva_util.c, which only prints
  and exits. src/suvlets/SecurityAudit/remote/findutils-4.5.11 is a copy of GNU findutils, the rest of the tree build files.
\<close>

end
